(* ===== verification/Prelude.thy ===== *)
theory Prelude
  imports Main "HOL-Library.Word" "HOL-Library.Char_ord" "HOL-Library.List_Lexorder"
    "HOL-Library.Product_Lexorder" "HOL-Library.Multiset"
begin

text \<open>
  What the components share: the integer types of the Rust code, fallible results, the iterator
  idioms \<open>iter().position\<close> and \<open>iter_mut().find\<close>, the sorted association list that stands for a
  \<open>BTreeMap\<close>, and decimal printing and parsing of unsigned integers (Rust's \<open>Display\<close> and
  \<open>parse::<u32>\<close>). A Rust \<open>String\<close> is its UTF-8 bytes, a HOL \<open>string\<close>; the lexicographic order of
  \<open>List_Lexorder\<close> over \<open>Char_ord\<close> is then the order of \<open>str\<close>.
\<close>

named_theorems iter_simps \<open>lookups and updates through the iterator idioms\<close>
named_theorems btree_simps \<open>the sorted association list of a BTreeMap\<close>

type_synonym u16 = "16 word"
type_synonym u32 = "32 word"
type_synonym u64 = "64 word"
type_synonym i32 = "32 word"

section \<open>Fallible code\<close>

text \<open>\<open>r?\<close> followed by the rest of the function: the first error ends it.\<close>

fun try_then :: "'e + 'a \<Rightarrow> ('a \<Rightarrow> 'e + 'b) \<Rightarrow> 'e + 'b" where
  "try_then (Inl e) f = Inl e"
| "try_then (Inr a) f = f a"

fun map_err :: "('e \<Rightarrow> 'f) \<Rightarrow> 'e + 'a \<Rightarrow> 'f + 'a" where
  "map_err f (Inl e) = Inl (f e)"
| "map_err f (Inr a) = Inr a"

definition ok_or :: "'e \<Rightarrow> 'a option \<Rightarrow> 'e + 'a" where
  "ok_or e x = (case x of None \<Rightarrow> Inl e | Some a \<Rightarrow> Inr a)"

lemma try_then_Inr: "try_then r f = Inr b \<longleftrightarrow> (\<exists>a. r = Inr a \<and> f a = Inr b)"
  by (cases r) auto

lemma try_then_Inl: "try_then r f = Inl e \<longleftrightarrow> r = Inl e \<or> (\<exists>a. r = Inr a \<and> f a = Inl e)"
  by (cases r) auto

lemma map_err_Inr [simp]: "map_err f r = Inr a \<longleftrightarrow> r = Inr a"
  by (cases r) auto

lemma map_err_Inl: "map_err f r = Inl e \<longleftrightarrow> (\<exists>e'. r = Inl e' \<and> e = f e')"
  by (cases r) auto

lemma ok_or_Inr [simp]: "ok_or e x = Inr a \<longleftrightarrow> x = Some a"
  by (auto simp: ok_or_def split: option.splits)

lemma ok_or_Inl [simp]: "ok_or e x = Inl e' \<longleftrightarrow> x = None \<and> e' = e"
  by (auto simp: ok_or_def split: option.splits)

section \<open>Iterator idioms\<close>

text \<open>\<open>iter().position(p)\<close>.\<close>

fun position :: "('a \<Rightarrow> bool) \<Rightarrow> 'a list \<Rightarrow> nat option" where
  "position p [] = None"
| "position p (x # xs) = (if p x then Some 0 else map_option Suc (position p xs))"

text \<open>\<open>if let Some(x) = iter_mut().find(p) { f(x) }\<close>: the first match is rewritten in place.\<close>

fun update_first :: "('a \<Rightarrow> bool) \<Rightarrow> ('a \<Rightarrow> 'a) \<Rightarrow> 'a list \<Rightarrow> 'a list" where
  "update_first p f [] = []"
| "update_first p f (x # xs) = (if p x then f x # xs else x # update_first p f xs)"

lemma position_None [iter_simps]: "position p xs = None \<longleftrightarrow> (\<forall>x\<in>set xs. \<not> p x)"
  by (induction xs) auto

lemma position_Some:
  "position p xs = Some i \<longleftrightarrow> i < length xs \<and> p (xs ! i) \<and> (\<forall>j<i. \<not> p (xs ! j))"
proof (induction xs arbitrary: i)
  case (Cons x xs)
  show ?case
    by (cases i) (auto simp: Cons.IH All_less_Suc2)
qed simp

lemma position_distinct:
  assumes "distinct xs" and "i < length xs"
  shows "position (\<lambda>y. y = xs ! i) xs = Some i"
  using assms by (auto simp: position_Some nth_eq_iff_index_eq)

lemma find_position: "List.find p xs = map_option (\<lambda>i. xs ! i) (position p xs)"
  by (induction xs) (auto simp: option.map_comp comp_def)

lemma length_update_first [simp]: "length (update_first p f xs) = length xs"
  by (induction xs) auto

lemma update_first_absent [iter_simps]: "\<forall>x\<in>set xs. \<not> p x \<Longrightarrow> update_first p f xs = xs"
  by (induction xs) auto

lemma map_update_first [iter_simps]:
  "(\<And>x. g (f x) = g x) \<Longrightarrow> map g (update_first p f xs) = map g xs"
  by (induction xs) auto

lemma find_update_first_same:
  "(\<And>x. p x \<Longrightarrow> p (f x)) \<Longrightarrow> List.find p (update_first p f xs) = map_option f (List.find p xs)"
  by (induction xs) auto

lemma find_update_first_other:
  "(\<And>x. p x \<Longrightarrow> q (f x) \<longleftrightarrow> q x) \<Longrightarrow> (\<And>x. p x \<Longrightarrow> \<not> q x)
   \<Longrightarrow> List.find q (update_first p f xs) = List.find q xs"
  by (induction xs) auto

lemma update_first_distinct:
  assumes "distinct (map key xs)"
  shows "update_first (\<lambda>x. key x = k) f xs = map (\<lambda>x. if key x = k then f x else x) xs"
  using assms
proof (induction xs)
  case (Cons x xs)
  have "map (\<lambda>x. if key x = k then f x else x) xs = xs" if "key x = k"
    using Cons.prems that by (intro map_idI) (auto simp: rev_image_eqI)
  with Cons show ?case by simp
qed simp

lemma find_distinct:
  assumes "distinct (map key xs)" and "x \<in> set xs"
  shows "List.find (\<lambda>y. key y = key x) xs = Some x"
  using assms by (induction xs) (auto simp: rev_image_eqI)

lemma find_SomeD: "List.find p xs = Some x \<Longrightarrow> x \<in> set xs \<and> p x"
  by (induction xs) (auto split: if_splits)

lemma set_map_filter: "set (List.map_filter f xs) = {y. \<exists>x\<in>set xs. f x = Some y}"
  by (induction xs) (auto simp: map_filter_simps split: option.splits)

section \<open>BTreeMap as a sorted association list\<close>

fun bt_insert :: "'k::linorder \<Rightarrow> 'v \<Rightarrow> ('k \<times> 'v) list \<Rightarrow> ('k \<times> 'v) list" where
  "bt_insert k v [] = [(k, v)]"
| "bt_insert k v ((k', v') # m) =
     (if k < k' then (k, v) # (k', v') # m
      else if k = k' then (k, v) # m
      else (k', v') # bt_insert k v m)"

definition bt_inv :: "('k::linorder \<times> 'v) list \<Rightarrow> bool" where
  "bt_inv m \<longleftrightarrow> sorted_wrt (<) (map fst m)"

lemma bt_inv_Nil [btree_simps]: "bt_inv []"
  by (simp add: bt_inv_def)

lemma fst_bt_insert [btree_simps]: "fst ` set (bt_insert k v m) = insert k (fst ` set m)"
  by (induction k v m rule: bt_insert.induct) auto

lemma bt_inv_insert [btree_simps]: "bt_inv m \<Longrightarrow> bt_inv (bt_insert k v m)"
proof (induction k v m rule: bt_insert.induct)
  case (2 k v k' v' m)
  have "\<forall>x\<in>fst ` set (bt_insert k v m). k' < x" if "k' < k"
    using 2(2) that by (auto simp: bt_inv_def fst_bt_insert)
  with 2 show ?case by (auto simp: bt_inv_def)
qed (simp add: bt_inv_def)

lemma bt_get_insert [btree_simps]:
  "map_of (bt_insert k v m) x = (if x = k then Some v else map_of m x)" if "bt_inv m"
  using that
proof (induction k v m rule: bt_insert.induct)
  case (2 k v k' v' m)
  have "map_of m k = None" if "k \<le> k'"
    using 2(2) that by (force simp: bt_inv_def map_of_eq_None_iff)
  with 2 show ?case by (auto simp: bt_inv_def)
qed simp

text \<open>Iterating the map visits its keys in increasing order.\<close>

lemma bt_keys_sorted: "bt_inv m \<Longrightarrow> sorted (map fst m) \<and> distinct (map fst m)"
  by (simp add: bt_inv_def strict_sorted_iff)

lemma bt_total_insert:
  assumes "map_of m k = Some d"  and "bt_inv m"
  shows "sum_list (map snd (bt_insert k (n::nat) m)) + d = sum_list (map snd m) + n"
  using assms
proof (induction k n m rule: bt_insert.induct)
  case (2 k v k' v' m)
  have "map_of m k = None" if "k \<le> k'"
    using 2(3) that by (force simp: bt_inv_def map_of_eq_None_iff)
  with 2 show ?case by (auto simp: bt_inv_def split: if_splits dest: less_imp_le)
qed simp

section \<open>Decimal numbers\<close>

definition digit_char :: "nat \<Rightarrow> char" where
  "digit_char d = char_of (48 + d)"

fun show_nat :: "nat \<Rightarrow> string" where
  "show_nat n = (if n < 10 then [digit_char n] else show_nat (n div 10) @ [digit_char (n mod 10)])"

declare show_nat.simps [simp del]

definition is_digit :: "char \<Rightarrow> bool" where
  "is_digit c \<longleftrightarrow> 48 \<le> (of_char c :: nat) \<and> (of_char c :: nat) \<le> 57"

fun parse_digits :: "nat \<Rightarrow> string \<Rightarrow> nat option" where
  "parse_digits acc [] = Some acc"
| "parse_digits acc (c # cs) =
     (if is_digit c then parse_digits (10 * acc + (of_char c - 48)) cs else None)"

text \<open>\<open>str::parse\<close> at an unsigned type with the given largest value: one optional \<open>+\<close>, at least one
  digit, nothing else, and no value above the type's largest.\<close>

definition parse_uint :: "nat \<Rightarrow> string \<Rightarrow> nat option" where
  "parse_uint limit s =
     (let ds = (case s of CHR ''+'' # r \<Rightarrow> r | _ \<Rightarrow> s)
      in if ds = [] then None
         else (case parse_digits 0 ds of
                 Some n \<Rightarrow> if n \<le> limit then Some n else None
               | None \<Rightarrow> None))"

lemma parse_digits_append:
  "parse_digits a (xs @ ys) = (case parse_digits a xs of None \<Rightarrow> None | Some b \<Rightarrow> parse_digits b ys)"
  by (induction a xs rule: parse_digits.induct) auto

lemma digit_char_code: "d < 10 \<Longrightarrow> (of_char (digit_char d) :: nat) = 48 + d"
  by (simp add: digit_char_def)

lemma parse_digits_digit: "d < 10 \<Longrightarrow> parse_digits a [digit_char d] = Some (10 * a + d)"
  by (simp add: is_digit_def digit_char_code)

lemma parse_show_nat: "parse_digits 0 (show_nat n) = Some n"
proof (induction n rule: show_nat.induct)
  case (1 n)
  show ?case
  proof (cases "n < 10")
    case True
    then show ?thesis
      using parse_digits_digit [of n 0] by (subst show_nat.simps) simp
  next
    case False
    with 1 show ?thesis
      using parse_digits_digit [of "n mod 10" "n div 10"]
      by (subst show_nat.simps) (simp add: parse_digits_append)
  qed
qed

lemma show_nat_not_Nil [simp]: "show_nat n \<noteq> []"
  by (subst show_nat.simps) simp

lemma digit_char_not_plus: "d < 10 \<Longrightarrow> digit_char d \<noteq> CHR ''+''"
proof
  assume "d < 10" and "digit_char d = CHR ''+''"
  then have "48 + d = (of_char (CHR ''+'') :: nat)"
    using digit_char_code by metis
  then show False by simp
qed

lemma hd_show_nat: "hd (show_nat n) \<noteq> CHR ''+''"
proof (induction n rule: show_nat.induct)
  case (1 n)
  then show ?case
    by (subst show_nat.simps) (auto simp: digit_char_not_plus)
qed

lemma parse_uint_show_nat: "n \<le> limit \<Longrightarrow> parse_uint limit (show_nat n) = Some n"
proof -
  assume "n \<le> limit"
  have "(case show_nat n of CHR ''+'' # r \<Rightarrow> r | _ \<Rightarrow> show_nat n) = show_nat n"
    using hd_show_nat [of n] by (cases "show_nat n") (auto split: char.splits bool.splits)
  with \<open>n \<le> limit\<close> show ?thesis
    by (simp add: parse_uint_def parse_show_nat)
qed

lemma show_nat_inject [simp]: "show_nat a = show_nat b \<longleftrightarrow> a = b"
  by (metis option.inject parse_show_nat)

lemma show_nat_digits: "c \<in> set (show_nat n) \<Longrightarrow> is_digit c"
proof (induction n rule: show_nat.induct)
  case (1 n)
  then show ?case
    by (subst (asm) (2) show_nat.simps) (auto simp: is_digit_def digit_char_code split: if_splits)
qed

section \<open>Saturating arithmetic\<close>

lemma unat_u32_less: "unat (w :: u32) < 2 ^ 32"
  using unsigned_less [of w, where 'a = nat] by simp

lemma unat_u64_less: "unat (w :: u64) < 2 ^ 64"
  using unsigned_less [of w, where 'a = nat] by simp

lemma unat_u32_max [simp]: "unat (- 1 :: u32) = 4294967295"
  by (simp add: unsigned_minus_1_eq_mask mask_eq_exp_minus_1)

definition saturating_inc :: "u32 \<Rightarrow> u32" where
  "saturating_inc x = (if x = - 1 then x else x + 1)"

lemma unat_saturating_inc: "x \<noteq> - 1 \<Longrightarrow> unat (saturating_inc x) = Suc (unat x)"
proof -
  assume x: "x \<noteq> - 1"
  then have "1 + x \<noteq> 0" by (metis add_eq_0_iff2 add.commute)
  then have "unat (1 + x) = Suc (unat x)" by (rule unatSuc)
  with x show ?thesis by (simp add: saturating_inc_def add.commute)
qed

lemma saturating_inc_greater: "x \<noteq> - 1 \<Longrightarrow> x < saturating_inc x"
  by (simp add: word_less_nat_alt unat_saturating_inc)

text \<open>Quotes and dashes of the operator-facing messages.\<close>

abbreviation (input) quote_char :: string where
  "quote_char \<equiv> [CHR 0x27]"

abbreviation (input) em_dash :: string where
  "em_dash \<equiv> [CHR 0xE2, CHR 0x80, CHR 0x94]"

end
