(* ===== verification/Errors.thy ===== *)
theory Errors
  imports Prelude
begin

text \<open>
  The error type shared by the session store, the manifest and the PR stack (\<open>tddy-session-store\<close>,
  \<open>error.rs\<close>), with the messages its variants print.
\<close>

text \<open>
  The errors of \<open>WorkflowError\<close>, without \<open>ClarificationNeeded\<close>, which only a coding backend
  raises. \<open>Panic\<close> is a Rust panic; the theorems show where it cannot happen.
\<close>

datatype backend_error =
    InvocationFailed string
  | BinaryNotFound string

datatype parse_error =
    MissingPrimaryDocumentSection
  | MissingTodo
  | Malformed string

datatype workflow_error =
    InvalidTransition string
  | Backend backend_error
  | ParseError parse_error
  | WriteFailed string
  | PlanDirInvalid string
  | SessionMissing string
  | ChangesetMissing string
  | ChangesetInvalid string
  | Panic string

text \<open>The \<open>Display\<close> of the errors.\<close>

fun show_backend_error :: "backend_error \<Rightarrow> string" where
  "show_backend_error (InvocationFailed m) = m"
| "show_backend_error (BinaryNotFound m) = ''binary not found: '' @ m"

fun show_parse_error :: "parse_error \<Rightarrow> string" where
  "show_parse_error MissingPrimaryDocumentSection = ''missing primary document section''"
| "show_parse_error MissingTodo = ''missing TODO section''"
| "show_parse_error (Malformed m) = ''malformed output: '' @ m"

fun show_workflow_error :: "workflow_error \<Rightarrow> string" where
  "show_workflow_error (InvalidTransition m) = ''invalid state transition: '' @ m"
| "show_workflow_error (Backend e) = ''backend error: '' @ show_backend_error e"
| "show_workflow_error (ParseError e) = ''output parsing failed: '' @ show_parse_error e"
| "show_workflow_error (WriteFailed m) = ''artifact write failed: '' @ m"
| "show_workflow_error (PlanDirInvalid m) = ''plan directory invalid: '' @ m"
| "show_workflow_error (SessionMissing m) = ''session file missing: '' @ m"
| "show_workflow_error (ChangesetMissing m) = ''changeset.yaml missing: '' @ m"
| "show_workflow_error (ChangesetInvalid m) = ''changeset.yaml invalid: '' @ m"
| "show_workflow_error (Panic m) = m"

end
