(* ===== verification/Changeset.thy ===== *)
theory Changeset
  imports Errors
begin

text \<open>
  The session manifest \<open>changeset.yaml\<close> (package \<open>tddy-changeset\<close>): its data
  (\<open>changeset/model.rs\<close>, and the stack carried in it, \<open>changeset/stack.rs\<close>), reading and atomically
  replacing the file (\<open>changeset/io.rs\<close>) and the state updates of \<open>changeset/merge.rs\<close>.

  The directory tree is a partial map from a session directory to the text of its
  \<open>changeset.yaml\<close>. The YAML encoder and decoder and the answers of the operating system are not
  code of the repository: they are the fields of the record \<open>yaml_io\<close>, an argument of every
  operation. \<open>yaml_ok\<close> is what the code relies on: a text the encoder produced decodes to the value it
  was produced from, and a file that could be written can be read.
\<close>

section \<open>Data\<close>

type_synonym workflow_state = string
type_synonym goal_id = string

record github_pr_status =
  phase :: string
  pr_url :: "string option"
  pr_error :: "string option"

record pr_internal_status =
  status_kind :: string
  status_note :: "string option"
  status_source :: string

record stack_node =
  node_id :: string
  title :: string
  description :: string
  branch_suggestion :: "string option"
  branch :: "string option"
  session_id :: "string option"
  parents :: "string list"
  pr_status :: "github_pr_status option"
  child_state :: "workflow_state option"
  internal_status :: "pr_internal_status option"
  display_order :: "u32 option"

record stack =
  version :: u32
  nodes :: "stack_node list"

definition default_stack :: stack where
  "default_stack = \<lparr>version = 0, nodes = []\<rparr>"

record session_entry =
  entry_id :: string
  entry_agent :: string
  entry_tag :: string
  created_at :: string
  system_prompt_file :: "string option"

record state_transition =
  tr_state :: workflow_state
  tr_at :: string

record changeset_state =
  st_current :: workflow_state
  st_session_id :: "string option"
  st_updated_at :: string
  st_history :: "state_transition list"

datatype branch_worktree_intent = NewBranchFromBase | WorkOnSelectedBranch

record changeset_workflow =
  run_optional_step_x :: "bool option"
  demo_options :: "string list"
  tool_schema_id :: "string option"
  wf_branch_worktree_intent :: "branch_worktree_intent option"
  selected_integration_base_ref :: "string option"
  new_branch_name :: "string option"
  selected_branch_to_work_on :: "string option"
  post_workflow_open_github_pr :: "bool option"
  post_workflow_remove_session_worktree :: "bool option"
  wf_github_pr_status :: "github_pr_status option"
  operator_remove_session_worktree :: "bool option"

record question_option_for_qa =
  opt_label :: string
  opt_description :: string

record clarification_question_for_qa =
  qa_header :: string
  qa_question :: string
  qa_options :: "question_option_for_qa list"
  qa_multi_select :: bool

record clarification_qa =
  asked :: clarification_question_for_qa
  answer :: string

record relevant_code =
  code_path :: string
  code_reason :: string

record test_infrastructure =
  test_runner :: string
  test_conventions :: string

record discovery_data =
  toolchain :: "(string \<times> string) list"
  scripts :: "(string \<times> string) list"
  doc_locations :: "string list"
  relevant_codes :: "relevant_code list"
  test_infra :: "test_infrastructure option"

record changeset =
  cs_name :: "string option"
  cs_initial_prompt :: "string option"
  cs_clarification_qa :: "clarification_qa list"
  cs_version :: u32
  cs_models :: "(string \<times> string) list"
  cs_sessions :: "session_entry list"
  cs_state :: changeset_state
  cs_artifacts :: "(string \<times> string) list"
  cs_discovery :: "discovery_data option"
  cs_worktree :: "string option"
  cs_branch :: "string option"
  cs_branch_suggestion :: "string option"
  cs_worktree_suggestion :: "string option"
  cs_remote_pushed :: bool
  cs_repo_path :: "string option"
  cs_recipe :: "string option"
  cs_workflow :: "changeset_workflow option"
  cs_effective_worktree_integration_base_ref :: "string option"
  cs_worktree_integration_base_ref :: "string option"
  cs_stack :: "stack option"
  cs_orchestrator_session_id :: "string option"
  cs_orchestrator_daemon_instance_id :: "string option"

text \<open>\<open>Changeset::default\<close>, at the clock reading \<open>now\<close>.\<close>

definition default_changeset :: "string \<Rightarrow> changeset" where
  "default_changeset now =
     \<lparr>cs_name = None, cs_initial_prompt = None, cs_clarification_qa = [], cs_version = 1, cs_models = [], cs_sessions = [],
      cs_state = \<lparr>st_current = ''Init'', st_session_id = None, st_updated_at = now,
                  st_history = [\<lparr>tr_state = ''Init'', tr_at = now\<rparr>]\<rparr>,
      cs_artifacts = [], cs_discovery = None, cs_worktree = None, cs_branch = None,
      cs_branch_suggestion = None, cs_worktree_suggestion = None, cs_remote_pushed = False,
      cs_repo_path = None, cs_recipe = None, cs_workflow = None,
      cs_effective_worktree_integration_base_ref = None, cs_worktree_integration_base_ref = None,
      cs_stack = None, cs_orchestrator_session_id = None,
      cs_orchestrator_daemon_instance_id = None\<rparr>"

section \<open>Reading and writing the manifest\<close>

record 'y yaml_io =
  to_yaml :: "changeset \<Rightarrow> string + 'y"
  from_yaml :: "'y \<Rightarrow> string + changeset"
  read_error :: "string \<Rightarrow> string option"
  write_error :: "string \<Rightarrow> 'y \<Rightarrow> string option"

definition yaml_ok :: "'y yaml_io \<Rightarrow> bool" where
  "yaml_ok io \<longleftrightarrow>
     (\<forall>cs t. to_yaml io cs = Inr t \<longrightarrow> from_yaml io t = Inr cs) \<and>
     (\<forall>dir t. write_error io dir t = None \<longrightarrow> read_error io dir = None)"

type_synonym 'y fs = "string \<rightharpoonup> 'y"

definition read_changeset :: "'y yaml_io \<Rightarrow> 'y fs \<Rightarrow> string \<Rightarrow> workflow_error + changeset" where
  "read_changeset io fs dir =
     (case read_error io dir of
        Some e \<Rightarrow> Inl (ChangesetInvalid e)
      | None \<Rightarrow>
          (case fs dir of
             None \<Rightarrow> Inl (ChangesetMissing (''changeset.yaml not found in '' @ dir @ '' '' @ em_dash @
                                            '' run the plan goal first''))
           | Some text \<Rightarrow> map_err ChangesetInvalid (from_yaml io text)))"

definition write_changeset_atomic ::
    "'y yaml_io \<Rightarrow> 'y fs \<Rightarrow> string \<Rightarrow> changeset \<Rightarrow> workflow_error + 'y fs" where
  "write_changeset_atomic io fs dir cs =
     (case to_yaml io cs of
        Inl e \<Rightarrow> Inl (WriteFailed e)
      | Inr text \<Rightarrow>
          (case write_error io dir text of
             Some e \<Rightarrow> Inl (WriteFailed (dir @ ''/changeset.yaml: '' @ e))
           | None \<Rightarrow> Inr (fs(dir \<mapsto> text))))"

definition ensure_changeset_recipe ::
    "'y yaml_io \<Rightarrow> string \<Rightarrow> 'y fs \<Rightarrow> string \<Rightarrow> string \<Rightarrow> workflow_error + 'y fs" where
  "ensure_changeset_recipe io now fs dir recipe_name =
     try_then
       (case read_changeset io fs dir of
          Inr cs \<Rightarrow> Inr cs
        | Inl (ChangesetMissing _) \<Rightarrow> Inr (default_changeset now)
        | Inl e \<Rightarrow> Inl e)
       (\<lambda>cs. if cs_recipe cs \<noteq> None then Inr fs
             else write_changeset_atomic io fs dir (cs\<lparr>cs_recipe := Some recipe_name\<rparr>))"

lemma read_after_write:
  assumes "yaml_ok io" and "write_changeset_atomic io fs dir cs = Inr fs'"
  shows "read_changeset io fs' dir = Inr cs"
  using assms
  by (auto simp: yaml_ok_def write_changeset_atomic_def read_changeset_def
      split: sum.splits option.splits)

lemma read_after_write_other:
  assumes "write_changeset_atomic io fs dir cs = Inr fs'" and "d \<noteq> dir"
  shows "read_changeset io fs' d = read_changeset io fs d"
  using assms
  by (auto simp: write_changeset_atomic_def read_changeset_def split: sum.splits option.splits)

section \<open>State updates\<close>

definition update_state :: "string \<Rightarrow> changeset \<Rightarrow> workflow_state \<Rightarrow> changeset" where
  "update_state now cs new_state =
     cs\<lparr>cs_state := (cs_state cs)\<lparr>st_history := st_history (cs_state cs) @
                                    [\<lparr>tr_state = new_state, tr_at = now\<rparr>],
                                  st_current := new_state,
                                  st_updated_at := now\<rparr>\<rparr>"

definition append_session_and_update_state ::
    "string \<Rightarrow> changeset \<Rightarrow> string \<Rightarrow> string \<Rightarrow> workflow_state \<Rightarrow> string \<Rightarrow> string option \<Rightarrow> changeset" where
  "append_session_and_update_state now cs sid tag new_state agent prompt_file =
     cs\<lparr>cs_sessions := cs_sessions cs @
          [\<lparr>entry_id = sid, entry_agent = agent, entry_tag = tag, created_at = now,
            system_prompt_file = prompt_file\<rparr>],
        cs_state := (cs_state cs)\<lparr>st_session_id := Some sid,
                                  st_history := st_history (cs_state cs) @
                                    [\<lparr>tr_state = new_state, tr_at = now\<rparr>],
                                  st_current := new_state,
                                  st_updated_at := now\<rparr>\<rparr>"

definition resolve_model ::
    "changeset option \<Rightarrow> string \<Rightarrow> string option \<Rightarrow> (string \<times> string) list option \<Rightarrow> string option" where
  "resolve_model cs goal cli_model recipe_defaults =
     (case cli_model of
        Some m \<Rightarrow> Some m
      | None \<Rightarrow>
          (case (case cs of None \<Rightarrow> None | Some c \<Rightarrow> map_of (cs_models c) goal) of
             Some m \<Rightarrow> Some m
           | None \<Rightarrow> (case recipe_defaults of None \<Rightarrow> None | Some d \<Rightarrow> map_of d goal)))"

definition get_session_for_tag :: "changeset \<Rightarrow> string \<Rightarrow> string option" where
  "get_session_for_tag cs tag =
     map_option entry_id (List.find (\<lambda>s. entry_tag s = tag) (rev (cs_sessions cs)))"

definition resolve_agent_from_changeset :: "changeset \<Rightarrow> string \<Rightarrow> string option" where
  "resolve_agent_from_changeset cs preferred_tag =
     (case map_option entry_agent (List.find (\<lambda>s. entry_tag s = preferred_tag) (rev (cs_sessions cs))) of
        Some a \<Rightarrow> Some a
      | None \<Rightarrow> (case rev (cs_sessions cs) of [] \<Rightarrow> None | s # _ \<Rightarrow> Some (entry_agent s)))"

text \<open>The session appended last under a tag is the one the tag and the agent resolve to.\<close>

lemma append_session_lookup:
  "get_session_for_tag (append_session_and_update_state now cs sid tag st agent pf) tag = Some sid"
  "resolve_agent_from_changeset (append_session_and_update_state now cs sid tag st agent pf) tag = Some agent"
  by (simp_all add: get_session_for_tag_def resolve_agent_from_changeset_def
      append_session_and_update_state_def)

end
