(* ===== verification/Dag.thy ===== *)
theory Dag
  imports Prelude
begin

text \<open>
  Directed graphs of dependencies, for the components that order them: the PR stack
  (\<open>Stack::topo_order\<close>, \<open>numbering_order\<close>) and the build graph (\<open>kahn_waves\<close>). The theory states
  when a list is a topological order, that such an order exists only for an acyclic relation, what
  splicing a vertex out of a graph does to its paths, and the one step Kahn's algorithm repeats.
  That step is the inner loop \<open>for child in deps { d -= 1; if d == 0 { push(child) } }\<close>, which both
  components contain; its facts are proved once, over the interface \<open>degree_table\<close> of the table of
  in-degrees it decrements.
\<close>

section \<open>Topological order\<close>

definition topo_sorted :: "('a \<times> 'a) set \<Rightarrow> 'a list \<Rightarrow> bool" where
  "topo_sorted E xs \<longleftrightarrow> sorted_wrt (\<lambda>x y. (y, x) \<notin> E) xs \<and> (\<forall>x\<in>set xs. (x, x) \<notin> E)"

lemma topo_sorted_Nil [simp]: "topo_sorted E []"
  by (simp add: topo_sorted_def)

lemma topo_sorted_append:
  "topo_sorted E (xs @ ys) \<longleftrightarrow>
     topo_sorted E xs \<and> topo_sorted E ys \<and> (\<forall>x\<in>set xs. \<forall>y\<in>set ys. (y, x) \<notin> E)"
  by (auto simp: topo_sorted_def sorted_wrt_append)

lemma topo_sorted_snoc:
  "topo_sorted E (xs @ [y]) \<longleftrightarrow> topo_sorted E xs \<and> (\<forall>x\<in>insert y (set xs). (y, x) \<notin> E)"
  by (auto simp: topo_sorted_append) (auto simp: topo_sorted_def)

lemma topo_sorted_nth:
  assumes "topo_sorted E xs" and "i < length xs" and "j < length xs" and "(xs ! i, xs ! j) \<in> E"
  shows "i < j"
proof (rule ccontr)
  assume "\<not> i < j"
  then consider "i = j" | "j < i" by linarith
  then show False
    using assms by cases (auto simp: topo_sorted_def sorted_wrt_iff_nth_less)
qed

lemma topo_sorted_independent: "(\<And>x y. x \<in> set xs \<Longrightarrow> y \<in> set xs \<Longrightarrow> (x, y) \<notin> E) \<Longrightarrow> topo_sorted E xs"
  by (auto simp: topo_sorted_def sorted_wrt_iff_nth_less)

lemma topo_sorted_mono: "topo_sorted E xs \<Longrightarrow> F \<subseteq> E \<Longrightarrow> topo_sorted F xs"
  unfolding topo_sorted_def by (auto elim: sorted_wrt_mono_rel [rotated])

lemma topo_sorted_mono_on:
  assumes "topo_sorted E xs" and "\<And>x y. x \<in> set xs \<Longrightarrow> y \<in> set xs \<Longrightarrow> (x, y) \<in> F \<Longrightarrow> (x, y) \<in> E"
  shows "topo_sorted F xs"
proof -
  have "sorted_wrt (\<lambda>x y. (y, x) \<notin> F) xs"
    by (rule sorted_wrt_mono_rel [where P = "\<lambda>x y. (y, x) \<notin> E"]) (use assms in \<open>auto simp: topo_sorted_def\<close>)
  then show ?thesis using assms by (auto simp: topo_sorted_def)
qed

theorem topo_sorted_acyclic:
  assumes "topo_sorted E xs" and "E \<subseteq> set xs \<times> set xs"
  shows "acyclic E"
proof -
  define idx where "idx x = the (position (\<lambda>y. y = x) xs)" for x
  have idx: "idx x < length xs \<and> xs ! idx x = x" if "x \<in> set xs" for x
  proof (cases "position (\<lambda>y. y = x) xs")
    case None
    with that show ?thesis by (auto simp: position_None)
  next
    case (Some i)
    then have "idx x = i" by (simp add: idx_def)
    with Some show ?thesis by (simp add: position_Some)
  qed
  have "E \<subseteq> measure idx"
  proof (rule subrelI)
    fix x y
    assume "(x, y) \<in> E"
    with assms(2) have "x \<in> set xs" "y \<in> set xs" by auto
    then show "(x, y) \<in> measure idx"
      using \<open>(x, y) \<in> E\<close> topo_sorted_nth [OF assms(1), of "idx x" "idx y"] idx by auto
  qed
  then show ?thesis
    by (meson wf_acyclic wf_measure wf_subset)
qed

text \<open>A non-empty finite set of vertices that all wait for another vertex of the set is a cycle.\<close>

lemma stuck_not_acyclic:
  assumes "finite S" and "S \<noteq> {}" and "\<And>x. x \<in> S \<Longrightarrow> \<exists>y\<in>S. (y, x) \<in> E"
  shows "\<not> acyclic E"
proof
  assume "acyclic E"
  then have "acyclic (E \<inter> S \<times> S)" by (rule acyclic_subset) auto
  moreover have "finite (E \<inter> S \<times> S)" using assms(1) by blast
  ultimately have "wf (E \<inter> S \<times> S)" by (simp add: finite_acyclic_wf)
  then obtain x where "x \<in> S" and "\<And>y. (y, x) \<in> E \<inter> S \<times> S \<Longrightarrow> y \<notin> S"
    using assms(2) by (metis all_not_in_conv wfE_min)
  with assms(3) show False by blast
qed

section \<open>Splicing a vertex out\<close>

text \<open>Edges that avoid \<open>v\<close>, and an edge across every path \<open>a \<rightarrow> v \<rightarrow> b\<close>.\<close>

definition bypass :: "('a \<times> 'a) set \<Rightarrow> 'a \<Rightarrow> ('a \<times> 'a) set" where
  "bypass E v = {(a, b). a \<noteq> v \<and> b \<noteq> v \<and> ((a, b) \<in> E \<or> (a, v) \<in> E \<and> (v, b) \<in> E)}"

lemma bypass_trancl_sound: "(a, b) \<in> (bypass E v)\<^sup>+ \<Longrightarrow> (a, b) \<in> E\<^sup>+ \<and> a \<noteq> v \<and> b \<noteq> v"
proof (induction rule: trancl_induct)
  case (base y)
  then show ?case by (auto simp: bypass_def intro: trancl_into_trancl)
next
  case (step y z)
  then have "(y, z) \<in> E\<^sup>+" and "z \<noteq> v" by (auto simp: bypass_def intro: trancl_into_trancl)
  with step.IH show ?case by (meson trancl_trans)
qed

lemma bypass_trancl_complete:
  assumes "(a, b) \<in> E\<^sup>+" and "a \<noteq> v"
  shows "(b \<noteq> v \<longrightarrow> (a, b) \<in> (bypass E v)\<^sup>+) \<and>
         (b = v \<longrightarrow> (\<forall>c. (v, c) \<in> E \<longrightarrow> c \<noteq> v \<longrightarrow> (a, c) \<in> (bypass E v)\<^sup>+))"
  using assms
proof (induction rule: trancl_induct)
  case (base y)
  then show ?case by (auto simp: bypass_def)
next
  case (step y z)
  show ?case
  proof (cases "y = v")
    case True
    with step show ?thesis by auto
  next
    case False
    with step have ay: "(a, y) \<in> (bypass E v)\<^sup>+" by auto
    have "(y, z) \<in> bypass E v" if "z \<noteq> v"
      using that False step by (auto simp: bypass_def)
    moreover have "(y, c) \<in> bypass E v" if "z = v" "(v, c) \<in> E" "c \<noteq> v" for c
      using that False step by (auto simp: bypass_def)
    ultimately show ?thesis using ay by (meson trancl_into_trancl)
  qed
qed

theorem bypass_trancl:
  "(a, b) \<in> (bypass E v)\<^sup>+ \<longleftrightarrow> (a, b) \<in> E\<^sup>+ \<and> a \<noteq> v \<and> b \<noteq> v"
  using bypass_trancl_sound bypass_trancl_complete by metis

corollary bypass_acyclic: "acyclic E \<Longrightarrow> acyclic (bypass E v)"
  by (auto simp: acyclic_def bypass_trancl)

section \<open>The step of Kahn's algorithm\<close>

text \<open>
  One pass over the dependents of a vertex: each one's in-degree goes down by one, and a dependent
  whose in-degree reaches zero is appended to the queue. \<open>None\<close> is a panic: a dependent without an
  entry, or a subtraction below zero.
\<close>

fun relax :: "('t \<Rightarrow> 'a \<Rightarrow> nat option) \<Rightarrow> ('a \<Rightarrow> nat \<Rightarrow> 't \<Rightarrow> 't) \<Rightarrow> 'a list \<Rightarrow> 't \<Rightarrow> 'a list
    \<Rightarrow> ('t \<times> 'a list) option" where
  "relax get put [] t q = Some (t, q)"
| "relax get put (c # cs) t q =
     (case get t c of
        None \<Rightarrow> None
      | Some d \<Rightarrow>
          if d = 0 then None
          else relax get put cs (put c (d - 1) t) (if d - 1 = 0 then q @ [c] else q))"

locale degree_table =
  fixes get :: "'t \<Rightarrow> 'a \<Rightarrow> nat option"
    and put :: "'a \<Rightarrow> nat \<Rightarrow> 't \<Rightarrow> 't"
    and inv :: "'t \<Rightarrow> bool"
    and total :: "'t \<Rightarrow> nat"
  assumes inv_put: "inv t \<Longrightarrow> get t a = Some d \<Longrightarrow> inv (put a n t)"
    and get_put: "inv t \<Longrightarrow> get t a = Some d \<Longrightarrow>
          get (put a n t) b = (if b = a then Some n else get t b)"
    and total_put: "inv t \<Longrightarrow> get t a = Some d \<Longrightarrow> total (put a n t) + d = total t + n"
begin

lemma relax_total:
  "inv t \<Longrightarrow> relax get put cs t q = Some (t', q') \<Longrightarrow>
     inv t' \<and> total t' + length q' \<le> total t + length q"
proof (induction cs arbitrary: t q)
  case (Cons c cs)
  obtain d where d: "get t c = Some d" "d \<noteq> 0"
    using Cons.prems by (auto split: option.splits if_splits)
  have "total (put c (d - 1) t) + 1 = total t"
    using total_put [OF Cons.prems(1) d(1), of "d - 1"] d(2) by simp
  moreover have "inv (put c (d - 1) t)"
    using inv_put [OF Cons.prems(1) d(1)] .
  moreover have "relax get put cs (put c (d - 1) t) (if d - 1 = 0 then q @ [c] else q) = Some (t', q')"
    using Cons.prems d by simp
  ultimately show ?case
    using Cons.IH [of "put c (d - 1) t" "if d - 1 = 0 then q @ [c] else q"]
    by (auto split: if_splits)
qed simp

lemma relax_spec:
  assumes "inv t" and "\<And>c. c \<in> set cs \<Longrightarrow> \<exists>d. get t c = Some d \<and> count_list cs c \<le> d"
  shows "\<exists>t' zs. relax get put cs t q = Some (t', q @ zs) \<and> inv t' \<and> distinct zs \<and>
           (\<forall>b. get t' b = map_option (\<lambda>d. d - count_list cs b) (get t b)) \<and>
           set zs = {c \<in> set cs. get t c = Some (count_list cs c)}"
  using assms
proof (induction cs arbitrary: t q)
  case Nil
  then show ?case by (auto simp: option.map_ident)
next
  case (Cons c cs)
  obtain d where d: "get t c = Some d" "Suc (count_list cs c) \<le> d"
    using Cons.prems(2) [of c] by auto
  define t1 where "t1 = put c (d - 1) t"
  define q1 where "q1 = (if d - 1 = 0 then q @ [c] else q)"
  have inv1: "inv t1" unfolding t1_def by (rule inv_put [OF Cons.prems(1) d(1)])
  have get1: "get t1 b = (if b = c then Some (d - 1) else get t b)" for b
    unfolding t1_def by (rule get_put [OF Cons.prems(1) d(1)])
  have pre: "\<exists>e. get t1 b = Some e \<and> count_list cs b \<le> e" if "b \<in> set cs" for b
    using that d Cons.prems(2) [of b] by (auto simp: get1 split: if_splits)
  obtain t' zs where *: "relax get put cs t1 q1 = Some (t', q1 @ zs)" "inv t'" "distinct zs"
      "\<And>b. get t' b = map_option (\<lambda>d. d - count_list cs b) (get t1 b)"
      "set zs = {b \<in> set cs. get t1 b = Some (count_list cs b)}"
    using Cons.IH [OF inv1 pre, of q1] by blast
  have step: "relax get put (c # cs) t q = Some (t', q1 @ zs)"
    using d *(1) by (auto simp: t1_def q1_def)
  have zero: "d = 1 \<Longrightarrow> c \<notin> set cs"
    using d(2) by (simp add: count_list_0_iff)
  have zs: "set (if d = 1 then c # zs else zs) =
      {b \<in> set (c # cs). get t b = Some (count_list (c # cs) b)}"
    using d zero by (auto simp: *(5) get1 split: if_splits)
  have "distinct (if d = 1 then c # zs else zs)"
    using *(3) zero by (auto simp: *(5))
  moreover have "q1 @ zs = q @ (if d = 1 then c # zs else zs)"
    using d(2) by (auto simp: q1_def)
  moreover have "\<forall>b. get t' b = map_option (\<lambda>d. d - count_list (c # cs) b) (get t b)"
    using d by (auto simp: *(4) get1)
  ultimately show ?case using step *(2) zs by metis
qed

end

text \<open>
  The graph Kahn's algorithm walks is a list of edges (a repeated edge counts twice). The dependents
  of \<open>p\<close> are the heads of its edges in order; \<open>waiting E done c\<close> is how many edges into \<open>c\<close> still
  leave a vertex that has not been output.
\<close>

definition dependents :: "('a \<times> 'a) list \<Rightarrow> 'a \<Rightarrow> 'a list" where
  "dependents E p = map snd (filter (\<lambda>e. fst e = p) E)"

definition waiting :: "('a \<times> 'a) list \<Rightarrow> 'a set \<Rightarrow> 'a \<Rightarrow> nat" where
  "waiting E D c = length (filter (\<lambda>e. snd e = c \<and> fst e \<notin> D) E)"

lemma waiting_insert:
  "p \<notin> D \<Longrightarrow> waiting E (insert p D) c + count_list (dependents E p) c = waiting E D c"
  by (induction E) (auto simp: waiting_def dependents_def)

lemma waiting_zero: "waiting E D c = 0 \<longleftrightarrow> (\<forall>p. (p, c) \<in> set E \<longrightarrow> p \<in> D)"
  by (force simp: waiting_def filter_empty_conv)

lemma set_dependents: "set (dependents E p) = {c. (p, c) \<in> set E}"
  by (force simp: dependents_def)

text \<open>
  The state between two steps: \<open>out\<close> has been output, \<open>ready\<close> waits in the queue, and together they
  are exactly the vertices no edge holds back.
\<close>

definition kahn_inv :: "'a set \<Rightarrow> ('a \<times> 'a) list \<Rightarrow> ('t \<Rightarrow> 'a \<Rightarrow> nat option) \<Rightarrow> 't \<Rightarrow> 'a list \<Rightarrow> 'a list
    \<Rightarrow> bool" where
  "kahn_inv V E get t out ready \<longleftrightarrow>
     (\<forall>c. get t c = (if c \<in> V then Some (waiting E (set out) c) else None)) \<and>
     distinct (out @ ready) \<and> set (out @ ready) = {c \<in> V. waiting E (set out) c = 0} \<and>
     topo_sorted (set E) out"

lemma kahn_inv_initial:
  assumes "\<And>c. get t c = (if c \<in> V then Some (waiting E {} c) else None)"
    and "distinct ready" and "set ready = {c \<in> V. waiting E {} c = 0}"
  shows "kahn_inv V E get t [] ready"
  using assms by (simp add: kahn_inv_def)

context degree_table
begin

lemma kahn_step:
  assumes "kahn_inv V E get t out (v # rest)" and "inv t" and "set E \<subseteq> V \<times> V"
  shows "\<exists>t' zs. relax get put (dependents E v) t q = Some (t', q @ zs) \<and> inv t' \<and>
           kahn_inv V E get t' (out @ [v]) (rest @ zs)"
proof -
  have get: "get t c = (if c \<in> V then Some (waiting E (set out) c) else None)" for c
    using assms(1) by (simp add: kahn_inv_def)
  have dist: "distinct (out @ v # rest)"
    and ready: "set (out @ v # rest) = {c \<in> V. waiting E (set out) c = 0}"
    and topo: "topo_sorted (set E) out"
    using assms(1) by (simp_all add: kahn_inv_def)
  have v: "v \<notin> set out" "v \<in> V" "waiting E (set out) v = 0"
    using dist ready by auto
  note split = waiting_insert [OF v(1)]
  have pre: "\<exists>d. get t c = Some d \<and> count_list (dependents E v) c \<le> d"
    if "c \<in> set (dependents E v)" for c
    using that assms(3) split [of E c] by (auto simp: get set_dependents)
  obtain t' zs where *: "relax get put (dependents E v) t q = Some (t', q @ zs)" "inv t'" "distinct zs"
      "\<And>b. get t' b = map_option (\<lambda>d. d - count_list (dependents E v) b) (get t b)"
      "set zs = {c \<in> set (dependents E v). get t c = Some (count_list (dependents E v) c)}"
    using relax_spec [OF assms(2) pre, of q] by blast
  have get': "get t' c = (if c \<in> V then Some (waiting E (set (out @ [v])) c) else None)" for c
    using split [of E c] by (auto simp: *(4) get)
  have zs: "set zs = {c \<in> V. waiting E (set (out @ [v])) c = 0 \<and> waiting E (set out) c \<noteq> 0}"
  proof (rule set_eqI)
    fix c
    have "c \<in> set (dependents E v) \<longleftrightarrow> count_list (dependents E v) c \<noteq> 0"
      by (simp add: count_list_0_iff)
    moreover have "c \<in> set (dependents E v) \<Longrightarrow> c \<in> V"
      using assms(3) by (auto simp: set_dependents)
    ultimately show "c \<in> set zs \<longleftrightarrow> c \<in> {c \<in> V. waiting E (set (out @ [v])) c = 0 \<and> waiting E (set out) c \<noteq> 0}"
      using split [of E c] by (auto simp: *(5) get)
  qed
  have mono: "waiting E (set out) c = 0 \<Longrightarrow> waiting E (set (out @ [v])) c = 0" for c
    by (auto simp: waiting_zero)
  have "set zs \<inter> set (out @ v # rest) = {}"
    using zs ready by auto
  then have "distinct ((out @ [v]) @ (rest @ zs))"
    using dist *(3) by auto
  moreover have "set ((out @ [v]) @ (rest @ zs)) = {c \<in> V. waiting E (set (out @ [v])) c = 0}"
    using zs ready mono by auto
  moreover have "topo_sorted (set E) (out @ [v])"
  proof -
    have "(v, x) \<notin> set E" if "x \<in> insert v (set out)" for x
      using that v ready waiting_zero [of E "set out" x] by auto
    with topo show ?thesis by (simp add: topo_sorted_snoc)
  qed
  ultimately have "kahn_inv V E get t' (out @ [v]) (rest @ zs)"
    by (simp add: kahn_inv_def get' del: set_append)
  with * show ?thesis by blast
qed

end

text \<open>When nothing is ready any more, either everything has been output or the graph has a cycle.\<close>

lemma kahn_done:
  assumes "kahn_inv V E get t out []" and "finite V" and "set E \<subseteq> V \<times> V"
  shows "distinct out" and "set out \<subseteq> V" and "topo_sorted (set E) out"
    and "set out = V \<longleftrightarrow> acyclic (set E)"
proof -
  have out: "set out = {c \<in> V. waiting E (set out) c = 0}"
    using assms(1) by (simp add: kahn_inv_def)
  show "distinct out" "set out \<subseteq> V" "topo_sorted (set E) out"
    using assms(1) out by (auto simp: kahn_inv_def)
  show "set out = V \<longleftrightarrow> acyclic (set E)"
  proof
    assume "set out = V"
    with assms(3) \<open>topo_sorted (set E) out\<close> show "acyclic (set E)"
      by (intro topo_sorted_acyclic) auto
  next
    assume acyc: "acyclic (set E)"
    have "\<exists>y\<in>V - set out. (y, x) \<in> set E" if "x \<in> V - set out" for x
      using that out waiting_zero [of E "set out" x] assms(3) by auto
    then have "V - set out = {}"
      using stuck_not_acyclic [of "V - set out" "set E"] acyc assms(2) by blast
    with \<open>set out \<subseteq> V\<close> show "set out = V" by blast
  qed
qed

end
