(* ===== verification/Pr_Stack.thy ===== *)
theory Pr_Stack
  imports Changeset Dag
begin

text \<open>
  The PR-stack DAG of an orchestrator session (\<open>tddy-changeset\<close>, \<open>changeset/stack.rs\<close>): lookup, the
  Kahn sort \<open>topo_order\<close>, the reading order \<open>display_order\<close>, the base ref a node's branch is created
  from, and the functions that read and rewrite the stack inside the session manifest.

  \<open>topo_order_iff\<close> decides when the sort succeeds: exactly on stacks whose node ids are distinct and
  whose parent relation is acyclic; it then returns every node once, parents first.
\<close>

section \<open>Nodes and lookup\<close>

definition is_skipped :: "stack_node \<Rightarrow> bool" where
  "is_skipped n = (case pr_status n of None \<Rightarrow> False | Some s \<Rightarrow> phase s = ''merged'')"

definition node :: "stack \<Rightarrow> string \<Rightarrow> stack_node option" where
  "node s nid = List.find (\<lambda>n. node_id n = nid) (nodes s)"

abbreviation node_ids :: "stack \<Rightarrow> string list" where
  "node_ids s \<equiv> map node_id (nodes s)"

lemma node_SomeD: "node s i = Some n \<Longrightarrow> n \<in> set (nodes s) \<and> node_id n = i"
  unfolding node_def by (drule find_SomeD) auto

lemma node_None: "node s i = None \<longleftrightarrow> i \<notin> set (node_ids s)"
  by (auto simp: node_def find_None_iff)

lemma node_distinct: "distinct (node_ids s) \<Longrightarrow> n \<in> set (nodes s) \<Longrightarrow> node s (node_id n) = Some n"
  unfolding node_def by (rule find_distinct)

section \<open>The topological order\<close>

text \<open>\<open>entry(k).or_insert(d)\<close> and \<open>entry(k).or_default()\<close>: the value there, or the default.\<close>

definition entry_or :: "'v \<Rightarrow> ('k \<times> 'v) list \<Rightarrow> 'k \<Rightarrow> 'v" where
  "entry_or d m k = (case map_of m k of None \<Rightarrow> d | Some v \<Rightarrow> v)"

text \<open>\<open>*get_mut(k) = v\<close> on a key the map holds.\<close>

definition bt_set :: "'k \<Rightarrow> 'v \<Rightarrow> ('k \<times> 'v) list \<Rightarrow> ('k \<times> 'v) list" where
  "bt_set k v m = update_first (\<lambda>e. fst e = k) (\<lambda>e. (k, v)) m"

text \<open>The first loop: in-degrees over the parents that are nodes, and the dependents of each parent.\<close>

fun scan_parents :: "string set \<Rightarrow> string \<Rightarrow> string list
    \<Rightarrow> (string \<times> nat) list \<times> (string \<times> string list) list
    \<Rightarrow> (string \<times> nat) list \<times> (string \<times> string list) list" where
  "scan_parents known i [] acc = acc"
| "scan_parents known i (p # ps) (deg, children) =
     scan_parents known i ps
       (if p \<in> known
        then (bt_insert i (entry_or 0 deg i + 1) deg,
              bt_insert p (entry_or [] children p @ [i]) children)
        else (deg, children))"

fun scan_nodes :: "string set \<Rightarrow> stack_node list
    \<Rightarrow> (string \<times> nat) list \<times> (string \<times> string list) list
    \<Rightarrow> (string \<times> nat) list \<times> (string \<times> string list) list" where
  "scan_nodes known [] acc = acc"
| "scan_nodes known (n # ns) (deg, children) =
     scan_nodes known ns
       (scan_parents known (node_id n) (parents n)
          (bt_insert (node_id n) (entry_or 0 deg (node_id n)) deg, children))"

lemma map_of_bt_set:
  "map_of m k = Some d \<Longrightarrow> map_of (bt_set k v m) x = (if x = k then Some v else map_of m x)"
  unfolding bt_set_def by (induction m) auto

lemma total_bt_set:
  "map_of m k = Some d \<Longrightarrow> sum_list (map snd (bt_set k (n::nat) m)) + d = sum_list (map snd m) + n"
  unfolding bt_set_def by (induction m) (auto split: if_splits)

interpretation stack_degrees: degree_table map_of bt_set "\<lambda>_. True" "\<lambda>m. sum_list (map snd m)"
  by unfold_locales (auto simp: map_of_bt_set total_bt_set)

text \<open>The second loop: pop a node, output it, release its dependents.\<close>

function kahn_loop :: "(string \<times> string list) list \<Rightarrow> (string \<times> nat) list \<Rightarrow> string list \<Rightarrow> string list
    \<Rightarrow> string list option" where
  "kahn_loop children deg [] order = Some order"
| "kahn_loop children deg (i # queue) order =
     (case relax map_of bt_set (entry_or [] children i) deg queue of
        None \<Rightarrow> None
      | Some (deg', queue') \<Rightarrow> kahn_loop children deg' queue' (order @ [i]))"
  by pat_completeness auto
termination
  by (relation "measure (\<lambda>(children, deg, queue, order). length queue + sum_list (map snd deg))")
    (auto dest!: stack_degrees.relax_total [OF TrueI])

definition topo_order :: "stack \<Rightarrow> workflow_error + string list" where
  "topo_order s =
     (let known = set (node_ids s);
          (deg, children) = scan_nodes known (nodes s) ([], []);
          queue = map fst (filter (\<lambda>(_, d). d = 0) deg)
      in case kahn_loop children deg queue [] of
           None \<Rightarrow> Inl (Panic ''child has in-degree entry'')
         | Some order \<Rightarrow>
             if length order \<noteq> length (nodes s)
             then Inl (ChangesetInvalid (''cycle detected in PR-stack DAG: only '' @
                         show_nat (length order) @ '' of '' @ show_nat (length (nodes s)) @
                         '' nodes orderable''))
             else Inr order)"

text \<open>The edges the two loops see: one per listed parent that is a node of the stack.\<close>

definition edges_of :: "string set \<Rightarrow> stack_node list \<Rightarrow> (string \<times> string) list" where
  "edges_of known ns = concat (map (\<lambda>n. map (\<lambda>p. (p, node_id n)) (filter (\<lambda>p. p \<in> known) (parents n))) ns)"

definition parent_rel :: "stack \<Rightarrow> (string \<times> string) set" where
  "parent_rel s = {(p, node_id n) | p n. n \<in> set (nodes s) \<and> p \<in> set (parents n) \<and> p \<in> set (node_ids s)}"

lemma set_edges_of: "set (edges_of (set (node_ids s)) (nodes s)) = parent_rel s"
  by (auto simp: edges_of_def parent_rel_def)

lemma parent_rel_ids: "parent_rel s \<subseteq> set (node_ids s) \<times> set (node_ids s)"
  by (auto simp: parent_rel_def)

definition scan_inv :: "(string \<times> string) list \<Rightarrow> string set
    \<Rightarrow> (string \<times> nat) list \<times> (string \<times> string list) list \<Rightarrow> bool" where
  "scan_inv E I acc \<longleftrightarrow>
     bt_inv (fst acc) \<and> bt_inv (snd acc) \<and>
     (\<forall>c. map_of (fst acc) c = (if c \<in> I then Some (waiting E {} c) else None)) \<and>
     (\<forall>p. entry_or [] (snd acc) p = dependents E p)"

lemma waiting_append: "waiting (E @ F) D c = waiting E D c + waiting F D c"
  by (simp add: waiting_def)

lemma dependents_append: "dependents (E @ F) p = dependents E p @ dependents F p"
  by (simp add: dependents_def)

lemma scan_inv_edge:
  assumes "scan_inv E I (deg, children)" and "i \<in> I"
  shows "scan_inv (E @ [(p, i)]) I
     (bt_insert i (entry_or 0 deg i + 1) deg, bt_insert p (entry_or [] children p @ [i]) children)"
  using assms
  by (auto simp: scan_inv_def btree_simps entry_or_def waiting_append dependents_append)
     (auto simp: waiting_def dependents_def split: option.splits)

lemma scan_parents_inv:
  assumes "scan_inv E I acc" and "i \<in> I"
  shows "scan_inv (E @ map (\<lambda>p. (p, i)) (filter (\<lambda>p. p \<in> known) ps)) I (scan_parents known i ps acc)"
  using assms(1)
proof (induction ps arbitrary: E acc)
  case (Cons p ps)
  obtain deg children where acc: "acc = (deg, children)" by (cases acc)
  show ?case
  proof (cases "p \<in> known")
    case True
    from Cons.IH [OF scan_inv_edge [OF Cons.prems [unfolded acc] assms(2), of p]] True
    show ?thesis by (simp add: acc)
  next
    case False
    with Cons show ?thesis by (simp add: acc)
  qed
qed simp

lemma scan_inv_node:
  assumes "scan_inv E I (deg, children)" and "\<And>p c. (p, c) \<in> set E \<Longrightarrow> c \<in> I"
  shows "scan_inv E (insert i I) (bt_insert i (entry_or 0 deg i) deg, children)"
proof -
  have "waiting E {} i = 0" if "i \<notin> I"
    using assms(2) that by (auto simp: waiting_zero)
  with assms(1) show ?thesis
    by (auto simp: scan_inv_def btree_simps entry_or_def split: option.splits)
qed

lemma scan_nodes_inv:
  assumes "scan_inv E I acc" and "\<And>p c. (p, c) \<in> set E \<Longrightarrow> c \<in> I"
  shows "scan_inv (E @ edges_of known ns) (I \<union> set (map node_id ns)) (scan_nodes known ns acc)"
  using assms
proof (induction ns arbitrary: E I acc)
  case (Cons n ns)
  obtain deg children where acc: "acc = (deg, children)" by (cases acc)
  define F where "F = map (\<lambda>p. (p, node_id n)) (filter (\<lambda>p. p \<in> known) (parents n))"
  have "scan_inv E (insert (node_id n) I) (bt_insert (node_id n) (entry_or 0 deg (node_id n)) deg, children)"
    using Cons.prems unfolding acc by (rule scan_inv_node)
  then have "scan_inv (E @ F) (insert (node_id n) I)
      (scan_parents known (node_id n) (parents n)
         (bt_insert (node_id n) (entry_or 0 deg (node_id n)) deg, children))"
    unfolding F_def by (rule scan_parents_inv) simp
  from Cons.IH [OF this] Cons.prems(2)
  have "scan_inv ((E @ F) @ edges_of known ns) (insert (node_id n) I \<union> set (map node_id ns))
      (scan_nodes known (n # ns) acc)"
    by (auto simp: acc F_def)
  then show ?case by (simp add: edges_of_def F_def)
qed (simp add: edges_of_def)

lemma scan_nodes_closed:
  assumes "scan_nodes known ns ([], []) = (deg, children)"
  shows "bt_inv deg"
    and "map_of deg c = (if c \<in> set (map node_id ns) then Some (waiting (edges_of known ns) {} c) else None)"
    and "entry_or [] children p = dependents (edges_of known ns) p"
proof -
  have "scan_inv [] {} ([], [])"
    by (simp add: scan_inv_def bt_inv_Nil entry_or_def dependents_def)
  from scan_nodes_inv [OF this, of known ns] assms
  have "scan_inv (edges_of known ns) (set (map node_id ns)) (deg, children)" by simp
  then show "bt_inv deg"
    and "map_of deg c = (if c \<in> set (map node_id ns) then Some (waiting (edges_of known ns) {} c) else None)"
    and "entry_or [] children p = dependents (edges_of known ns) p"
    by (simp_all add: scan_inv_def)
qed

lemma kahn_loop_inv:
  assumes "kahn_inv V E map_of deg out queue" and "set E \<subseteq> V \<times> V"
    and "\<And>p. entry_or [] children p = dependents E p"
  shows "\<exists>deg' order. kahn_loop children deg queue out = Some order \<and> kahn_inv V E map_of deg' order []"
  using assms(1,3)
proof (induction children deg queue out rule: kahn_loop.induct)
  case (1 children deg order)
  then show ?case by auto
next
  case (2 children deg i queue order)
  obtain deg' zs where *: "relax map_of bt_set (dependents E i) deg queue = Some (deg', queue @ zs)"
      "kahn_inv V E map_of deg' (order @ [i]) (queue @ zs)"
    using stack_degrees.kahn_step [OF 2(2) TrueI assms(2), of queue] by blast
  from 2(1) [OF _ _ *(2) 2(3)] * 2(3) show ?case by simp
qed

text \<open>
  The whole sort: it never panics, it outputs distinct node ids in an order that puts every parent
  first, and it outputs all of them exactly when the parent relation is acyclic.
\<close>

lemma topo_order_run:
  obtains order where "distinct order" and "set order \<subseteq> set (node_ids s)"
    and "topo_sorted (parent_rel s) order"
    and "set order = set (node_ids s) \<longleftrightarrow> acyclic (parent_rel s)"
    and "length order = length (nodes s) \<Longrightarrow> topo_order s = Inr order"
    and "length order \<noteq> length (nodes s) \<Longrightarrow> \<exists>m. topo_order s = Inl (ChangesetInvalid m)"
proof -
  define E where "E = edges_of (set (node_ids s)) (nodes s)"
  obtain deg children where scan: "scan_nodes (set (node_ids s)) (nodes s) ([], []) = (deg, children)"
    by (cases "scan_nodes (set (node_ids s)) (nodes s) ([], [])")
  note closed = scan_nodes_closed [OF scan, folded E_def]
  define queue where "queue = map fst (filter (\<lambda>(_, d). d = 0) deg)"
  have dist: "distinct (map fst deg)"
    using bt_keys_sorted [OF closed(1)] by simp
  have "set queue = {c. map_of deg c = Some 0}"
    using dist by (force simp: queue_def map_of_eq_Some_iff)
  then have queue_set: "set queue = {c \<in> set (node_ids s). waiting E {} c = 0}"
    by (auto simp: closed(2) split: if_splits)
  have "distinct queue"
    using dist unfolding queue_def by (rule distinct_map_filter)
  then have init: "kahn_inv (set (node_ids s)) E map_of deg [] queue"
    using closed(2) queue_set by (intro kahn_inv_initial) simp_all
  have sub: "set E \<subseteq> set (node_ids s) \<times> set (node_ids s)"
    unfolding E_def set_edges_of by (rule parent_rel_ids)
  obtain deg' order where run: "kahn_loop children deg queue [] = Some order"
      and inv: "kahn_inv (set (node_ids s)) E map_of deg' order []"
    using kahn_loop_inv [OF init sub closed(3)] by blast
  note fin = kahn_done [OF inv finite_set sub]
  have E: "set E = parent_rel s" unfolding E_def by (rule set_edges_of)
  show thesis
  proof (rule that [of order])
    show "distinct order" "set order \<subseteq> set (node_ids s)" "topo_sorted (parent_rel s) order"
      "set order = set (node_ids s) \<longleftrightarrow> acyclic (parent_rel s)"
      using fin unfolding E by auto
    show "length order = length (nodes s) \<Longrightarrow> topo_order s = Inr order"
      using run unfolding topo_order_def Let_def scan queue_def by simp
    show "length order \<noteq> length (nodes s) \<Longrightarrow> \<exists>m. topo_order s = Inl (ChangesetInvalid m)"
      using run unfolding topo_order_def Let_def scan queue_def by simp
  qed
qed

lemma topo_order_Inr:
  assumes "topo_order s = Inr order"
  shows "distinct order" and "set order = set (node_ids s)" and "distinct (node_ids s)"
    and "topo_sorted (parent_rel s) order" and "acyclic (parent_rel s)"
proof -
  obtain o' where o': "distinct o'" "set o' \<subseteq> set (node_ids s)" "topo_sorted (parent_rel s) o'"
      "set o' = set (node_ids s) \<longleftrightarrow> acyclic (parent_rel s)"
      "length o' = length (nodes s) \<Longrightarrow> topo_order s = Inr o'"
      "length o' \<noteq> length (nodes s) \<Longrightarrow> \<exists>m. topo_order s = Inl (ChangesetInvalid m)"
    by (rule topo_order_run [of s]) blast
  with assms have eq: "o' = order" and len: "length order = length (node_ids s)" by fastforce+
  have "card (set (node_ids s)) \<le> length order"
    using card_length [of "node_ids s"] len by simp
  moreover have "card (set order) = length order"
    using o'(1) eq distinct_card by blast
  ultimately have "set order = set (node_ids s)"
    using o'(2) eq by (metis List.finite_set card_seteq)
  then show "set order = set (node_ids s)" "distinct (node_ids s)"
    using \<open>card (set order) = length order\<close> len by (simp_all add: card_distinct)
  then show "distinct order" "topo_sorted (parent_rel s) order" "acyclic (parent_rel s)"
    using o' eq by auto
qed

lemma topo_order_iff:
  "(\<exists>order. topo_order s = Inr order) \<longleftrightarrow> distinct (node_ids s) \<and> acyclic (parent_rel s)"
proof
  assume "\<exists>order. topo_order s = Inr order"
  then show "distinct (node_ids s) \<and> acyclic (parent_rel s)"
    using topo_order_Inr by blast
next
  assume *: "distinct (node_ids s) \<and> acyclic (parent_rel s)"
  obtain o' where o': "distinct o'" "set o' = set (node_ids s) \<longleftrightarrow> acyclic (parent_rel s)"
      "length o' = length (nodes s) \<Longrightarrow> topo_order s = Inr o'"
    by (rule topo_order_run [of s]) blast
  with * have "length o' = length (node_ids s)"
    by (metis distinct_card)
  with o' show "\<exists>order. topo_order s = Inr order" by simp
qed

lemma topo_order_no_panic: "topo_order s \<noteq> Inl (Panic m)"
proof (rule topo_order_run [of s])
  fix order assume "length order = length (nodes s) \<Longrightarrow> topo_order s = Inr order"
    and "length order \<noteq> length (nodes s) \<Longrightarrow> \<exists>m. topo_order s = Inl (ChangesetInvalid m)"
  then show ?thesis by (cases "length order = length (nodes s)") auto
qed

section \<open>The reading order\<close>

definition bt_of_list :: "('k::linorder \<times> 'v) list \<Rightarrow> ('k \<times> 'v) list" where
  "bt_of_list xs = fold (\<lambda>(k, v) m. bt_insert k v m) xs []"

definition declaration_index_of :: "stack \<Rightarrow> string \<Rightarrow> nat" where
  "declaration_index_of s nid =
     (case position (\<lambda>n. node_id n = nid) (nodes s) of Some i \<Rightarrow> i | None \<Rightarrow> 2 ^ 64 - 1)"

definition display_key :: "stack \<Rightarrow> (string \<times> nat) list \<Rightarrow> stack_node \<Rightarrow> u32 \<times> nat \<times> string" where
  "display_key s topo_index n =
     (case display_order n of Some d \<Rightarrow> d | None \<Rightarrow> - 1,
      case map_of topo_index (node_id n) of
        Some i \<Rightarrow> i
      | None \<Rightarrow> declaration_index_of s (node_id n),
      node_id n)"

definition stack_display_order :: "stack \<Rightarrow> string list" where
  "stack_display_order s =
     (let topo_index = (case topo_order s of
                          Inr order \<Rightarrow> bt_of_list (zip order [0..<length order])
                        | Inl _ \<Rightarrow> [])
      in map node_id (sort_key (display_key s topo_index) (nodes s)))"

lemma fold_bt_insert:
  assumes "bt_inv m" and "distinct (map fst xs)"
  shows "map_of (fold (\<lambda>(k, v) m. bt_insert k v m) xs m) x =
           (case map_of xs x of Some v \<Rightarrow> Some v | None \<Rightarrow> map_of m x)"
  using assms
proof (induction xs arbitrary: m)
  case (Cons e xs)
  obtain k v where e: "e = (k, v)" by (cases e)
  have "map_of xs k = None" using Cons.prems(2) by (simp add: e map_of_eq_None_iff)
  with Cons show ?case by (auto simp: e btree_simps split: option.splits)
qed simp

lemma map_of_bt_of_list: "distinct (map fst xs) \<Longrightarrow> map_of (bt_of_list xs) x = map_of xs x"
  by (simp add: bt_of_list_def fold_bt_insert bt_inv_Nil split: option.splits)

lemma display_key_inj:
  assumes "distinct (node_ids s)"
  shows "inj_on (display_key s m) (set (nodes s))"
  using assms by (auto simp: inj_on_def display_key_def distinct_map)

lemma map_of_zip_upt:
  assumes "distinct xs" and "i < length xs"
  shows "map_of (zip xs [0..<length xs]) (xs ! i) = Some i"
  using assms by (subst map_of_zip_nth) auto

text \<open>A stack that carries no numbers reads in topological order.\<close>

lemma display_order_unnumbered:
  assumes "topo_order s = Inr order" and "\<And>n. n \<in> set (nodes s) \<Longrightarrow> display_order n = None"
  shows "stack_display_order s = order"
proof -
  note topo = topo_order_Inr [OF assms(1)]
  define m where "m = bt_of_list (zip order [0..<length order])"
  define ns where "ns = map (\<lambda>i. the (node s i)) order"
  have at: "node s i = Some n \<Longrightarrow> n \<in> set (nodes s) \<and> node_id n = i" for i n
    by (rule node_SomeD)
  have ex: "\<exists>n. node s i = Some n" if "i \<in> set order" for i
    using that topo(2) node_None [of s i] by (cases "node s i") auto
  have id_ns: "map node_id ns = order"
    unfolding ns_def using ex at by (force intro!: map_idI simp: comp_def)
  have "set ns = set (nodes s)"
  proof
    show "set ns \<subseteq> set (nodes s)"
      using ex at by (force simp: ns_def)
    show "set (nodes s) \<subseteq> set ns"
    proof
      fix n assume "n \<in> set (nodes s)"
      then have "node s (node_id n) = Some n" and "node_id n \<in> set order"
        using node_distinct [OF topo(3)] topo(2) by auto
      then show "n \<in> set ns" by (force simp: ns_def)
    qed
  qed
  moreover have "distinct ns"
    using id_ns topo(1) by (metis distinct_map)
  moreover have "distinct (nodes s)"
    using topo(3) by (simp add: distinct_map)
  ultimately have "mset (nodes s) = mset ns"
    by (simp add: set_eq_iff_mset_eq_distinct)
  moreover have "sorted (map (display_key s m) ns)"
  proof -
    have key: "display_key s m (ns ! i) = (- 1, i, order ! i)" if "i < length order" for i
    proof -
      have "ns ! i \<in> set (nodes s)"
        using that \<open>set ns = set (nodes s)\<close> by (metis id_ns length_map nth_mem)
      moreover have "node_id (ns ! i) = order ! i"
        using that id_ns by (metis length_map nth_map)
      ultimately show ?thesis
        using that topo(1) assms(2)
        by (simp add: display_key_def m_def map_of_bt_of_list map_of_zip_upt)
    qed
    have "length ns = length order" using id_ns by (metis length_map)
    then show ?thesis
      using key by (auto simp: sorted_iff_nth_mono_less less_eq_prod_def)
  qed
  ultimately have "sort_key (display_key s m) (nodes s) = ns"
    using display_key_inj [OF topo(3)] by (intro sort_key_inj_key_eq) auto
  then show ?thesis
    by (simp add: stack_display_order_def assms(1) m_def [symmetric] id_ns)
qed

text \<open>A fully numbered stack reads in the order of its numbers.\<close>

lemma display_order_numbered:
  assumes "distinct (node_ids s)" and "\<And>n. n \<in> set (nodes s) \<Longrightarrow> display_order n \<noteq> None"
    and "distinct (map display_order (nodes s))"
  shows "stack_display_order s = map node_id (sort_key (\<lambda>n. the (display_order n)) (nodes s))"
proof -
  have sorted: "sort_key (display_key s m) (nodes s) = sort_key (\<lambda>n. the (display_order n)) (nodes s)" for m
  proof (rule sort_key_inj_key_eq)
    show "mset (nodes s) = mset (sort_key (\<lambda>n. the (display_order n)) (nodes s))" by simp
    show "inj_on (display_key s m) (set (nodes s))" by (rule display_key_inj [OF assms(1)])
    let ?ns = "sort_key (\<lambda>n. the (display_order n)) (nodes s)"
    have srt: "sorted (map (\<lambda>n. the (display_order n)) ?ns)" by simp
    have inj: "inj_on display_order (set (nodes s))"
      using assms(3) by (simp add: distinct_map)
    show "sorted (map (display_key s m) ?ns)"
      unfolding sorted_iff_nth_mono_less
    proof (intro allI impI)
      fix i j assume ij: "i < j" "j < length (map (display_key s m) ?ns)"
      then have "i < length ?ns" "j < length ?ns" by simp_all
      then have mem: "?ns ! i \<in> set (nodes s)" "?ns ! j \<in> set (nodes s)"
        using nth_mem [of i ?ns] nth_mem [of j ?ns] by (simp_all del: nth_mem)
      have "distinct ?ns" using assms(1) by (simp add: distinct_map)
      then have "?ns ! i \<noteq> ?ns ! j"
        using ij by (simp add: nth_eq_iff_index_eq)
      then have "display_order (?ns ! i) \<noteq> display_order (?ns ! j)"
        using inj mem by (auto simp: inj_on_def)
      moreover have "the (display_order (?ns ! i)) \<le> the (display_order (?ns ! j))"
        using srt ij by (auto simp: sorted_iff_nth_mono_less)
      ultimately have "the (display_order (?ns ! i)) < the (display_order (?ns ! j))"
        using assms(2) [OF mem(1)] assms(2) [OF mem(2)] by (auto simp: order.strict_iff_order)
      then show "map (display_key s m) ?ns ! i \<le> map (display_key s m) ?ns ! j"
        using ij assms(2) [OF mem(1)] assms(2) [OF mem(2)]
        by (auto simp: display_key_def less_eq_prod_def)
    qed
  qed
  then show ?thesis by (simp add: stack_display_order_def)
qed

lemma mset_display_order: "mset (stack_display_order s) = mset (node_ids s)"
  by (simp add: stack_display_order_def Let_def)

section \<open>Properties\<close>

text \<open>A diamond, declared child first, on which the properties are exercised.\<close>

definition sample_node :: "string \<Rightarrow> string list \<Rightarrow> stack_node" where
  "sample_node i ps =
     \<lparr>node_id = i, title = ''t'', description = [], branch_suggestion = None, branch = None, session_id = None,
      parents = ps, pr_status = None, child_state = None, internal_status = None, display_order = None\<rparr>"

definition diamond :: stack where
  "diamond = \<lparr>version = 1, nodes = [sample_node ''n4'' [''n2'', ''n3''], sample_node ''n2'' [''n1''],
      sample_node ''n3'' [''n1''], sample_node ''n1'' []]\<rparr>"

lemma topo_order_diamond: "topo_order diamond = Inr [''n1'', ''n2'', ''n3'', ''n4'']"
  by code_simp

text \<open>
  C1. \<open>topo_order\<close> decides whether the stack can be ordered: it answers an order exactly when the node
  ids are distinct and the parent relation is acyclic, the order then lists every node once with each
  parent before its children, and otherwise it answers the invalid-changeset error; the panic on a
  missing in-degree entry is never reached.
\<close>

theorem topo_order_decides:
  "case topo_order s of
     Inr order \<Rightarrow> distinct (node_ids s) \<and> acyclic (parent_rel s) \<and> distinct order \<and>
       set order = set (node_ids s) \<and> topo_sorted (parent_rel s) order
   | Inl e \<Rightarrow> (\<exists>m. e = ChangesetInvalid m) \<and> \<not> (distinct (node_ids s) \<and> acyclic (parent_rel s))"
proof (cases "topo_order s")
  case (Inr order)
  then show ?thesis using topo_order_Inr [OF Inr] by simp
next
  case (Inl e)
  then have "\<not> (distinct (node_ids s) \<and> acyclic (parent_rel s))"
    using topo_order_iff [of s] by simp
  moreover have "\<exists>m. e = ChangesetInvalid m"
    by (rule topo_order_run [of s]) (use Inl in fastforce)
  ultimately show ?thesis using Inl by simp
qed

text \<open>
  The reading order lists exactly the nodes of the stack, and on a stack without numbers it is the
  topological order.
\<close>

theorem display_order_default:
  "mset (stack_display_order s) = mset (node_ids s) \<and>
   (\<forall>order. topo_order s = Inr order \<and> list_all (\<lambda>n. display_order n = None) (nodes s) \<longrightarrow>
      stack_display_order s = order)"
  using mset_display_order display_order_unnumbered by (auto simp: list_all_iff)

theorem display_order_default_witness:
  "stack_display_order diamond = [''n1'', ''n2'', ''n3'', ''n4'']"
proof -
  have "list_all (\<lambda>n. display_order n = None) (nodes diamond)"
    by (simp add: diamond_def sample_node_def)
  then show ?thesis using display_order_default [of diamond] topo_order_diamond by blast
qed

end
