(* ===== verification/Rust_Str.thy ===== *)
theory Rust_Str
  imports Prelude
begin

text \<open>
  The string operations of the Rust standard library that the modelled code uses, on the UTF-8 bytes
  of a string: \<open>trim\<close>, \<open>strip_prefix\<close>, \<open>split\<close>, \<open>split_once\<close>, \<open>lines\<close>, \<open>join\<close>, \<open>contains\<close>, \<open>replace\<close>
  and the byte classes. The encodings of the characters with the Unicode property \<open>White_Space\<close> are
  listed, so that \<open>trim\<close> and \<open>is_whitespace\<close> agree with Rust beyond ASCII.
\<close>

section \<open>White space\<close>

definition white_space :: "string list" where
  "white_space =
     [[CHR 0x09], [CHR 0x0A], [CHR 0x0B], [CHR 0x0C], [CHR 0x0D], [CHR 0x20],
      [CHR 0xC2, CHR 0x85], [CHR 0xC2, CHR 0xA0], [CHR 0xE1, CHR 0x9A, CHR 0x80],
      [CHR 0xE2, CHR 0x80, CHR 0x80], [CHR 0xE2, CHR 0x80, CHR 0x81], [CHR 0xE2, CHR 0x80, CHR 0x82],
      [CHR 0xE2, CHR 0x80, CHR 0x83], [CHR 0xE2, CHR 0x80, CHR 0x84], [CHR 0xE2, CHR 0x80, CHR 0x85],
      [CHR 0xE2, CHR 0x80, CHR 0x86], [CHR 0xE2, CHR 0x80, CHR 0x87], [CHR 0xE2, CHR 0x80, CHR 0x88],
      [CHR 0xE2, CHR 0x80, CHR 0x89], [CHR 0xE2, CHR 0x80, CHR 0x8A], [CHR 0xE2, CHR 0x80, CHR 0xA8],
      [CHR 0xE2, CHR 0x80, CHR 0xA9], [CHR 0xE2, CHR 0x80, CHR 0xAF], [CHR 0xE2, CHR 0x81, CHR 0x9F],
      [CHR 0xE3, CHR 0x80, CHR 0x80]]"

fun strip_prefix :: "string \<Rightarrow> string \<Rightarrow> string option" where
  "strip_prefix [] s = Some s"
| "strip_prefix (p # ps) [] = None"
| "strip_prefix (p # ps) (c # cs) = (if p = c then strip_prefix ps cs else None)"

lemma strip_prefix_iff: "strip_prefix p s = Some r \<longleftrightarrow> s = p @ r"
  by (induction p s rule: strip_prefix.induct) auto

lemma strip_prefix_append [simp]: "strip_prefix p (p @ r) = Some r"
  by (simp add: strip_prefix_iff)

definition starts_with :: "string \<Rightarrow> string \<Rightarrow> bool" where
  "starts_with p s \<longleftrightarrow> strip_prefix p s \<noteq> None"

lemma starts_with_iff: "starts_with p s \<longleftrightarrow> (\<exists>r. s = p @ r)"
  by (cases "strip_prefix p s") (auto simp: starts_with_def strip_prefix_iff)

text \<open>One leading character of a class given by its encodings.\<close>

definition leading :: "string list \<Rightarrow> string \<Rightarrow> string option" where
  "leading ws s = (case List.map_filter (\<lambda>w. strip_prefix w s) ws of [] \<Rightarrow> None | r # _ \<Rightarrow> Some r)"

lemma leading_Some:
  assumes "leading ws s = Some r"
  shows "\<exists>w\<in>set ws. s = w @ r"
proof -
  have "r \<in> set (List.map_filter (\<lambda>w. strip_prefix w s) ws)"
    using assms by (auto simp: leading_def split: list.splits)
  then show ?thesis by (auto simp: List.map_filter_def strip_prefix_iff)
qed

lemma leading_None: "leading ws s = None \<longleftrightarrow> (\<forall>w\<in>set ws. \<not> starts_with w s)"
  by (induction ws) (auto simp: leading_def map_filter_simps starts_with_def split: option.splits list.splits)

function trim_start_of :: "string list \<Rightarrow> string \<Rightarrow> string" where
  "trim_start_of ws s =
     (case leading ws s of
        None \<Rightarrow> s
      | Some r \<Rightarrow> if length r < length s then trim_start_of ws r else s)"
  by pat_completeness auto
termination
  by (relation "measure (\<lambda>(ws, s). length s)") auto

declare trim_start_of.simps [simp del]

definition trim_start :: "string \<Rightarrow> string" where
  "trim_start s = trim_start_of white_space s"

definition trim_end :: "string \<Rightarrow> string" where
  "trim_end s = rev (trim_start_of (map rev white_space) (rev s))"

definition trim :: "string \<Rightarrow> string" where
  "trim s = trim_end (trim_start s)"

lemma trim_start_suffix: "\<exists>p. s = p @ trim_start_of ws s"
proof (induction ws s rule: trim_start_of.induct)
  case (1 ws s)
  show ?case
  proof (cases "leading ws s")
    case (Some r)
    then obtain w where "s = w @ r" using leading_Some by blast
    moreover have "\<exists>p. r = p @ trim_start_of ws r" if "length r < length s" using 1 Some that by blast
    then have "\<exists>p. w @ r = p @ trim_start_of ws r" if "length r < length s"
      using that by (metis append_assoc)
    ultimately show ?thesis
      using Some by (subst trim_start_of.simps) auto
  qed (simp add: trim_start_of.simps)
qed

lemma trim_start_of_done:
  assumes "\<And>w. w \<in> set ws \<Longrightarrow> w \<noteq> []" and "w \<in> set ws"
  shows "\<not> starts_with w (trim_start_of ws s)"
  using assms
proof (induction ws s rule: trim_start_of.induct)
  case (1 ws s)
  show ?case
  proof (cases "leading ws s")
    case None
    then show ?thesis using "1.prems" by (subst trim_start_of.simps) (simp add: leading_None [THEN iffD1])
  next
    case (Some r)
    then obtain v where "v \<in> set ws" "s = v @ r" using leading_Some by blast
    then have "length r < length s" using "1.prems" by auto
    then show ?thesis using 1 Some by (subst trim_start_of.simps) simp
  qed
qed

lemma trim_parts: "\<exists>a b. s = a @ trim s @ b"
proof -
  obtain a where a: "s = a @ trim_start s" using trim_start_suffix unfolding trim_start_def by blast
  obtain p where "rev (trim_start s) = p @ trim_start_of (map rev white_space) (rev (trim_start s))"
    using trim_start_suffix by blast
  then have "rev (rev (trim_start s)) = trim_end (trim_start s) @ rev p"
    unfolding trim_end_def by (metis rev_append)
  with a have "s = a @ trim s @ rev p" by (simp add: trim_def)
  then show ?thesis by blast
qed

section \<open>Searching and splitting\<close>

fun contains :: "string \<Rightarrow> string \<Rightarrow> bool" where
  "contains p [] = (p = [])"
| "contains p (c # cs) = (starts_with p (c # cs) \<or> contains p cs)"

lemma contains_iff: "contains p s \<longleftrightarrow> (\<exists>a b. s = a @ p @ b)"
proof (induction s)
  case (Cons c cs)
  have "(\<exists>a b. c # cs = a @ p @ b) \<longleftrightarrow> (\<exists>b. c # cs = p @ b) \<or> (\<exists>a b. cs = a @ p @ b)"
  proof
    assume "\<exists>a b. c # cs = a @ p @ b"
    then obtain a b where ab: "c # cs = a @ p @ b" by blast
    then show "(\<exists>b. c # cs = p @ b) \<or> (\<exists>a b. cs = a @ p @ b)" by (cases a) auto
  next
    assume "(\<exists>b. c # cs = p @ b) \<or> (\<exists>a b. cs = a @ p @ b)"
    then show "\<exists>a b. c # cs = a @ p @ b"
    proof
      assume "\<exists>a b. cs = a @ p @ b"
      then obtain a b where "c # cs = (c # a) @ p @ b" by auto
      then show ?thesis by blast
    qed (metis append_Nil)
  qed
  with Cons show ?case by (simp add: starts_with_iff)
qed auto

lemma contains_subset: "contains p s \<Longrightarrow> set p \<subseteq> set s"
  by (auto simp: contains_iff)

definition has_white_space :: "string \<Rightarrow> bool" where
  "has_white_space s \<longleftrightarrow> list_ex (\<lambda>w. contains w s) white_space"

text \<open>\<open>split(c)\<close>: the pieces between the occurrences of \<open>c\<close>, one more than there are occurrences.\<close>

fun split_on :: "char \<Rightarrow> string \<Rightarrow> string list" where
  "split_on c [] = [[]]"
| "split_on c (x # xs) =
     (if x = c then [] # split_on c xs
      else case split_on c xs of [] \<Rightarrow> [[x]] | w # ws \<Rightarrow> (x # w) # ws)"

lemma split_on_not_Nil [simp]: "split_on c s \<noteq> []"
  by (induction s) (auto split: list.splits)

fun join_with :: "string \<Rightarrow> string list \<Rightarrow> string" where
  "join_with sep [] = []"
| "join_with sep [w] = w"
| "join_with sep (w # v # ws) = w @ sep @ join_with sep (v # ws)"

lemma join_with_Cons: "ws \<noteq> [] \<Longrightarrow> join_with sep (w # ws) = w @ sep @ join_with sep ws"
  by (cases ws) auto

lemma join_split: "join_with [c] (split_on c s) = s"
proof (induction s)
  case (Cons x xs)
  show ?case
  proof (cases "x = c")
    case True
    then show ?thesis using Cons by (simp add: join_with_Cons)
  next
    case False
    obtain w ws where "split_on c xs = w # ws" by (cases "split_on c xs") auto
    with False Cons show ?thesis by (cases ws) auto
  qed
qed simp

lemma split_on_pieces: "w \<in> set (split_on c s) \<Longrightarrow> c \<notin> set w"
  by (induction s arbitrary: w) (auto split: list.splits if_splits)

lemma split_on_chars: "w \<in> set (split_on c s) \<Longrightarrow> set w \<subseteq> set s"
proof (induction s arbitrary: w)
  case (Cons x xs)
  obtain v vs where v: "split_on c xs = v # vs" by (cases "split_on c xs") auto
  have vs: "set u \<subseteq> set xs" if "u \<in> set vs" for u
    using Cons.IH [of u] v that by simp
  have v_sub: "set v \<subseteq> set xs" using Cons.IH [of v] v by simp
  consider "w = []" | "w = v" | "w = x # v" | "w \<in> set vs"
    using Cons.prems v by (auto split: if_splits)
  then show ?case using v_sub vs by cases auto
qed simp

lemma split_on_covers: "x \<in> set s \<Longrightarrow> x = c \<or> (\<exists>w\<in>set (split_on c s). x \<in> set w)"
proof (induction s)
  case (Cons y ys)
  obtain v vs where "split_on c ys = v # vs" by (cases "split_on c ys") auto
  with Cons show ?case by auto
qed simp

lemma split_on_map:
  assumes "\<And>x. f x = c \<longleftrightarrow> x = c"
  shows "split_on c (map f s) = map (map f) (split_on c s)"
  using assms by (induction s) (auto split: list.splits)

lemma split_on_free: "c \<notin> set w \<Longrightarrow> split_on c w = [w]"
  by (induction w) auto

lemma split_on_append: "c \<notin> set w \<Longrightarrow> split_on c (w @ c # s) = w # split_on c s"
  by (induction w) auto

lemma split_join: "ws \<noteq> [] \<Longrightarrow> (\<And>w. w \<in> set ws \<Longrightarrow> c \<notin> set w) \<Longrightarrow> split_on c (join_with [c] ws) = ws"
  by (induction "[c]" ws rule: join_with.induct) (auto simp: split_on_free split_on_append)

fun split_once :: "char \<Rightarrow> string \<Rightarrow> (string \<times> string) option" where
  "split_once c [] = None"
| "split_once c (x # xs) =
     (if x = c then Some ([], xs) else map_option (\<lambda>(a, b). (x # a, b)) (split_once c xs))"

lemma split_once_Some: "split_once c s = Some (a, b) \<longleftrightarrow> s = a @ c # b \<and> c \<notin> set a"
proof (induction s arbitrary: a)
  case (Cons x xs)
  show ?case
  proof (cases a)
    case Nil
    then show ?thesis by (cases "split_once c xs") auto
  next
    case (Cons y ys)
    then show ?thesis using Cons.IH [of ys] by (cases "split_once c xs") auto
  qed
qed simp

lemma split_once_None: "split_once c s = None \<longleftrightarrow> c \<notin> set s"
  by (induction s) auto

text \<open>\<open>rsplit_once(p)\<close> on a non-empty pattern: the last occurrence.\<close>

fun rsplit_once :: "string \<Rightarrow> string \<Rightarrow> (string \<times> string) option" where
  "rsplit_once p [] = None"
| "rsplit_once p (x # xs) =
     (case rsplit_once p xs of
        Some (a, b) \<Rightarrow> Some (x # a, b)
      | None \<Rightarrow> map_option (\<lambda>r. ([], r)) (strip_prefix p (x # xs)))"

lemma rsplit_once_Some: "rsplit_once p s = Some (a, b) \<Longrightarrow> s = a @ p @ b"
  by (induction s arbitrary: a) (auto split: option.splits simp: strip_prefix_iff)

lemma rsplit_once_absent: "c \<notin> set s \<Longrightarrow> rsplit_once [c] s = None"
  by (induction s) auto

lemma rsplit_once_last: "c \<notin> set b \<Longrightarrow> rsplit_once [c] (a @ c # b) = Some (a, b)"
  by (induction a) (simp_all add: rsplit_once_absent)

text \<open>\<open>lines()\<close>: the lines ended by a line feed, a carriage return before it dropped.\<close>

definition drop_cr :: "string \<Rightarrow> string" where
  "drop_cr l = (if l \<noteq> [] \<and> last l = CHR 0x0D then butlast l else l)"

definition str_lines :: "string \<Rightarrow> string list" where
  "str_lines s =
     (let ls = split_on (CHR 0x0A) s
      in map drop_cr (butlast ls) @ (if last ls = [] then [] else [last ls]))"

text \<open>\<open>trim_matches(c)\<close>, \<open>trim_end_matches(c)\<close>, \<open>trim_start_matches(c)\<close> for one character.\<close>

definition trim_start_char :: "char \<Rightarrow> string \<Rightarrow> string" where
  "trim_start_char c s = dropWhile (\<lambda>x. x = c) s"

definition trim_end_char :: "char \<Rightarrow> string \<Rightarrow> string" where
  "trim_end_char c s = rev (dropWhile (\<lambda>x. x = c) (rev s))"

definition trim_matches :: "char \<Rightarrow> string \<Rightarrow> string" where
  "trim_matches c s = trim_end_char c (trim_start_char c s)"

text \<open>\<open>Path::join\<close>.\<close>

definition path_join :: "string \<Rightarrow> string \<Rightarrow> string" where
  "path_join a b =
     (if b \<noteq> [] \<and> hd b = CHR ''/'' then b
      else if a = [] \<or> last a = CHR ''/'' then a @ b
      else a @ ''/'' @ b)"

section \<open>Replacing and lower case\<close>

text \<open>\<open>replace(p, q)\<close> on a non-empty pattern, left to right and without overlaps.\<close>

function replace_str :: "string \<Rightarrow> string \<Rightarrow> string \<Rightarrow> string" where
  "replace_str p q [] = []"
| "replace_str p q (c # cs) =
     (case strip_prefix p (c # cs) of
        Some r \<Rightarrow> if length r < length (c # cs) then q @ replace_str p q r else c # cs
      | None \<Rightarrow> c # replace_str p q cs)"
  by pat_completeness auto
termination
  by (relation "measure (\<lambda>(p, q, s). length s)") auto

definition is_ascii_alphanumeric :: "char \<Rightarrow> bool" where
  "is_ascii_alphanumeric c \<longleftrightarrow>
     (let n = (of_char c :: nat) in 48 \<le> n \<and> n \<le> 57 \<or> 65 \<le> n \<and> n \<le> 90 \<or> 97 \<le> n \<and> n \<le> 122)"

definition is_ascii_lower_or_digit :: "char \<Rightarrow> bool" where
  "is_ascii_lower_or_digit c \<longleftrightarrow> (let n = (of_char c :: nat) in 48 \<le> n \<and> n \<le> 57 \<or> 97 \<le> n \<and> n \<le> 122)"

definition ascii_lower :: "char \<Rightarrow> char" where
  "ascii_lower c = (let n = (of_char c :: nat) in if 65 \<le> n \<and> n \<le> 90 then char_of (n + 32) else c)"

text \<open>
  \<open>to_lowercase\<close>, as far as ASCII results go: the ASCII letters, the Kelvin sign (to \<open>k\<close>) and the capital
  I with dot (to \<open>i\<close> and a combining dot). Every other non-ASCII character maps to non-ASCII characters,
  and is kept as it is.
\<close>

fun to_lowercase :: "string \<Rightarrow> string" where
  "to_lowercase [] = []"
| "to_lowercase (c # cs) =
     (if take 3 (c # cs) = [CHR 0xE2, CHR 0x84, CHR 0xAA] then CHR ''k'' # to_lowercase (drop 2 cs)
      else if take 2 (c # cs) = [CHR 0xC4, CHR 0xB0]
      then CHR ''i'' # CHR 0xCC # CHR 0x87 # to_lowercase (drop 1 cs)
      else ascii_lower c # to_lowercase cs)"

lemma ascii_lower_idem [simp]: "ascii_lower (ascii_lower c) = ascii_lower c"
  by (auto simp: ascii_lower_def Let_def)

lemma lower_or_digit_lower: "is_ascii_lower_or_digit c \<Longrightarrow> ascii_lower c = c"
  by (auto simp: is_ascii_lower_or_digit_def ascii_lower_def Let_def)

lemma alphanumeric_lower: "is_ascii_alphanumeric c \<Longrightarrow> is_ascii_lower_or_digit (ascii_lower c)"
  by (auto simp: is_ascii_alphanumeric_def is_ascii_lower_or_digit_def ascii_lower_def Let_def)

lemma lowercase_alphanumeric:
  "c \<in> set (to_lowercase s) \<Longrightarrow> is_ascii_alphanumeric c \<Longrightarrow> is_ascii_lower_or_digit c"
proof (induction s rule: to_lowercase.induct)
  case (2 x xs)
  have "is_ascii_lower_or_digit (ascii_lower x)" if "is_ascii_alphanumeric (ascii_lower x)"
    using that by (auto simp: is_ascii_alphanumeric_def is_ascii_lower_or_digit_def ascii_lower_def Let_def split: if_splits)
  moreover have "\<not> is_ascii_alphanumeric (CHR 0xCC)" "\<not> is_ascii_alphanumeric (CHR 0x87)"
    "is_ascii_lower_or_digit (CHR ''k'')" "is_ascii_lower_or_digit (CHR ''i'')"
    by (simp_all add: is_ascii_alphanumeric_def is_ascii_lower_or_digit_def)
  ultimately show ?case using 2 by (auto simp del: take_Suc_Cons split: if_splits)
qed simp

lemma to_lowercase_id:
  assumes "\<And>c. c \<in> set s \<Longrightarrow> is_ascii_lower_or_digit c \<or> c = CHR ''-''"
  shows "to_lowercase s = s"
  using assms
proof (induction s rule: to_lowercase.induct)
  case (2 x xs)
  have "x \<noteq> CHR 0xE2" "x \<noteq> CHR 0xC4" "ascii_lower x = x"
    using 2(4) [of x] by (auto simp: is_ascii_lower_or_digit_def ascii_lower_def Let_def)
  then show ?case using 2(3,4) by simp
qed simp

lemma replace_str_char:
  "replace_str [q] r (c # cs) = (if c = q then r @ replace_str [q] r cs else c # replace_str [q] r cs)"
  by simp

end
