(* ===== verification/Stack_Manifest.thy ===== *)
theory Stack_Manifest
  imports Pr_Stack Rust_Str
begin

text \<open>
  The rest of \<open>changeset/stack.rs\<close>: the base ref a node's worktree branches off, and the functions
  that read or rewrite the stack stored in a session's \<open>changeset.yaml\<close>.
\<close>

section \<open>Base refs\<close>

definition effective_base_refs :: "stack \<Rightarrow> string \<Rightarrow> string \<Rightarrow> string list" where
  "effective_base_refs s nid stack_bottom_base =
     (case node s nid of
        None \<Rightarrow> [stack_bottom_base]
      | Some n \<Rightarrow>
          (let refs = map (\<lambda>b. ''origin/'' @ b)
                        (List.map_filter branch
                           (filter (\<lambda>p. \<not> is_skipped p) (List.map_filter (node s) (parents n))))
           in if refs = [] then [stack_bottom_base] else refs))"

definition base_ref_for_spawn :: "stack \<Rightarrow> string \<Rightarrow> string \<Rightarrow> workflow_error + string" where
  "base_ref_for_spawn s nid stack_bottom_base =
     (case (case node s nid of
              None \<Rightarrow> None
            | Some n \<Rightarrow>
                List.find (\<lambda>pid. case node s pid of
                                   None \<Rightarrow> False
                                 | Some p \<Rightarrow> \<not> is_skipped p \<and> branch p = None) (parents n)) of
        Some pid \<Rightarrow>
          Inl (ChangesetInvalid (''cannot spawn node '' @ quote_char @ nid @ quote_char @
                 '': non-merged parent '' @ quote_char @ pid @ quote_char @
                 '' has no branch to base onto yet''))
      | None \<Rightarrow>
          Inr (case effective_base_refs s nid stack_bottom_base of
                 [] \<Rightarrow> stack_bottom_base
               | r # _ \<Rightarrow> r))"

text \<open>The parents that still have to merge, in the order they are listed.\<close>

definition live_parents :: "stack \<Rightarrow> string \<Rightarrow> stack_node list" where
  "live_parents s nid =
     (case node s nid of
        None \<Rightarrow> []
      | Some n \<Rightarrow> filter (\<lambda>p. \<not> is_skipped p) (List.map_filter (node s) (parents n)))"

lemma effective_base_refs_live:
  "effective_base_refs s nid b =
     (let refs = map (\<lambda>b. ''origin/'' @ b) (List.map_filter branch (live_parents s nid))
      in if refs = [] then [b] else refs)"
  by (auto simp: effective_base_refs_def live_parents_def map_filter_simps split: option.splits)

lemma effective_base_refs_not_Nil: "effective_base_refs s nid b \<noteq> []"
  by (simp add: effective_base_refs_live Let_def)

lemma base_ref_blocked:
  "(\<exists>m. base_ref_for_spawn s nid b = Inl (ChangesetInvalid m)) \<longleftrightarrow>
     (\<exists>p\<in>set (live_parents s nid). branch p = None)"
proof (cases "node s nid")
  case None
  then show ?thesis by (simp add: base_ref_for_spawn_def live_parents_def)
next
  case (Some n)
  have "List.find (\<lambda>pid. case node s pid of None \<Rightarrow> False
          | Some p \<Rightarrow> \<not> is_skipped p \<and> branch p = None) (parents n) = None \<longleftrightarrow>
        \<not> (\<exists>p\<in>set (live_parents s nid). branch p = None)"
    using Some by (auto simp: find_None_iff live_parents_def set_map_filter split: option.splits)
  with Some show ?thesis
    by (auto simp: base_ref_for_spawn_def split: option.splits)
qed

lemma base_ref_spawned:
  assumes "\<forall>p\<in>set (live_parents s nid). branch p \<noteq> None"
  shows "base_ref_for_spawn s nid b =
           Inr (case live_parents s nid of [] \<Rightarrow> b | p # _ \<Rightarrow> ''origin/'' @ the (branch p))"
proof -
  obtain r where r: "base_ref_for_spawn s nid b = Inr r"
    using base_ref_blocked [of s nid b] assms
    by (cases "base_ref_for_spawn s nid b") (auto simp: base_ref_for_spawn_def split: option.splits)
  then have "r = hd (effective_base_refs s nid b)"
    using effective_base_refs_not_Nil [of s nid b]
    by (auto simp: base_ref_for_spawn_def split: option.splits list.splits)
  with r assms show ?thesis
    by (auto simp: effective_base_refs_live Let_def map_filter_simps split: list.splits option.splits)
qed

section \<open>The stack inside the manifest\<close>

text \<open>
  Read, apply the closure to the stored stack, write back. The closure also answers the values the
  Rust closures leave in captured variables.
\<close>

definition update_stack_atomic ::
    "'y yaml_io \<Rightarrow> 'y fs \<Rightarrow> string \<Rightarrow> (stack \<Rightarrow> 'r \<times> stack) \<Rightarrow> workflow_error + ('r \<times> 'y fs)" where
  "update_stack_atomic io fs dir f =
     try_then (read_changeset io fs dir)
       (\<lambda>cs. let (r, s') = f (case cs_stack cs of None \<Rightarrow> default_stack | Some s \<Rightarrow> s)
             in try_then (write_changeset_atomic io fs dir (cs\<lparr>cs_stack := Some s'\<rparr>))
                  (\<lambda>fs'. Inr (r, fs')))"

definition link_node :: "string \<Rightarrow> string option \<Rightarrow> stack_node \<Rightarrow> stack_node" where
  "link_node child_session_id br n =
     (let n' = n\<lparr>session_id := Some child_session_id\<rparr>
      in case br of None \<Rightarrow> n' | Some b \<Rightarrow> n'\<lparr>branch := Some b\<rparr>)"

definition link_stack :: "string \<Rightarrow> string \<Rightarrow> string option \<Rightarrow> stack \<Rightarrow> unit \<times> stack" where
  "link_stack nid child_session_id br s =
     ((), s\<lparr>nodes := update_first (\<lambda>n. node_id n = nid) (link_node child_session_id br) (nodes s)\<rparr>)"

definition link_stack_node_to_child_session ::
    "'y yaml_io \<Rightarrow> 'y fs \<Rightarrow> string \<Rightarrow> string \<Rightarrow> string \<Rightarrow> string option \<Rightarrow> workflow_error + 'y fs" where
  "link_stack_node_to_child_session io fs dir nid child_session_id br =
     map_sum id snd (update_stack_atomic io fs dir (link_stack nid child_session_id br))"

definition unified_session_dir_path :: "string \<Rightarrow> string \<Rightarrow> string" where
  "unified_session_dir_path session_base sid = path_join (path_join session_base ''sessions'') sid"

definition resolve_stack_node_branch ::
    "'y yaml_io \<Rightarrow> 'y fs \<Rightarrow> string \<Rightarrow> stack_node \<Rightarrow> string option" where
  "resolve_stack_node_branch io fs sessions_root n =
     (case branch n of
        Some b \<Rightarrow> Some b
      | None \<Rightarrow>
          (case session_id n of
             None \<Rightarrow> None
           | Some sid \<Rightarrow>
               (case read_changeset io fs (unified_session_dir_path sessions_root sid) of
                  Inl _ \<Rightarrow> None
                | Inr cs \<Rightarrow> cs_branch cs)))"

definition read_stack_with_resolved_branches ::
    "'y yaml_io \<Rightarrow> 'y fs \<Rightarrow> string \<Rightarrow> string \<Rightarrow> workflow_error + stack option" where
  "read_stack_with_resolved_branches io fs sessions_root orchestrator_session_id =
     try_then (read_changeset io fs (unified_session_dir_path sessions_root orchestrator_session_id))
       (\<lambda>cs. case cs_stack cs of
               None \<Rightarrow> Inr None
             | Some s \<Rightarrow>
                 Inr (Some (s\<lparr>nodes := map (\<lambda>n. n\<lparr>branch := resolve_stack_node_branch io fs sessions_root n\<rparr>)
                                        (nodes s)\<rparr>)))"

definition sync_node :: "changeset \<Rightarrow> stack_node \<Rightarrow> stack_node" where
  "sync_node child n =
     n\<lparr>child_state := Some (st_current (cs_state child)),
       pr_status := Option.bind (cs_workflow child) wf_github_pr_status\<rparr>"

definition sync_stack :: "string \<Rightarrow> changeset \<Rightarrow> stack \<Rightarrow> unit \<times> stack" where
  "sync_stack nid child s =
     ((), s\<lparr>nodes := update_first (\<lambda>n. node_id n = nid) (sync_node child) (nodes s)\<rparr>)"

definition sync_stack_node_from_child ::
    "'y yaml_io \<Rightarrow> 'y fs \<Rightarrow> string \<Rightarrow> string \<Rightarrow> string \<Rightarrow> workflow_error + 'y fs" where
  "sync_stack_node_from_child io fs dir sessions_root nid =
     try_then (read_changeset io fs dir)
       (\<lambda>orch.
          case Option.bind (Option.bind (cs_stack orch) (\<lambda>s. node s nid)) session_id of
            None \<Rightarrow> Inr fs
          | Some sid \<Rightarrow>
              try_then (read_changeset io fs (unified_session_dir_path sessions_root sid))
                (\<lambda>child. map_sum id snd (update_stack_atomic io fs dir (sync_stack nid child))))"

text \<open>The stack a session's manifest holds, as every writer reads it.\<close>

definition stored_stack :: "'y yaml_io \<Rightarrow> 'y fs \<Rightarrow> string \<Rightarrow> workflow_error + stack" where
  "stored_stack io fs dir =
     try_then (read_changeset io fs dir)
       (\<lambda>cs. Inr (case cs_stack cs of None \<Rightarrow> default_stack | Some s \<Rightarrow> s))"

lemma update_stack_atomic_Inr:
  assumes "yaml_ok io" and "update_stack_atomic io fs dir f = Inr (r, fs')"
  shows "\<exists>s. stored_stack io fs dir = Inr s \<and> r = fst (f s) \<and> stored_stack io fs' dir = Inr (snd (f s))"
proof -
  obtain cs where cs: "read_changeset io fs dir = Inr cs"
    using assms(2) by (auto simp: update_stack_atomic_def try_then_Inr)
  define s where "s = (case cs_stack cs of None \<Rightarrow> default_stack | Some s \<Rightarrow> s)"
  have "write_changeset_atomic io fs dir (cs\<lparr>cs_stack := Some (snd (f s))\<rparr>) = Inr fs'" "r = fst (f s)"
    using assms(2) cs by (auto simp: update_stack_atomic_def try_then_Inr s_def split: prod.splits)
  with read_after_write [OF assms(1) this(1)] cs show ?thesis
    by (simp add: stored_stack_def s_def)
qed

lemma update_stack_atomic_other:
  assumes "update_stack_atomic io fs dir f = Inr (r, fs')" and "d \<noteq> dir"
  shows "read_changeset io fs' d = read_changeset io fs d"
  using assms by (auto simp: update_stack_atomic_def Let_def case_prod_beta try_then_Inr read_after_write_other)

text \<open>A store that takes every write: with it, a writer that passed its validation succeeds.\<close>

definition writable :: "'y yaml_io \<Rightarrow> bool" where
  "writable io \<longleftrightarrow> (\<forall>cs. \<exists>t. to_yaml io cs = Inr t) \<and> (\<forall>dir t. write_error io dir t = None)"

lemma update_stack_atomic_total:
  assumes "writable io" and "stored_stack io fs dir = Inr s"
  shows "\<exists>fs'. update_stack_atomic io fs dir f = Inr (fst (f s), fs')"
proof -
  obtain cs where cs: "read_changeset io fs dir = Inr cs"
      and s: "s = (case cs_stack cs of None \<Rightarrow> default_stack | Some s \<Rightarrow> s)"
    using assms(2) by (auto simp: stored_stack_def try_then_Inr)
  obtain t where "to_yaml io (cs\<lparr>cs_stack := Some (snd (f s))\<rparr>) = Inr t"
    using assms(1) unfolding writable_def by blast
  then show ?thesis
    using assms(1) cs by (auto simp: update_stack_atomic_def write_changeset_atomic_def writable_def
        s [symmetric] case_prod_beta Let_def)
qed

lemma link_node_fields [simp]: "node_id (link_node c b n) = node_id n" "parents (link_node c b n) = parents n"
  by (auto simp: link_node_def Let_def split: option.splits)

lemma sync_node_fields [simp]: "node_id (sync_node c n) = node_id n" "parents (sync_node c n) = parents n"
  by (simp_all add: sync_node_def)

lemma resolve_recorded_branch: "branch n = Some b \<Longrightarrow> resolve_stack_node_branch io fs root n = Some b"
  by (simp add: resolve_stack_node_branch_def)

lemma node_update_first:
  assumes "\<And>n. node_id (f n) = node_id n"
  shows "node (s\<lparr>nodes := update_first (\<lambda>n. node_id n = i) f (nodes s)\<rparr>) j =
           (if i = j then map_option f (node s j) else node s j)"
  using assms by (auto simp: node_def find_update_first_same find_update_first_other)

lemma link_Inr:
  "link_stack_node_to_child_session io fs dir nid child br = Inr fs' \<longleftrightarrow>
     update_stack_atomic io fs dir (link_stack nid child br) = Inr ((), fs')"
  by (auto simp: link_stack_node_to_child_session_def map_sum_def split: sum.splits)

section \<open>Properties\<close>


text \<open>
  Linking a node to the child session that owns branch \<open>b\<close> makes the stored node carry that session
  and branch, so the node's branch resolves to \<open>b\<close> whatever the child's own manifest says. The other
  nodes of the stack and the manifests of the other sessions stay as they were.
\<close>

theorem link_then_resolve:
  assumes "yaml_ok io" and "link_stack_node_to_child_session io fs dir nid child (Some b) = Inr fs'"
  shows "\<exists>s t. stored_stack io fs dir = Inr s \<and> stored_stack io fs' dir = Inr t \<and>
           node t nid = map_option (\<lambda>n. n\<lparr>session_id := Some child, branch := Some b\<rparr>) (node s nid) \<and>
           (\<forall>n. node t nid = Some n \<longrightarrow> resolve_stack_node_branch io fs' root n = Some b) \<and>
           (\<forall>j. j \<noteq> nid \<longrightarrow> node t j = node s j) \<and>
           (\<forall>d. d \<noteq> dir \<longrightarrow> read_changeset io fs' d = read_changeset io fs d)"
proof -
  note w = assms(2) [unfolded link_Inr]
  obtain s where s: "stored_stack io fs dir = Inr s" "stored_stack io fs' dir = Inr (snd (link_stack nid child (Some b) s))"
    using update_stack_atomic_Inr [OF assms(1) w] by blast
  have "link_node child (Some b) = (\<lambda>n. n\<lparr>session_id := Some child, branch := Some b\<rparr>)"
    by (auto simp: link_node_def)
  then have at: "node (snd (link_stack nid child (Some b) s)) j =
      (if nid = j then map_option (\<lambda>n. n\<lparr>session_id := Some child, branch := Some b\<rparr>) (node s j) else node s j)" for j
    by (simp add: link_stack_def node_update_first)
  show ?thesis
    by (rule exI [of _ s], rule exI [of _ "snd (link_stack nid child (Some b) s)"])
      (auto simp: s at update_stack_atomic_other [OF w] intro!: resolve_recorded_branch)
qed

text \<open>A store that keeps values as they are, and a manifest holding the diamond.\<close>

definition sample_io :: "changeset yaml_io" where
  "sample_io = \<lparr>to_yaml = Inr, from_yaml = Inr, read_error = \<lambda>_. None, write_error = \<lambda>_ _. None\<rparr>"

definition sample_fs :: "stack \<Rightarrow> changeset fs" where
  "sample_fs s = [''orch'' \<mapsto> (default_changeset ''now'')\<lparr>cs_stack := Some s\<rparr>]"

lemma sample_io_ok: "yaml_ok sample_io" "writable sample_io"
  by (simp_all add: yaml_ok_def writable_def sample_io_def)

lemma stored_sample: "stored_stack sample_io (sample_fs s) ''orch'' = Inr s"
  by (simp add: stored_stack_def read_changeset_def sample_io_def sample_fs_def)

theorem link_then_resolve_witness:
  "\<exists>fs' t n. link_stack_node_to_child_session sample_io (sample_fs diamond) ''orch'' ''n2'' ''c'' (Some ''b'') = Inr fs' \<and>
     stored_stack sample_io fs' ''orch'' = Inr t \<and> node t ''n2'' = Some n \<and> branch n = Some ''b''"
proof -
  obtain fs' where fs': "link_stack_node_to_child_session sample_io (sample_fs diamond) ''orch'' ''n2'' ''c'' (Some ''b'') = Inr fs'"
    using update_stack_atomic_total [OF sample_io_ok(2) stored_sample, of diamond "link_stack ''n2'' ''c'' (Some ''b'')"]
    unfolding link_Inr by (auto simp: link_stack_def)
  have "node diamond ''n2'' = Some (sample_node ''n2'' [''n1''])"
    by (simp add: node_def diamond_def sample_node_def)
  with link_then_resolve [OF sample_io_ok(1) fs', of "[]"] fs' show ?thesis
    by (auto simp: stored_sample)
qed

end
