(* ===== verification/Stack_Order.thy ===== *)
theory Stack_Order
  imports Stack_Manifest
begin

text \<open>
  The operator's reading order (\<open>tddy-pr-stack\<close>, \<open>stack_ops/order.rs\<close>): the order in which unnumbered
  nodes are numbered, the numbering every writer runs first, and the one-step move of a row. The
  lemmas show that numbering touches only \<open>display_order\<close>, rewrites no number already there, is
  idempotent, and leaves pairwise different numbers while the numbers have room below \<open>u32::MAX\<close>; and
  that a move exchanges exactly two neighbouring rows.
\<close>

section \<open>Numbering\<close>

definition is_ready :: "string set \<Rightarrow> string set \<Rightarrow> stack_node \<Rightarrow> bool" where
  "is_ready known placed n \<longleftrightarrow> (\<forall>p\<in>set (parents n). p \<notin> known \<or> p \<in> placed)"

function numbering_loop :: "string set \<Rightarrow> string set \<Rightarrow> stack_node list \<Rightarrow> string list \<Rightarrow> string list" where
  "numbering_loop known placed remaining ordered =
     (if remaining = [] then ordered
      else let ready = filter (is_ready known placed) remaining;
               blocked = filter (\<lambda>n. \<not> is_ready known placed n) remaining
           in if ready = [] then ordered @ map node_id blocked
              else numbering_loop known (placed \<union> set (map node_id ready)) blocked
                     (ordered @ map node_id ready))"
  by pat_completeness auto
termination
proof (relation "measure (\<lambda>(known, placed, remaining, ordered). length remaining)", goal_cases)
  case (2 known placed remaining ordered ready blocked)
  then have "length ready + length blocked = length remaining" "ready \<noteq> []"
    by (simp_all add: sum_length_filter_compl)
  then show ?case by (cases ready) auto
qed simp

declare numbering_loop.simps [simp del]

definition numbering_order :: "stack \<Rightarrow> string list" where
  "numbering_order s = numbering_loop (set (node_ids s)) {} (nodes s) []"

definition next_display_order :: "stack \<Rightarrow> u32" where
  "next_display_order s =
     (case List.map_filter display_order (nodes s) of
        [] \<Rightarrow> 0
      | ds \<Rightarrow> saturating_inc (Max (set ds)))"

fun assign_loop :: "string list \<Rightarrow> u32 \<Rightarrow> stack_node list \<Rightarrow> stack_node list" where
  "assign_loop [] next ns = ns"
| "assign_loop (i # is) next ns =
     (case List.find (\<lambda>n. node_id n = i) ns of
        None \<Rightarrow> assign_loop is next ns
      | Some n \<Rightarrow>
          if display_order n = None
          then assign_loop is (saturating_inc next)
                 (update_first (\<lambda>n. node_id n = i) (\<lambda>n. n\<lparr>display_order := Some next\<rparr>) ns)
          else assign_loop is next ns)"

definition assign_missing_display_order :: "stack \<Rightarrow> stack" where
  "assign_missing_display_order s =
     s\<lparr>nodes := assign_loop (numbering_order s) (next_display_order s) (nodes s)\<rparr>"

subsection \<open>The order nodes are numbered in\<close>

lemma numbering_loop_stuck:
  "filter (is_ready known placed) remaining = [] \<Longrightarrow>
     numbering_loop known placed remaining ordered = ordered @ map node_id remaining"
  by (subst numbering_loop.simps) (auto simp: filter_empty_conv)

lemma numbering_loop_step:
  "filter (is_ready known placed) remaining \<noteq> [] \<Longrightarrow>
     numbering_loop known placed remaining ordered =
       numbering_loop known (placed \<union> set (map node_id (filter (is_ready known placed) remaining)))
         (filter (\<lambda>n. \<not> is_ready known placed n) remaining)
         (ordered @ map node_id (filter (is_ready known placed) remaining))"
  by (subst numbering_loop.simps) auto

lemma mset_numbering_loop:
  "mset (numbering_loop known placed remaining ordered) = mset ordered + mset (map node_id remaining)"
proof (induction known placed remaining ordered rule: numbering_loop.induct)
  case (1 known placed remaining ordered)
  let ?ready = "filter (is_ready known placed) remaining"
  let ?blocked = "filter (\<lambda>n. \<not> is_ready known placed n) remaining"
  show ?case
  proof (cases "?ready = []")
    case True
    then show ?thesis by (simp add: numbering_loop_stuck)
  next
    case False
    have "mset remaining = mset ?ready + mset ?blocked"
      using multiset_partition [of "mset remaining" "is_ready known placed"] by (simp add: mset_filter)
    moreover have "remaining \<noteq> []" using False by auto
    ultimately show ?thesis
      using 1 [OF _ refl refl False] False by (simp add: numbering_loop_step del: filter_empty_conv mset_filter)
  qed
qed

lemma mset_numbering_order: "mset (numbering_order s) = mset (node_ids s)"
  by (simp add: numbering_order_def mset_numbering_loop)

lemma numbering_loop_topo:
  assumes "acyclic (parent_rel s)" and "distinct (node_ids s)"
    and "set remaining \<subseteq> set (nodes s)"
    and "distinct (ordered @ map node_id remaining)"
    and "set (ordered @ map node_id remaining) = set (node_ids s)"
    and "topo_sorted (parent_rel s) ordered"
    and "\<And>p c. (p, c) \<in> parent_rel s \<Longrightarrow> c \<in> set ordered \<Longrightarrow> p \<in> set ordered"
  shows "topo_sorted (parent_rel s) (numbering_loop (set (node_ids s)) (set ordered) remaining ordered)"
  using assms(3-)
proof (induction "set (node_ids s)" "set ordered" remaining ordered rule: numbering_loop.induct)
  case (1 remaining ordered)
  let ?known = "set (node_ids s)"
  define ready where "ready = filter (is_ready ?known (set ordered)) remaining"
  define blocked where "blocked = filter (\<lambda>n. \<not> is_ready ?known (set ordered) n) remaining"
  have parents: "p \<in> set ordered" if n: "n \<in> set ready" and e: "(p, node_id n) \<in> parent_rel s" for p n
  proof -
    obtain n' where "n' \<in> set (nodes s)" "node_id n' = node_id n" "p \<in> set (parents n')" "p \<in> ?known"
      using e by (auto simp: parent_rel_def)
    moreover have "n \<in> set (nodes s)" using n 1(2) by (auto simp: ready_def)
    ultimately have "n' = n" using assms(2) by (auto simp: distinct_map inj_on_def)
    then show ?thesis
      using n \<open>p \<in> set (parents n')\<close> \<open>p \<in> ?known\<close> by (auto simp: ready_def is_ready_def)
  qed
  have stuck: "remaining = []" if "ready = []"
  proof (rule ccontr)
    assume "remaining \<noteq> []"
    let ?S = "node_id ` set remaining"
    have "\<exists>y\<in>?S. (y, x) \<in> parent_rel s" if x: "x \<in> ?S" for x
    proof -
      obtain n where n: "n \<in> set remaining" "x = node_id n" using x by auto
      with \<open>ready = []\<close> have "\<not> is_ready ?known (set ordered) n"
        by (auto simp: ready_def filter_empty_conv)
      then obtain p where p: "p \<in> set (parents n)" "p \<in> ?known" "p \<notin> set ordered"
        by (auto simp: is_ready_def)
      then have "p \<in> ?S" using 1(4) by auto
      moreover have "(p, x) \<in> parent_rel s" using n p 1(2) unfolding parent_rel_def by blast
      ultimately show ?thesis by blast
    qed
    moreover have "?S \<noteq> {}" using \<open>remaining \<noteq> []\<close> by auto
    ultimately show False
      using stuck_not_acyclic [of ?S "parent_rel s"] assms(1) by blast
  qed
  show ?case
  proof (cases "ready = []")
    case True
    with stuck have "numbering_loop ?known (set ordered) remaining ordered = ordered"
      by (simp add: numbering_loop_stuck)
    then show ?thesis using 1(5) by simp
  next
    case False
    have disj: "set ordered \<inter> node_id ` set ready = {}" "distinct (map node_id ready)"
      using 1(3) by (auto simp: ready_def distinct_map_filter)
    have topo: "topo_sorted (parent_rel s) (ordered @ map node_id ready)"
      unfolding topo_sorted_append
    proof (intro conjI ballI)
      show "topo_sorted (parent_rel s) (map node_id ready)"
        using parents disj(1) by (intro topo_sorted_independent) fastforce
      show "(y, x) \<notin> parent_rel s" if "x \<in> set ordered" "y \<in> set (map node_id ready)" for x y
        using that disj 1(6) by auto
    qed (rule 1(5))
    have dist: "distinct ((ordered @ map node_id ready) @ map node_id blocked)"
      using 1(3) by (auto simp: ready_def blocked_def distinct_map inj_on_def)
    have "topo_sorted (parent_rel s)
        (numbering_loop ?known (set (ordered @ map node_id ready)) blocked (ordered @ map node_id ready))"
    proof (rule 1(1) [of ready blocked])
      show "set blocked \<subseteq> set (nodes s)" using 1(2) by (auto simp: blocked_def)
      show "set ((ordered @ map node_id ready) @ map node_id blocked) = ?known"
        using 1(4) by (auto simp: ready_def blocked_def)
      show "p \<in> set (ordered @ map node_id ready)"
        if "(p, c) \<in> parent_rel s" "c \<in> set (ordered @ map node_id ready)" for p c
        using that 1(6) parents by auto
    qed (use topo dist False in \<open>auto simp: ready_def blocked_def\<close>)
    moreover have "numbering_loop ?known (set ordered) remaining ordered =
        numbering_loop ?known (set (ordered @ map node_id ready)) blocked (ordered @ map node_id ready)"
      using False unfolding ready_def blocked_def set_append by (rule numbering_loop_step)
    ultimately show ?thesis by simp
  qed
qed

lemma numbering_order_topo:
  assumes "acyclic (parent_rel s)" and "distinct (node_ids s)"
  shows "topo_sorted (parent_rel s) (numbering_order s)"
  using numbering_loop_topo [OF assms, of "nodes s" "[]"] assms(2)
  by (simp add: numbering_order_def)

subsection \<open>What numbering changes\<close>

text \<open>Everything of a node but its number.\<close>

definition unnumbered :: "stack_node \<Rightarrow> stack_node" where
  "unnumbered n = n\<lparr>display_order := None\<rparr>"

lemma unnumbered_update [simp]: "unnumbered (n\<lparr>display_order := d\<rparr>) = unnumbered n"
  by (simp add: unnumbered_def)

lemma assign_loop_unnumbered: "map unnumbered (assign_loop is k ns) = map unnumbered ns"
  by (induction "is" k ns rule: assign_loop.induct) (auto simp: iter_simps split: option.splits)

lemma unnumbered_fields:
  "map unnumbered ns = map unnumbered ms \<Longrightarrow>
     map node_id ns = map node_id ms \<and> map parents ns = map parents ms \<and>
     map branch ns = map branch ms \<and> map session_id ns = map session_id ms \<and>
     map pr_status ns = map pr_status ms"
proof (induction ns ms rule: list_induct2')
  case (4 x xs y ys)
  then show ?case by (cases x; cases y) (auto simp: unnumbered_def)
qed auto

lemma nodes_assign [simp]:
  "map unnumbered (nodes (assign_missing_display_order s)) = map unnumbered (nodes s)"
  by (simp add: assign_missing_display_order_def assign_loop_unnumbered)

lemma node_ids_assign [simp]: "node_ids (assign_missing_display_order s) = node_ids s"
  using unnumbered_fields [OF nodes_assign] by blast

text \<open>Stacks that agree but for the numbers have the same parent relation.\<close>

lemma parent_rel_alt:
  "parent_rel s = {(p, i). \<exists>ps. (i, ps) \<in> set (map (\<lambda>n. (node_id n, parents n)) (nodes s)) \<and> p \<in> set ps
                          \<and> p \<in> set (node_ids s)}"
  by (auto simp: parent_rel_def)

lemma parent_rel_cong:
  assumes "map node_id (nodes s) = map node_id (nodes t)" and "map parents (nodes s) = map parents (nodes t)"
  shows "parent_rel s = parent_rel t"
proof -
  have "map (\<lambda>n. (node_id n, parents n)) (nodes s) = zip (node_ids s) (map parents (nodes s))" for s
    by (simp add: zip_map_map zip_same_conv_map)
  then show ?thesis unfolding parent_rel_alt using assms by simp
qed

lemma parent_rel_assign [simp]: "parent_rel (assign_missing_display_order s) = parent_rel s"
  using unnumbered_fields [OF nodes_assign] by (intro parent_rel_cong) auto

text \<open>A number already there is never rewritten.\<close>

definition keeps_numbers :: "stack_node list \<Rightarrow> stack_node list \<Rightarrow> bool" where
  "keeps_numbers ns ms \<longleftrightarrow> list_all2 (\<lambda>a b. display_order a \<noteq> None \<longrightarrow> display_order b = display_order a) ns ms"

lemma keeps_numbers_refl: "keeps_numbers ns ns"
  by (simp add: keeps_numbers_def list_all2_refl)

lemma keeps_numbers_trans: "keeps_numbers ns ms \<Longrightarrow> keeps_numbers ms ks \<Longrightarrow> keeps_numbers ns ks"
  by (auto simp: keeps_numbers_def list_all2_conv_all_nth)

lemma keeps_numbers_update:
  "List.find p ns = Some n \<Longrightarrow> display_order n = None \<Longrightarrow>
     keeps_numbers ns (update_first p (\<lambda>n. n\<lparr>display_order := Some k\<rparr>) ns)"
  unfolding keeps_numbers_def by (induction ns) (auto simp: list_all2_refl split: if_splits)

lemma assign_loop_keeps: "keeps_numbers ns (assign_loop is k ns)"
proof (induction "is" k ns rule: assign_loop.induct)
  case (2 i "is" k ns)
  then show ?case
    by (auto split: option.splits intro: keeps_numbers_trans keeps_numbers_update)
qed (simp add: keeps_numbers_refl)

definition numbered :: "stack_node list \<Rightarrow> string \<Rightarrow> bool" where
  "numbered ns i \<longleftrightarrow> (\<forall>n. List.find (\<lambda>n. node_id n = i) ns = Some n \<longrightarrow> display_order n \<noteq> None)"

lemma numbered_update:
  "numbered (update_first (\<lambda>n. node_id n = i) (\<lambda>n. n\<lparr>display_order := Some k\<rparr>) ns) j \<longleftrightarrow> i = j \<or> numbered ns j"
proof (cases "i = j")
  case True
  then show ?thesis by (auto simp: numbered_def find_update_first_same)
next
  case False
  then show ?thesis by (simp add: numbered_def find_update_first_other)
qed

lemma assign_loop_numbered: "j \<in> set is \<or> numbered ns j \<Longrightarrow> numbered (assign_loop is k ns) j"
proof (induction "is" k ns rule: assign_loop.induct)
  case (2 i "is" k ns)
  show ?case
  proof (cases "List.find (\<lambda>n. node_id n = i) ns")
    case None
    then have "numbered ns i" by (simp add: numbered_def)
    with 2 None show ?thesis by auto
  next
    case (Some n)
    have "numbered ns i" if "display_order n \<noteq> None" using that Some by (simp add: numbered_def)
    with 2 Some show ?thesis by (auto simp: numbered_update)
  qed
qed simp

lemma assign_loop_done: "(\<And>i. i \<in> set is \<Longrightarrow> numbered ns i) \<Longrightarrow> assign_loop is k ns = ns"
proof (induction "is")
  case (Cons i "is")
  then have "assign_loop is k ns = ns" and "numbered ns i" by simp_all
  then show ?case by (auto simp: numbered_def split: option.split)
qed simp

lemma set_numbering_order [simp]: "set (numbering_order s) = set (node_ids s)"
  by (metis mset_eq_setD mset_numbering_order)

lemma assign_idempotent:
  "assign_missing_display_order (assign_missing_display_order s) = assign_missing_display_order s"
proof -
  let ?t = "assign_missing_display_order s"
  have "numbered (nodes ?t) i" if "i \<in> set (numbering_order ?t)" for i
  proof -
    have "i \<in> set (numbering_order s)"
      using that unfolding set_numbering_order by simp
    then show ?thesis by (simp add: assign_missing_display_order_def assign_loop_numbered)
  qed
  then have "assign_loop (numbering_order ?t) k (nodes ?t) = nodes ?t" for k
    by (rule assign_loop_done)
  then show ?thesis
    by (subst assign_missing_display_order_def) simp
qed

lemma assign_all_numbered:
  assumes "distinct (node_ids s)" and "n \<in> set (nodes (assign_missing_display_order s))"
  shows "display_order n \<noteq> None"
proof -
  have "distinct (node_ids (assign_missing_display_order s))" using assms(1) by simp
  then have "List.find (\<lambda>m. node_id m = node_id n) (nodes (assign_missing_display_order s)) = Some n"
    using assms(2) by (rule find_distinct)
  moreover have "node_id n \<in> set (node_ids s)"
    using assms(2) node_ids_assign [of s] by (metis image_eqI list.set_map)
  then have "numbered (nodes (assign_missing_display_order s)) (node_id n)"
    by (simp add: assign_missing_display_order_def assign_loop_numbered del: set_map)
  ultimately show ?thesis by (simp add: numbered_def)
qed

subsection \<open>The numbers stay pairwise different\<close>

abbreviation numbers :: "stack_node list \<Rightarrow> u32 list" where
  "numbers ns \<equiv> List.map_filter display_order ns"

lemma numbers_update:
  "List.find p ns = Some n \<Longrightarrow> display_order n = None \<Longrightarrow>
     mset (numbers (update_first p (\<lambda>n. n\<lparr>display_order := Some k\<rparr>) ns)) = add_mset k (mset (numbers ns))"
  by (induction ns) (auto simp: map_filter_simps split: if_splits option.splits)

definition has_room :: "stack \<Rightarrow> bool" where
  "has_room s \<longleftrightarrow> unat (next_display_order s) + length (nodes s) < 2 ^ 32"

lemma assign_loop_distinct:
  assumes "distinct (numbers ns)" and "\<And>d. d \<in> set (numbers ns) \<Longrightarrow> d < k"
    and "unat k + length is < 2 ^ 32"
  shows "distinct (numbers (assign_loop is k ns))"
  using assms
proof (induction "is" k ns rule: assign_loop.induct)
  case (2 i "is" k ns)
  show ?case
  proof (cases "\<exists>n. List.find (\<lambda>n. node_id n = i) ns = Some n \<and> display_order n = None")
    case False
    with 2 show ?thesis by (auto split: option.splits)
  next
    case True
    then obtain n where n: "List.find (\<lambda>n. node_id n = i) ns = Some n" "display_order n = None" by blast
    define ns' where "ns' = update_first (\<lambda>n. node_id n = i) (\<lambda>n. n\<lparr>display_order := Some k\<rparr>) ns"
    have nums: "mset (numbers ns') = add_mset k (mset (numbers ns))"
      unfolding ns'_def by (rule numbers_update [OF n])
    have "k \<noteq> - 1"
      using 2(6) by auto
    then have gt: "k < saturating_inc k" by (rule saturating_inc_greater)
    have "distinct (numbers ns')"
      using nums 2(4,5) by (metis (no_types, lifting) distinct.simps(2) mset.simps(2) mset_eq_imp_distinct_iff
          order_less_irrefl)
    moreover have "d < saturating_inc k" if "d \<in> set (numbers ns')" for d
      using that nums gt 2(5) by (metis insert_iff mset_eq_setD order_less_trans set_mset_add_mset_insert set_mset_mset)
    moreover have "unat (saturating_inc k) + length is < 2 ^ 32"
      using 2(6) \<open>k \<noteq> - 1\<close> by (simp add: unat_saturating_inc)
    ultimately show ?thesis
      using 2(2) [OF n(1) n(2)] n by (simp add: ns'_def)
  qed
qed simp

lemma numbers_below_next:
  assumes "has_room s" and "d \<in> set (numbers (nodes s))"
  shows "d < next_display_order s"
proof -
  let ?m = "Max (set (numbers (nodes s)))"
  have nxt: "next_display_order s = saturating_inc ?m"
    using assms(2) by (cases "numbers (nodes s)") (auto simp: next_display_order_def)
  have "nodes s \<noteq> []" using assms(2) by (auto simp: map_filter_simps)
  then have "?m \<noteq> - 1"
    using assms(1) by (cases "nodes s") (auto simp: has_room_def nxt saturating_inc_def)
  moreover have "d \<le> ?m" using assms(2) by simp
  ultimately show ?thesis
    unfolding nxt using saturating_inc_greater by (meson le_less_trans)
qed

lemma assign_distinct:
  assumes "distinct (numbers (nodes s))" and "has_room s"
  shows "distinct (numbers (nodes (assign_missing_display_order s)))"
proof -
  have "length (numbering_order s) = length (nodes s)"
    using mset_numbering_order [of s] by (metis length_map size_mset)
  then show ?thesis
    using assms numbers_below_next [OF assms(2)]
    by (auto simp: assign_missing_display_order_def has_room_def intro!: assign_loop_distinct)
qed

section \<open>Moving a row\<close>

definition exchange_numbers :: "string \<Rightarrow> string \<Rightarrow> u32 \<Rightarrow> u32 \<Rightarrow> stack_node \<Rightarrow> stack_node" where
  "exchange_numbers nid neighbour moved displaced n =
     (if node_id n = nid then n\<lparr>display_order := Some displaced\<rparr>
      else if node_id n = neighbour then n\<lparr>display_order := Some moved\<rparr>
      else n)"

definition swap_with_neighbour :: "stack \<Rightarrow> string \<Rightarrow> bool \<Rightarrow> stack" where
  "swap_with_neighbour s nid up =
     (let order = stack_display_order s
      in case position (\<lambda>i. i = nid) order of
           None \<Rightarrow> s
         | Some pos \<Rightarrow>
             (case (if up then if pos = 0 then None else Some (pos - 1) else Some (pos + 1)) of
                None \<Rightarrow> s
              | Some index \<Rightarrow>
                  if index < length order
                  then let neighbour = order ! index
                       in (case (Option.bind (node s nid) display_order,
                                 Option.bind (node s neighbour) display_order) of
                             (Some moved, Some displaced) \<Rightarrow>
                               s\<lparr>nodes := map (exchange_numbers nid neighbour moved displaced) (nodes s)\<rparr>
                           | _ \<Rightarrow> s)
                  else s))"

definition move_stack :: "string \<Rightarrow> string \<Rightarrow> stack \<Rightarrow> unit \<times> stack" where
  "move_stack nid direction s =
     ((), swap_with_neighbour (assign_missing_display_order s) nid (direction = ''up''))"

definition move_planned_pr_node ::
    "'y yaml_io \<Rightarrow> ('y fs \<Rightarrow> 'y fs) \<Rightarrow> 'y fs \<Rightarrow> string \<Rightarrow> string \<Rightarrow> string \<Rightarrow> (string + stack) \<times> 'y fs" where
  "move_planned_pr_node io others fs dir nid direction =
     (let op = ''move_planned_pr_node''
      in if direction \<noteq> ''up'' \<and> direction \<noteq> ''down''
         then (Inl (op @ '': unknown direction '' @ quote_char @ direction @ quote_char @ '' '' @ em_dash @
                    '' expected '' @ quote_char @ ''up'' @ quote_char @ '' or '' @ quote_char @ ''down'' @
                    quote_char), fs)
         else case stored_stack io fs dir of
                Inl e \<Rightarrow> (Inl (op @ '': failed to read changeset: '' @ show_workflow_error e), fs)
              | Inr s \<Rightarrow>
                  if node s nid = None
                  then (Inl (op @ '': node '' @ quote_char @ nid @ quote_char @ '' not found''), fs)
                  else (case update_stack_atomic io (others fs) dir (move_stack nid direction) of
                          Inl e \<Rightarrow> (Inl (op @ '': failed to write stack: '' @ show_workflow_error e), others fs)
                        | Inr (_, fs') \<Rightarrow>
                            (case stored_stack io fs' dir of
                               Inl e \<Rightarrow> (Inl (op @ '': failed to reload stack: '' @ show_workflow_error e), fs')
                             | Inr s' \<Rightarrow> (Inr s', fs'))))"

lemma exchange_numbers_fields [simp]:
  "node_id (exchange_numbers a b x y n) = node_id n"
  "unnumbered (exchange_numbers a b x y n) = unnumbered n"
  by (simp_all add: exchange_numbers_def)

lemma swap_unnumbered: "map unnumbered (nodes (swap_with_neighbour s nid up)) = map unnumbered (nodes s)"
  by (auto simp: swap_with_neighbour_def Let_def comp_def split: option.splits)

lemma swap_node_ids [simp]: "node_ids (swap_with_neighbour s nid up) = node_ids s"
  using unnumbered_fields [OF swap_unnumbered] by blast

text \<open>A stack whose rows have pairwise different numbers.\<close>

definition well_numbered :: "stack \<Rightarrow> bool" where
  "well_numbered s \<longleftrightarrow> distinct (node_ids s) \<and> (\<forall>n\<in>set (nodes s). display_order n \<noteq> None) \<and>
     distinct (map display_order (nodes s))"

lemma distinct_numbers:
  "(\<forall>n\<in>set ns. display_order n \<noteq> None) \<Longrightarrow> distinct (map display_order ns) = distinct (numbers ns)"
proof -
  assume "\<forall>n\<in>set ns. display_order n \<noteq> None"
  then have "map display_order ns = map Some (numbers ns)"
    by (induction ns) (auto simp: map_filter_simps)
  then show ?thesis by (simp add: distinct_map)
qed

lemma assign_well_numbered:
  assumes "distinct (node_ids s)" and "distinct (numbers (nodes s))" and "has_room s"
  shows "well_numbered (assign_missing_display_order s)"
  using assms assign_all_numbered [OF assms(1)] assign_distinct [OF assms(2,3)]
  by (simp add: well_numbered_def distinct_numbers)

lemma sort_exchange:
  assumes "well_numbered s" and "ns = sort_key (\<lambda>n. the (display_order n)) (nodes s)"
    and "i < length ns" and "j < length ns" and "i \<noteq> j"
    and "f = exchange_numbers (node_id (ns ! i)) (node_id (ns ! j))
           (the (display_order (ns ! i))) (the (display_order (ns ! j)))"
  shows "sort_key (\<lambda>n. the (display_order n)) (map f (nodes s)) = (map f ns)[i := f (ns ! j), j := f (ns ! i)]"
    and "distinct (map display_order (map f (nodes s)))"
proof -
  let ?num = "\<lambda>n. the (display_order n)"
  let ?ms = "(map f ns)[i := f (ns ! j), j := f (ns ! i)]"
  have set_ns: "set ns = set (nodes s)" and dist_ns: "distinct (map node_id ns)"
    using assms(1,2) by (auto simp: well_numbered_def distinct_map)
  have mset_ns: "mset ns = mset (nodes s)" using assms(2) by simp
  have ids: "node_id (ns ! a) = node_id (ns ! b) \<longleftrightarrow> a = b" if "a < length ns" "b < length ns" for a b
    using nth_eq_iff_index_eq [OF dist_ns, of a b] that by simp
  have other: "f (ns ! k) = ns ! k" if "k < length ns" "k \<noteq> i" "k \<noteq> j" for k
    using that assms(3,4) by (simp add: assms(6) exchange_numbers_def ids)
  have fi: "f (ns ! i) = (ns ! i)\<lparr>display_order := Some (?num (ns ! j))\<rparr>"
    and fj: "f (ns ! j) = (ns ! j)\<lparr>display_order := Some (?num (ns ! i))\<rparr>"
    using assms(3-5) by (simp_all add: assms(6) exchange_numbers_def ids)
  have nums: "map ?num ?ms = map ?num ns"
    by (rule nth_equalityI) (use assms(3-5) other fi fj in \<open>auto simp: nth_list_update\<close>)
  have some: "display_order (f n) \<noteq> None" if "n \<in> set ns" for n
    using that assms(1) set_ns by (auto simp: assms(6) exchange_numbers_def well_numbered_def)
  have mset_ms: "mset ?ms = mset (map f (nodes s))"
  proof -
    have "mset ?ms = mset ((map f ns)[i := map f ns ! j, j := map f ns ! i])"
      using assms(3,4) by simp
    also have "\<dots> = mset (map f ns)"
      using assms(3,4) by (intro mset_swap) simp_all
    finally show ?thesis by (simp add: mset_ns)
  qed
  have "distinct (map ?num ns)"
  proof -
    have "inj_on ?num (set (nodes s))"
    proof (rule inj_onI)
      fix x y assume xy: "x \<in> set (nodes s)" "y \<in> set (nodes s)" "?num x = ?num y"
      then obtain a b where "display_order x = Some a" "display_order y = Some b"
        using assms(1) unfolding well_numbered_def by blast
      then have "display_order x = display_order y" using xy(3) by simp
      with xy assms(1) show "x = y" by (auto simp: well_numbered_def distinct_map inj_on_def)
    qed
    then show ?thesis
      using dist_ns set_ns by (simp add: distinct_map)
  qed
  then have inj: "inj_on ?num (set ?ms)" and "distinct ?ms"
    unfolding nums [symmetric] by (simp_all add: distinct_map)
  have set_ms: "set ?ms = set (map f (nodes s))"
    using mset_ms by (metis set_mset_mset)
  show "sort_key ?num (map f (nodes s)) = ?ms"
  proof (rule sort_key_inj_key_eq)
    show "mset (map f (nodes s)) = mset ?ms" using mset_ms by simp
    show "inj_on ?num (set (map f (nodes s)))" using inj set_ms by simp
    show "sorted (map ?num ?ms)" unfolding nums by (simp add: assms(2))
  qed
  have "distinct (map f (nodes s))"
    using \<open>distinct ?ms\<close> mset_ms by (metis mset_eq_imp_distinct_iff)
  moreover have "inj_on display_order (set (map f (nodes s)))"
    using inj set_ms by (auto simp: inj_on_def)
  ultimately show "distinct (map display_order (map f (nodes s)))"
    by (simp only: distinct_map)
qed

text \<open>
  A move inside the list exchanges the row with its neighbour in the reading order and touches nothing
  else; a move past either end changes nothing.
\<close>

definition neighbour_index :: "bool \<Rightarrow> nat \<Rightarrow> nat option" where
  "neighbour_index up pos = (if up then if pos = 0 then None else Some (pos - 1) else Some (pos + 1))"

lemma swap_display_order:
  assumes "well_numbered s" and "pos < length (nodes s)" and "nid = stack_display_order s ! pos"
  shows "stack_display_order (swap_with_neighbour s nid up) =
           (case neighbour_index up pos of
              Some q \<Rightarrow>
                if q < length (nodes s)
                then (stack_display_order s)[pos := stack_display_order s ! q, q := nid]
                else stack_display_order s
            | None \<Rightarrow> stack_display_order s)"
    and "well_numbered (swap_with_neighbour s nid up)"
proof -
  define ns where "ns = sort_key (\<lambda>n. the (display_order n)) (nodes s)"
  have order: "stack_display_order s = map node_id ns"
    using assms(1) unfolding ns_def well_numbered_def by (intro display_order_numbered) auto
  have len: "length ns = length (nodes s)" by (simp add: ns_def)
  have dist: "distinct (map node_id ns)"
    using assms(1) by (auto simp: well_numbered_def ns_def distinct_map)
  have at: "node s (node_id (ns ! k)) = Some (ns ! k)" if "k < length ns" for k
    using assms(1) that nth_mem [OF that] by (intro node_distinct) (simp_all add: well_numbered_def ns_def)
  have numb: "display_order (ns ! k) \<noteq> None" if "k < length ns" for k
    using assms(1) nth_mem [OF that] by (simp add: well_numbered_def ns_def)
  have pos: "position (\<lambda>i. i = nid) (map node_id ns) = Some pos"
    using position_distinct [OF dist, of pos] assms(2,3) len order by simp
  have edge: "swap_with_neighbour s nid up = s"
    if "neighbour_index up pos = None \<or> (\<exists>q. neighbour_index up pos = Some q \<and> \<not> q < length ns)"
    using that pos by (auto simp: swap_with_neighbour_def order neighbour_index_def split: if_splits)
  have inner: "stack_display_order (swap_with_neighbour s nid up) =
          (stack_display_order s)[pos := stack_display_order s ! q, q := nid]
        \<and> well_numbered (swap_with_neighbour s nid up)"
    if q: "neighbour_index up pos = Some q" "q < length ns" for q
  proof -
    have ne: "pos \<noteq> q" using q by (auto simp: neighbour_index_def split: if_splits)
    have pl: "pos < length ns" using assms(2) len by simp
    define f where "f = exchange_numbers (node_id (ns ! pos)) (node_id (ns ! q))
         (the (display_order (ns ! pos))) (the (display_order (ns ! q)))"
    have nid: "nid = node_id (ns ! pos)" using assms(3) order pl by simp
    have sw: "swap_with_neighbour s nid up = s\<lparr>nodes := map f (nodes s)\<rparr>"
      using pos q at [OF pl] at [OF q(2)] numb [OF pl] numb [OF q(2)]
      by (auto simp: swap_with_neighbour_def order neighbour_index_def [symmetric] nid f_def)
    note ex = sort_exchange [OF assms(1) ns_def pl q(2) ne f_def]
    have wn: "well_numbered (s\<lparr>nodes := map f (nodes s)\<rparr>)"
    proof -
      have "\<forall>n\<in>set (nodes s). display_order (f n) \<noteq> None"
        using assms(1) by (simp add: well_numbered_def f_def exchange_numbers_def)
      moreover have "node_id (f n) = node_id n" for n by (simp add: f_def)
      ultimately show ?thesis using ex(2) assms(1) by (simp add: well_numbered_def comp_def)
    qed
    have "stack_display_order (s\<lparr>nodes := map f (nodes s)\<rparr>) =
        map node_id (sort_key (\<lambda>n. the (display_order n)) (map f (nodes s)))"
      using wn by (subst display_order_numbered) (auto simp: well_numbered_def)
    also have "\<dots> = (map node_id ns)[pos := node_id (ns ! q), q := node_id (ns ! pos)]"
      using ex(1) by (simp add: map_update f_def comp_def)
    finally show ?thesis using wn sw order nid q(2) by simp
  qed
  show "stack_display_order (swap_with_neighbour s nid up) =
           (case neighbour_index up pos of
              Some q \<Rightarrow>
                if q < length (nodes s)
                then (stack_display_order s)[pos := stack_display_order s ! q, q := nid]
                else stack_display_order s
            | None \<Rightarrow> stack_display_order s)"
    using inner edge len by (auto split: option.splits)
  show "well_numbered (swap_with_neighbour s nid up)"
    using inner edge assms(1) by (cases "neighbour_index up pos") (auto, metis)
qed

subsection \<open>Numbering a stack that has no numbers\<close>

lemma find_assign_loop_other:
  "j \<notin> set is \<Longrightarrow> List.find (\<lambda>n. node_id n = j) (assign_loop is k ns) = List.find (\<lambda>n. node_id n = j) ns"
proof (induction "is" k ns rule: assign_loop.induct)
  case (2 i "is" k ns)
  then show ?case by (auto simp: find_update_first_other split: option.splits)
qed simp

lemma assign_loop_nth:
  assumes "distinct is" and "\<And>i. i \<in> set is \<Longrightarrow> \<exists>n. List.find (\<lambda>n. node_id n = i) ns = Some n \<and> display_order n = None"
    and "unat k + length is < 2 ^ 32" and "j < length is"
  shows "\<exists>n. List.find (\<lambda>n. node_id n = is ! j) (assign_loop is k ns) = Some n \<and>
           map_option unat (display_order n) = Some (unat k + j)"
  using assms
proof (induction "is" k ns arbitrary: j rule: assign_loop.induct)
  case (2 i "is" k ns)
  obtain n where n: "List.find (\<lambda>n. node_id n = i) ns = Some n" "display_order n = None"
    using "2.prems"(2) [of i] by auto
  let ?ns = "update_first (\<lambda>n. node_id n = i) (\<lambda>n. n\<lparr>display_order := Some k\<rparr>) ns"
  have step: "assign_loop (i # is) k ns = assign_loop is (saturating_inc k) ?ns"
    using n by simp
  have k: "k \<noteq> - 1" using "2.prems"(3) by auto
  have i: "i \<notin> set is" using "2.prems"(1) by simp
  show ?case
  proof (cases j)
    case 0
    then show ?thesis
      using n find_assign_loop_other [OF i, of "saturating_inc k" ?ns] by (simp add: step find_update_first_same)
  next
    case (Suc j')
    have "\<exists>n. List.find (\<lambda>n. node_id n = is ! j') (assign_loop is (saturating_inc k) ?ns) = Some n \<and>
        map_option unat (display_order n) = Some (unat (saturating_inc k) + j')"
    proof (rule "2.IH"(2) [OF n])
      show "\<exists>n. List.find (\<lambda>n. node_id n = i') ?ns = Some n \<and> display_order n = None" if "i' \<in> set is" for i'
      proof -
        have "i \<noteq> i'" using that i by blast
        then show ?thesis using "2.prems"(2) [of i'] that by (simp add: find_update_first_other)
      qed
    qed (use "2.prems"(1,3,4) Suc k in \<open>auto simp: unat_saturating_inc\<close>)
    then show ?thesis by (simp add: Suc step unat_saturating_inc [OF k] del: assign_loop.simps)
  qed
qed simp

lemma next_unnumbered: "list_all (\<lambda>n. display_order n = None) (nodes s) \<Longrightarrow> next_display_order s = 0"
  by (simp add: next_display_order_def map_filter_simps list_all_iff map_filter_def)

text \<open>On a stack without numbers, the reading order after numbering is the order of numbering.\<close>

lemma display_order_assigned:
  assumes "distinct (node_ids s)" and "list_all (\<lambda>n. display_order n = None) (nodes s)" and "length (nodes s) < 2 ^ 32"
  shows "stack_display_order (assign_missing_display_order s) = numbering_order s"
proof -
  let ?t = "assign_missing_display_order s" and ?is = "numbering_order s"
  have room: "has_room s" using assms(3) by (simp add: has_room_def next_unnumbered [OF assms(2)])
  have none: "numbers (nodes s) = []" using assms(2) by (auto simp: list_all_iff map_filter_def)
  have wn: "well_numbered ?t"
    by (rule assign_well_numbered [OF assms(1) _ room]) (simp add: none)
  have len: "length ?is = length (nodes s)"
    using mset_numbering_order [of s] by (metis length_map size_mset)
  have dist: "distinct ?is"
    using mset_numbering_order [of s] assms(1) by (metis mset_eq_imp_distinct_iff)
  define ns where "ns = map (\<lambda>i. the (node ?t i)) ?is"
  have at: "\<exists>n. node ?t (?is ! j) = Some n \<and> map_option unat (display_order n) = Some j" if j: "j < length ?is" for j
  proof -
    have "\<exists>n. List.find (\<lambda>n. node_id n = ?is ! j) (assign_loop ?is 0 (nodes s)) = Some n \<and>
        map_option unat (display_order n) = Some (unat (0 :: u32) + j)"
    proof (rule assign_loop_nth [OF dist])
      fix i assume "i \<in> set ?is"
      then have "node s i \<noteq> None" unfolding node_None set_numbering_order by simp
      then obtain n where n: "node s i = Some n" by blast
      then have "display_order n = None" using node_SomeD [OF n] assms(2) by (auto simp: list_all_iff)
      then show "\<exists>n. List.find (\<lambda>n. node_id n = i) (nodes s) = Some n \<and> display_order n = None"
        using n by (simp add: node_def)
    qed (use j assms(3) len in simp_all)
    then show ?thesis by (simp add: node_def assign_missing_display_order_def next_unnumbered [OF assms(2)])
  qed
  have nth: "node_id (ns ! j) = ?is ! j" "the (display_order (ns ! j)) = of_nat j" "ns ! j \<in> set (nodes ?t)"
    if j: "j < length ?is" for j
  proof -
    obtain n d where n: "node ?t (?is ! j) = Some n" "display_order n = Some d" "unat d = j"
      using at [OF j] by auto
    have "ns ! j = n" using j n(1) by (simp add: ns_def)
    then show "node_id (ns ! j) = ?is ! j" "the (display_order (ns ! j)) = of_nat j" "ns ! j \<in> set (nodes ?t)"
      using node_SomeD [OF n(1)] n(2,3) by auto
  qed
  have len_ns: "length ns = length ?is" by (simp add: ns_def)
  have ids: "map node_id ns = ?is" by (rule nth_equalityI) (simp_all add: len_ns nth)
  have "mset ns = mset (nodes ?t)"
  proof -
    have "set ns = set (nodes ?t)"
    proof
      show "set ns \<subseteq> set (nodes ?t)" using nth(3) len_ns by (auto simp: set_conv_nth)
      show "set (nodes ?t) \<subseteq> set ns"
      proof
        fix n assume n: "n \<in> set (nodes ?t)"
        then have "node ?t (node_id n) = Some n" using assms(1) by (intro node_distinct) simp_all
        moreover have "node_id n \<in> set (node_ids ?t)" using n unfolding set_map by (rule imageI)
        then have "node_id n \<in> set ?is" unfolding set_numbering_order node_ids_assign .
        ultimately show "n \<in> set ns" by (force simp: ns_def)
      qed
    qed
    moreover have "distinct ns" using dist ids by (metis distinct_map)
    moreover have "distinct (nodes ?t)" using assms(1) node_ids_assign [of s] by (metis distinct_map)
    ultimately show ?thesis by (simp add: set_eq_iff_mset_eq_distinct)
  qed
  moreover have "sorted (map (\<lambda>n. the (display_order n)) ns)"
    using nth(2) assms(3) len len_ns
    by (auto simp: sorted_iff_nth_mono_less word_le_nat_alt unat_of_nat)
  moreover have "inj_on (\<lambda>n. the (display_order n)) (set (nodes ?t))"
  proof (rule inj_onI)
    fix a b assume mem: "a \<in> set (nodes ?t)" "b \<in> set (nodes ?t)" and "the (display_order a) = the (display_order b)"
    moreover have "display_order a \<noteq> None" "display_order b \<noteq> None" "inj_on display_order (set (nodes ?t))"
      using wn mem by (auto simp: well_numbered_def distinct_map)
    ultimately have "display_order a = display_order b" by auto
    then show "a = b" using \<open>inj_on display_order (set (nodes ?t))\<close> mem by (auto dest: inj_onD)
  qed
  ultimately have "sort_key (\<lambda>n. the (display_order n)) (nodes ?t) = ns"
    by (intro sort_key_inj_key_eq) simp_all
  then show ?thesis
    using wn ids by (subst display_order_numbered) (auto simp: well_numbered_def)
qed

section \<open>Properties\<close>

text \<open>
  C5. Numbering a stack fills gaps only: the nodes keep their places and every other field, a number
  that is there is kept, every node of a stack with distinct ids ends up numbered, and numbering again
  changes nothing.
\<close>

theorem assign_fills_gaps:
  "map unnumbered (nodes (assign_missing_display_order s)) = map unnumbered (nodes s) \<and>
   keeps_numbers (nodes s) (nodes (assign_missing_display_order s)) \<and>
   (distinct (node_ids s) \<longrightarrow> None \<notin> set (map display_order (nodes (assign_missing_display_order s)))) \<and>
   assign_missing_display_order (assign_missing_display_order s) = assign_missing_display_order s"
proof -
  have "keeps_numbers (nodes s) (nodes (assign_missing_display_order s))"
    by (simp add: assign_missing_display_order_def assign_loop_keeps)
  moreover have "None \<notin> set (map display_order (nodes (assign_missing_display_order s)))" if "distinct (node_ids s)"
    using assign_all_numbered [OF that] by (metis imageE list.set_map)
  ultimately show ?thesis using assign_idempotent by simp
qed

theorem assign_fills_gaps_witness:
  "map display_order (nodes (assign_missing_display_order diamond)) = [Some 3, Some 1, Some 2, Some 0] \<and>
   None \<notin> set (map display_order (nodes (assign_missing_display_order diamond)))"
proof -
  have "distinct (node_ids diamond)" by (simp add: diamond_def sample_node_def)
  moreover have "map display_order (nodes (assign_missing_display_order diamond)) = [Some 3, Some 1, Some 2, Some 0]"
    by code_simp
  ultimately show ?thesis using assign_fills_gaps [of diamond] by blast
qed

text \<open>
  A stack that was never numbered reads, once numbered, with every parent before its children: the
  reading order is the order of numbering, and that order is topological.
\<close>

theorem numbered_reads_parents_first:
  assumes "distinct (node_ids s)" and "acyclic (parent_rel s)"
    and "list_all (\<lambda>n. display_order n = None) (nodes s)" and "length (nodes s) < 2 ^ 32"
  shows "topo_sorted (parent_rel s) (stack_display_order (assign_missing_display_order s))"
  using display_order_assigned [OF assms(1,3,4)] numbering_order_topo [OF assms(2,1)] by simp

theorem numbered_reads_parents_first_witness:
  "topo_sorted (parent_rel diamond) (stack_display_order (assign_missing_display_order diamond))"
  by (rule numbered_reads_parents_first)
    (use topo_order_Inr [OF topo_order_diamond] in \<open>simp_all add: diamond_def sample_node_def\<close>)

text \<open>
  C4. Moving a node of a fully numbered stack exchanges it with its neighbour in the reading order, above
  for \<open>up\<close> and below otherwise, and changes the place of no other node; a move past either end changes
  nothing. Only numbers change.
\<close>

theorem move_exchanges_neighbours:
  assumes "well_numbered s" and "pos < length (nodes s)" and "nid = stack_display_order s ! pos"
  shows "stack_display_order (swap_with_neighbour s nid up) =
           (case neighbour_index up pos of
              Some q \<Rightarrow>
                if q < length (nodes s)
                then (stack_display_order s)[pos := stack_display_order s ! q, q := nid]
                else stack_display_order s
            | None \<Rightarrow> stack_display_order s) \<and>
         map unnumbered (nodes (swap_with_neighbour s nid up)) = map unnumbered (nodes s) \<and>
         well_numbered (swap_with_neighbour s nid up)"
  using swap_display_order [OF assms] swap_unnumbered by blast

theorem move_exchanges_neighbours_witness:
  "stack_display_order (swap_with_neighbour (assign_missing_display_order diamond) ''n3'' True) =
     [''n1'', ''n3'', ''n2'', ''n4'']"
proof -
  let ?s = "assign_missing_display_order diamond"
  have wn: "well_numbered ?s" by code_simp
  have order: "stack_display_order ?s = [''n1'', ''n2'', ''n3'', ''n4'']" by code_simp
  have len: "length (nodes ?s) = 4" by code_simp
  show ?thesis
    using move_exchanges_neighbours [OF wn, of 2 "''n3''" True] by (simp add: order len neighbour_index_def)
qed

end
