(* ===== verification/Stack_Ops.thy ===== *)
theory Stack_Ops
  imports Stack_Order
begin

text \<open>
  The writers of the PR stack (\<open>tddy-pr-stack\<close>, \<open>stack_ops/mod.rs\<close> and \<open>stack_ops/nodes.rs\<close>): adding,
  editing and deleting a planned node, with the validation they share.

  Each writer reads the stack once to validate the request and then calls \<open>update_stack_atomic\<close>,
  which reads the file again before it applies the change. What other processes write in between is
  the argument \<open>others\<close>, a function on the directory tree; \<open>others = id\<close> is an undisturbed call. A
  writer answers its result and the tree it leaves.

  \<open>stack_inv\<close> is what the writers keep: distinct node ids, no parent id without a node, no cycle.
\<close>

section \<open>Shared validation\<close>

definition message_prefix :: "string \<Rightarrow> string" where
  "message_prefix op = (if op = [] then [] else op @ '': '')"

definition read_stack :: "'y yaml_io \<Rightarrow> 'y fs \<Rightarrow> string \<Rightarrow> string \<Rightarrow> string + stack" where
  "read_stack io fs dir op =
     map_err (\<lambda>e. op @ '': failed to read changeset: '' @ show_workflow_error e) (stored_stack io fs dir)"

fun validate_parents_loop ::
    "stack \<Rightarrow> string option \<Rightarrow> string \<Rightarrow> string list \<Rightarrow> string list \<Rightarrow> string + unit" where
  "validate_parents_loop s nid prefix seen [] = Inr ()"
| "validate_parents_loop s nid prefix seen (p # ps) =
     (if nid = Some p
      then Inl (prefix @ ''node '' @ quote_char @ p @ quote_char @ '' cannot be its own parent'')
      else if p \<notin> set (node_ids s) then Inl (prefix @ ''dangling parent ref: '' @ p)
      else if nid \<noteq> None \<and> p \<in> set seen
      then Inl (prefix @ ''parent '' @ quote_char @ p @ quote_char @ '' is named more than once'')
      else validate_parents_loop s nid prefix (seen @ [p]) ps)"

definition validate_parents :: "stack \<Rightarrow> string option \<Rightarrow> string list \<Rightarrow> string \<Rightarrow> string + unit" where
  "validate_parents s nid ps op = validate_parents_loop s nid (message_prefix op) [] ps"

definition reject_if_cyclic :: "stack \<Rightarrow> string \<Rightarrow> string + unit" where
  "reject_if_cyclic candidate op =
     (case topo_order candidate of
        Inl e \<Rightarrow> Inl (message_prefix op @ ''cycle detected: '' @ show_workflow_error e)
      | Inr _ \<Rightarrow> Inr ())"

text \<open>\<open>n.node_id.strip_prefix('n')?.parse::<u32>().ok()\<close>\<close>

definition numeric_suffix :: "string \<Rightarrow> nat option" where
  "numeric_suffix i = (case i of CHR ''n'' # digits \<Rightarrow> parse_uint (2 ^ 32 - 1) digits | _ \<Rightarrow> None)"

text \<open>The increment of the highest suffix is a \<open>u32\<close> addition; a release build wraps around.\<close>

definition next_free_node_id :: "stack \<Rightarrow> string" where
  "next_free_node_id s =
     (let highest = (case List.map_filter numeric_suffix (node_ids s) of [] \<Rightarrow> 0 | ns \<Rightarrow> Max (set ns))
      in ''n'' @ show_nat ((highest + 1) mod 2 ^ 32))"

definition append_node :: "stack_node \<Rightarrow> stack \<Rightarrow> stack_node \<times> stack" where
  "append_node new s =
     (let s1 = assign_missing_display_order s;
          appended = new\<lparr>display_order := Some (next_display_order s1)\<rparr>
      in (appended, s1\<lparr>nodes := nodes s1 @ [appended]\<rparr>))"

definition append_node_atomic ::
    "'y yaml_io \<Rightarrow> 'y fs \<Rightarrow> string \<Rightarrow> stack_node \<Rightarrow> string \<Rightarrow> (string + stack_node) \<times> 'y fs" where
  "append_node_atomic io fs dir new op =
     (case update_stack_atomic io fs dir (append_node new) of
        Inl e \<Rightarrow> (Inl (op @ '': failed to write stack: '' @ show_workflow_error e), fs)
      | Inr (appended, fs') \<Rightarrow> (Inr appended, fs'))"

section \<open>Adding a planned node\<close>

record add_planned_pr_input =
  in_title :: string
  in_description :: string
  in_branch_suggestion :: "string option"
  in_parents :: "string list"
  in_child_recipe :: "string option"

definition planned_node :: "string \<Rightarrow> add_planned_pr_input \<Rightarrow> stack_node" where
  "planned_node nid input =
     \<lparr>node_id = nid, title = in_title input, description = in_description input,
      branch_suggestion = in_branch_suggestion input, branch = None, session_id = None,
      parents = in_parents input, pr_status = None, child_state = None, internal_status = None,
      display_order = None\<rparr>"

definition add_planned_pr_node ::
    "'y yaml_io \<Rightarrow> ('y fs \<Rightarrow> 'y fs) \<Rightarrow> 'y fs \<Rightarrow> string \<Rightarrow> add_planned_pr_input \<Rightarrow> (string + stack_node) \<times> 'y fs"
  where
  "add_planned_pr_node io others fs dir input =
     (let op = ''add_planned_pr_node''
      in case read_stack io fs dir op of
           Inl e \<Rightarrow> (Inl e, fs)
         | Inr existing \<Rightarrow>
             (case validate_parents existing None (in_parents input) [] of
                Inl e \<Rightarrow> (Inl e, fs)
              | Inr _ \<Rightarrow>
                  (let new_node = planned_node (next_free_node_id existing) input
                   in case reject_if_cyclic (existing\<lparr>nodes := nodes existing @ [new_node]\<rparr>) [] of
                        Inl e \<Rightarrow> (Inl e, fs)
                      | Inr _ \<Rightarrow> append_node_atomic io (others fs) dir new_node op)))"

section \<open>Editing a node\<close>

record update_planned_pr_input =
  up_node_id :: string
  up_title :: "string option"
  up_description :: "string option"
  up_branch_suggestion :: "string option"

definition edit_node :: "update_planned_pr_input \<Rightarrow> stack_node \<Rightarrow> stack_node" where
  "edit_node input n =
     (let n1 = (case up_title input of None \<Rightarrow> n | Some t \<Rightarrow> n\<lparr>title := t\<rparr>);
          n2 = (case up_description input of None \<Rightarrow> n1 | Some d \<Rightarrow> n1\<lparr>description := d\<rparr>)
      in case up_branch_suggestion input of None \<Rightarrow> n2 | Some b \<Rightarrow> n2\<lparr>branch_suggestion := Some b\<rparr>)"

definition edit_stack :: "update_planned_pr_input \<Rightarrow> stack \<Rightarrow> stack_node option \<times> stack" where
  "edit_stack input s =
     (let s1 = assign_missing_display_order s;
          s2 = s1\<lparr>nodes := update_first (\<lambda>n. node_id n = up_node_id input) (edit_node input) (nodes s1)\<rparr>
      in (node s2 (up_node_id input), s2))"

definition update_planned_pr_node ::
    "'y yaml_io \<Rightarrow> ('y fs \<Rightarrow> 'y fs) \<Rightarrow> 'y fs \<Rightarrow> string \<Rightarrow> update_planned_pr_input
       \<Rightarrow> (string + stack_node) \<times> 'y fs" where
  "update_planned_pr_node io others fs dir input =
     (let op = ''update_planned_pr_node''; nid = up_node_id input
      in if up_title input = None \<and> up_description input = None \<and> up_branch_suggestion input = None
         then (Inl (op @ '': the update of node '' @ quote_char @ nid @ quote_char @
                    '' names no field to change '' @
                    ''(expected at least one of title, description, branch_suggestion)''), fs)
         else case read_stack io fs dir op of
                Inl e \<Rightarrow> (Inl e, fs)
              | Inr s \<Rightarrow>
                  (case node s nid of
                     None \<Rightarrow> (Inl (op @ '': node '' @ quote_char @ nid @ quote_char @ '' not found''), fs)
                   | Some n \<Rightarrow>
                       (case (branch n, up_branch_suggestion input) of
                          (Some b, Some suggestion) \<Rightarrow>
                            (Inl (op @ '': node '' @ quote_char @ nid @ quote_char @ '' already owns branch '' @
                                  quote_char @ b @ quote_char @
                                  '', so its branch_suggestion cannot be rewritten to '' @
                                  quote_char @ suggestion @ quote_char), fs)
                        | _ \<Rightarrow>
                            (case update_stack_atomic io (others fs) dir (edit_stack input) of
                               Inl e \<Rightarrow> (Inl (op @ '': failed to write stack: '' @ show_workflow_error e),
                                        others fs)
                             | Inr (updated, fs') \<Rightarrow>
                                 (ok_or (op @ '': node '' @ quote_char @ nid @ quote_char @
                                         '' vanished before the update was written'') updated, fs')))))"

section \<open>Deleting a node\<close>

fun push_new :: "string list \<Rightarrow> string list \<Rightarrow> string list" where
  "push_new [] acc = acc"
| "push_new (i # is) acc = push_new is (if i \<in> set acc then acc else acc @ [i])"

fun replace_parent :: "string \<Rightarrow> string list \<Rightarrow> string list \<Rightarrow> string list \<Rightarrow> string list" where
  "replace_parent nid inherited [] acc = acc"
| "replace_parent nid inherited (p # ps) acc =
     replace_parent nid inherited ps (push_new (if p = nid then inherited else [p]) acc)"

definition reparent :: "string \<Rightarrow> string list \<Rightarrow> stack_node \<Rightarrow> stack_node" where
  "reparent nid inherited child =
     (if nid \<in> set (parents child) then child\<lparr>parents := replace_parent nid inherited (parents child) []\<rparr>
      else child)"

definition remove_node_reparenting_children ::
    "string \<Rightarrow> stack \<Rightarrow> (stack_node \<times> string list) option \<times> stack" where
  "remove_node_reparenting_children nid s =
     (case position (\<lambda>n. node_id n = nid) (nodes s) of
        None \<Rightarrow> (None, s)
      | Some pos \<Rightarrow>
          (let removed = nodes s ! pos;
               rest = take pos (nodes s) @ drop (Suc pos) (nodes s);
               inherited = filter (\<lambda>p. p \<noteq> nid) (parents removed)
           in (Some (removed, map node_id (filter (\<lambda>n. nid \<in> set (parents n)) rest)),
               s\<lparr>nodes := map (reparent nid inherited) rest\<rparr>)))"

record deleted_node =
  del_node :: stack_node
  reparented_children :: "string list"
  orphaned_branch :: "string option"
  orphaned_session_id :: "string option"

definition delete_stack :: "string \<Rightarrow> stack \<Rightarrow> (stack_node \<times> string list) option \<times> stack" where
  "delete_stack nid s = remove_node_reparenting_children nid (assign_missing_display_order s)"

definition delete_planned_pr_node ::
    "'y yaml_io \<Rightarrow> ('y fs \<Rightarrow> 'y fs) \<Rightarrow> 'y fs \<Rightarrow> string \<Rightarrow> string \<Rightarrow> (string + deleted_node) \<times> 'y fs" where
  "delete_planned_pr_node io others fs dir nid =
     (let op = ''delete_planned_pr_node''
      in case read_stack io fs dir op of
           Inl e \<Rightarrow> (Inl e, fs)
         | Inr s \<Rightarrow>
             (case node s nid of
                None \<Rightarrow> (Inl (op @ '': node '' @ quote_char @ nid @ quote_char @ '' not found''), fs)
              | Some n \<Rightarrow>
                  if (case pr_status n of None \<Rightarrow> False | Some st \<Rightarrow> phase st = ''open'')
                  then (Inl (op @ '': node '' @ quote_char @ nid @ quote_char @ '' has an open pull request '' @
                             em_dash @ '' merge it with pr_merge or close it with pr_close first''), fs)
                  else
                    (case reject_if_cyclic (snd (remove_node_reparenting_children nid s)) op of
                       Inl e \<Rightarrow> (Inl e, fs)
                     | Inr _ \<Rightarrow>
                         (case update_stack_atomic io (others fs) dir (delete_stack nid) of
                            Inl e \<Rightarrow> (Inl (op @ '': failed to write stack: '' @ show_workflow_error e), others fs)
                          | Inr (None, fs') \<Rightarrow>
                              (Inl (op @ '': node '' @ quote_char @ nid @ quote_char @
                                    '' vanished before the delete was written''), fs')
                          | Inr (Some (removed, children), fs') \<Rightarrow>
                              (Inr \<lparr>del_node = removed, reparented_children = children,
                                    orphaned_branch = branch removed,
                                    orphaned_session_id = session_id removed\<rparr>, fs')))))"

section \<open>The invariant of the stack\<close>

definition no_dangling :: "stack \<Rightarrow> bool" where
  "no_dangling s \<longleftrightarrow> (\<forall>n\<in>set (nodes s). set (parents n) \<subseteq> set (node_ids s))"

definition stack_inv :: "stack \<Rightarrow> bool" where
  "stack_inv s \<longleftrightarrow> distinct (node_ids s) \<and> no_dangling s \<and> acyclic (parent_rel s)"

lemma reject_if_cyclic_Inr:
  "reject_if_cyclic s op = Inr u \<longleftrightarrow> distinct (node_ids s) \<and> acyclic (parent_rel s)"
  using topo_order_iff [of s] by (auto simp: reject_if_cyclic_def split: sum.splits)

lemma validate_parents_loop_Inr:
  "validate_parents_loop s nid prefix seen ps = Inr u \<Longrightarrow>
     set ps \<subseteq> set (node_ids s) \<and> (\<forall>i. nid = Some i \<longrightarrow> i \<notin> set ps \<and> distinct ps \<and> set ps \<inter> set seen = {})"
  by (induction s nid prefix seen ps rule: validate_parents_loop.induct) (auto split: if_splits)

lemma validate_parents_Inr:
  assumes "validate_parents s nid ps op = Inr u"
  shows "set ps \<subseteq> set (node_ids s)" and "nid = Some i \<Longrightarrow> i \<notin> set ps" and "nid = Some i \<Longrightarrow> distinct ps"
  using validate_parents_loop_Inr [OF assms [unfolded validate_parents_def]] by auto

lemma no_dangling_cong:
  assumes "map node_id (nodes s) = map node_id (nodes t)" and "map parents (nodes s) = map parents (nodes t)"
  shows "no_dangling s \<longleftrightarrow> no_dangling t"
proof -
  have eq: "no_dangling s \<longleftrightarrow> (\<forall>ps\<in>set (map parents (nodes s)). set ps \<subseteq> set (node_ids s))" for s
    by (simp add: no_dangling_def)
  show ?thesis unfolding eq assms ..
qed

lemma stack_inv_cong:
  assumes "map node_id (nodes s) = map node_id (nodes t)" and "map parents (nodes s) = map parents (nodes t)"
  shows "stack_inv s \<longleftrightarrow> stack_inv t"
  using no_dangling_cong [OF assms] parent_rel_cong [OF assms] assms(1) by (simp add: stack_inv_def)

lemma stack_inv_assign [simp]: "stack_inv (assign_missing_display_order s) \<longleftrightarrow> stack_inv s"
  using unnumbered_fields [OF nodes_assign] by (intro stack_inv_cong) auto

lemma stack_inv_swap [simp]: "stack_inv (swap_with_neighbour s nid up) \<longleftrightarrow> stack_inv s"
  using unnumbered_fields [OF swap_unnumbered] by (intro stack_inv_cong) auto

subsection \<open>Adding\<close>

lemma numeric_suffix_n: "numeric_suffix (''n'' @ ds) = parse_uint (2 ^ 32 - 1) ds"
  by (simp add: numeric_suffix_def)

lemma next_free_node_id_fresh:
  assumes "\<And>i. i \<in> set (node_ids s) \<Longrightarrow> numeric_suffix i \<noteq> Some (2 ^ 32 - 1)"
  shows "next_free_node_id s \<notin> set (node_ids s)"
proof
  assume mem: "next_free_node_id s \<in> set (node_ids s)"
  let ?sfx = "List.map_filter numeric_suffix (node_ids s)"
  define highest where "highest = (case ?sfx of [] \<Rightarrow> 0 | ns \<Rightarrow> Max (set ns))"
  have le: "n \<le> highest" if "n \<in> set ?sfx" for n
    using that by (cases ?sfx) (auto simp: highest_def)
  have bound: "n < 2 ^ 32 - 1" if sfx: "n \<in> set ?sfx" for n
  proof -
    obtain i where i: "i \<in> set (node_ids s)" "numeric_suffix i = Some n"
      using sfx unfolding set_map_filter by blast
    then have "n \<le> 2 ^ 32 - 1" "n \<noteq> 2 ^ 32 - 1"
      using assms [OF i(1)]
      by (auto simp: numeric_suffix_def parse_uint_def Let_def split: list.splits char.splits bool.splits
          if_splits option.splits)
    then show ?thesis by simp
  qed
  have "highest < 2 ^ 32 - 1"
  proof (cases ?sfx)
    case Nil
    then show ?thesis by (simp add: highest_def)
  next
    case (Cons a as)
    then have "highest = Max (set ?sfx)" by (simp add: highest_def)
    moreover have "Max (set ?sfx) \<in> set ?sfx" using Cons by (metis List.finite_set Max_in list.distinct(1) set_empty)
    ultimately show ?thesis using bound by metis
  qed
  then have "numeric_suffix (next_free_node_id s) = Some (highest + 1)"
    by (simp add: next_free_node_id_def highest_def [symmetric] numeric_suffix_n parse_uint_show_nat del: append.simps)
  then have "highest + 1 \<in> set ?sfx" using mem unfolding set_map_filter by auto
  then show False using le by fastforce
qed

lemma stack_inv_append:
  assumes "stack_inv s" and "node_id n \<notin> set (node_ids s)" and "set (parents n) \<subseteq> set (node_ids s)"
  shows "stack_inv (s\<lparr>nodes := nodes s @ [n]\<rparr>)"
proof -
  let ?t = "s\<lparr>nodes := nodes s @ [n]\<rparr>"
  obtain order where order: "set order = set (node_ids s)" "topo_sorted (parent_rel s) order"
    using topo_order_iff [of s] topo_order_Inr assms(1) by (metis stack_inv_def)
  have rel: "parent_rel ?t = parent_rel s \<union> set (parents n) \<times> {node_id n}"
    using assms by (auto simp: parent_rel_def stack_inv_def no_dangling_def) blast+
  have "topo_sorted (parent_rel ?t) (order @ [node_id n])"
    unfolding topo_sorted_snoc
  proof
    show "topo_sorted (parent_rel ?t) order"
      using order(1) assms(2) by (intro topo_sorted_mono_on [OF order(2)]) (auto simp: rel simp del: set_map)
    show "\<forall>x\<in>insert (node_id n) (set order). (node_id n, x) \<notin> parent_rel ?t"
      using assms(2,3) parent_rel_ids [of s] unfolding rel by auto
  qed
  moreover have "parent_rel ?t \<subseteq> set (order @ [node_id n]) \<times> set (order @ [node_id n])"
    using parent_rel_ids [of ?t] order(1) by auto
  ultimately have "acyclic (parent_rel ?t)" by (rule topo_sorted_acyclic)
  then show ?thesis using assms by (auto simp: stack_inv_def no_dangling_def)
qed

lemma append_node_inv:
  assumes "stack_inv s" and "node_id n \<notin> set (node_ids s)" and "set (parents n) \<subseteq> set (node_ids s)"
  shows "stack_inv (snd (append_node n s))"
  using stack_inv_append [of "assign_missing_display_order s" "n\<lparr>display_order := d\<rparr>" for d] assms
  by (simp add: append_node_def Let_def del: set_map)

subsection \<open>Editing\<close>

lemma edit_node_fields [simp]:
  "node_id (edit_node input n) = node_id n" "parents (edit_node input n) = parents n"
  "branch (edit_node input n) = branch n" "session_id (edit_node input n) = session_id n"
  "pr_status (edit_node input n) = pr_status n" "internal_status (edit_node input n) = internal_status n"
  by (auto simp: edit_node_def Let_def split: option.splits)

lemma edit_stack_inv: "stack_inv (snd (edit_stack input s)) \<longleftrightarrow> stack_inv s"
proof -
  have "stack_inv (snd (edit_stack input s)) \<longleftrightarrow> stack_inv (assign_missing_display_order s)"
    by (rule stack_inv_cong) (simp_all add: edit_stack_def Let_def iter_simps)
  then show ?thesis by simp
qed

subsection \<open>Deleting\<close>

lemma set_push_new: "set (push_new is acc) = set is \<union> set acc"
  by (induction "is" acc rule: push_new.induct) auto

lemma distinct_push_new: "distinct acc \<Longrightarrow> distinct (push_new is acc)"
  by (induction "is" acc rule: push_new.induct) auto

lemma set_replace_parent:
  "set (replace_parent nid inh ps acc) =
     set acc \<union> (set ps - {nid}) \<union> (if nid \<in> set ps then set inh else {})"
  by (induction nid inh ps acc rule: replace_parent.induct) (auto simp: set_push_new)

lemma distinct_replace_parent: "distinct acc \<Longrightarrow> distinct (replace_parent nid inh ps acc)"
  by (induction nid inh ps acc rule: replace_parent.induct) (auto simp: distinct_push_new)

lemma reparent_node_id [simp]: "node_id (reparent nid inh n) = node_id n"
  by (simp add: reparent_def)

lemma set_reparent:
  "set (parents (reparent nid inh n)) =
     (set (parents n) - {nid}) \<union> (if nid \<in> set (parents n) then set inh else {})"
  by (auto simp: reparent_def set_replace_parent)

lemma remove_node_found:
  assumes "distinct (node_ids s)" and "node s nid = Some n"
  shows "nodes (snd (remove_node_reparenting_children nid s)) =
      map (reparent nid (filter (\<lambda>p. p \<noteq> nid) (parents n))) (filter (\<lambda>m. node_id m \<noteq> nid) (nodes s))"
    and "fst (remove_node_reparenting_children nid s) =
      Some (n, map node_id (filter (\<lambda>m. node_id m \<noteq> nid \<and> nid \<in> set (parents m)) (nodes s)))"
proof -
  obtain pos where pos: "position (\<lambda>n. node_id n = nid) (nodes s) = Some pos"
    using assms(2) by (cases "position (\<lambda>n. node_id n = nid) (nodes s)") (auto simp: node_def find_position)
  have n: "n = nodes s ! pos" using assms(2) pos by (simp add: node_def find_position)
  have at: "pos < length (nodes s)" "node_id n = nid"
    using pos by (simp_all add: n position_Some)
  let ?rest = "take pos (nodes s) @ drop (Suc pos) (nodes s)"
  have split: "nodes s = take pos (nodes s) @ n # drop (Suc pos) (nodes s)"
    using id_take_nth_drop [OF at(1)] by (simp only: n)
  have "distinct (map node_id (take pos (nodes s) @ n # drop (Suc pos) (nodes s)))"
    by (simp only: split [symmetric] assms(1))
  then have "\<forall>m\<in>set ?rest. node_id m \<noteq> nid"
    using at(2) by (auto simp: image_iff)
  moreover have "filter (\<lambda>n. node_id n \<noteq> nid) (nodes s) = filter (\<lambda>n. node_id n \<noteq> nid) ?rest"
    by (subst split) (simp add: at(2))
  ultimately have rest: "?rest = filter (\<lambda>n. node_id n \<noteq> nid) (nodes s)"
    by simp
  have eq: "remove_node_reparenting_children nid s =
      (Some (n, map node_id (filter (\<lambda>n. nid \<in> set (parents n)) ?rest)),
       s\<lparr>nodes := map (reparent nid (filter (\<lambda>p. p \<noteq> nid) (parents n))) ?rest\<rparr>)"
    using pos by (simp add: remove_node_reparenting_children_def Let_def n)
  show "nodes (snd (remove_node_reparenting_children nid s)) =
      map (reparent nid (filter (\<lambda>p. p \<noteq> nid) (parents n))) (filter (\<lambda>m. node_id m \<noteq> nid) (nodes s))"
    unfolding eq rest by simp
  show "fst (remove_node_reparenting_children nid s) =
      Some (n, map node_id (filter (\<lambda>m. node_id m \<noteq> nid \<and> nid \<in> set (parents m)) (nodes s)))"
    unfolding eq rest by (simp add: conj_commute)
qed

text \<open>The parent relation after the delete is the old one with the node spliced out.\<close>

lemma parent_rel_mem:
  "(p, c) \<in> parent_rel s \<longleftrightarrow> (\<exists>m\<in>set (nodes s). node_id m = c \<and> p \<in> set (parents m)) \<and> p \<in> set (node_ids s)"
  by (auto simp: parent_rel_def)

lemma remove_node_parent_rel:
  assumes "distinct (node_ids s)" and "node s nid = Some n"
  shows "parent_rel (snd (remove_node_reparenting_children nid s)) = bypass (parent_rel s) nid"
proof -
  let ?inh = "filter (\<lambda>p. p \<noteq> nid) (parents n)"
  let ?rest = "filter (\<lambda>n. node_id n \<noteq> nid) (nodes s)"
  let ?t = "snd (remove_node_reparenting_children nid s)"
  note nodes_t = remove_node_found(1) [OF assms]
  have ids_t: "set (node_ids ?t) = set (node_ids s) - {nid}"
    by (auto simp: nodes_t image_iff)
  have n: "n \<in> set (nodes s)" "node_id n = nid" using node_SomeD [OF assms(2)] by auto
  have nid: "nid \<in> set (node_ids s)" using n by (metis imageI set_map)
  have only: "m = n" if "m \<in> set (nodes s)" "node_id m = nid" for m
    using that n assms(1) by (auto simp: distinct_map inj_on_def)
  have into: "(p, nid) \<in> parent_rel s \<longleftrightarrow> p \<in> set (parents n) \<and> p \<in> set (node_ids s)" for p
    unfolding parent_rel_mem using n only by blast
  have mem_t: "(\<exists>m\<in>set (nodes ?t). node_id m = c \<and> p \<in> set (parents m)) \<longleftrightarrow>
      (\<exists>m\<in>set (nodes s). node_id m \<noteq> nid \<and> node_id m = c \<and> p \<in> set (parents (reparent nid ?inh m)))" for p c
    unfolding nodes_t by auto
  have "(p, c) \<in> parent_rel ?t \<longleftrightarrow> (p, c) \<in> bypass (parent_rel s) nid" for p c
  proof -
    have "(p, c) \<in> parent_rel ?t \<longleftrightarrow> c \<noteq> nid \<and> p \<noteq> nid \<and> p \<in> set (node_ids s) \<and>
        (\<exists>m\<in>set (nodes s). node_id m = c \<and> (p \<in> set (parents m) \<or> nid \<in> set (parents m) \<and> p \<in> set (parents n)))"
      unfolding parent_rel_mem ids_t mem_t set_reparent by (auto simp del: set_map split: if_splits)
    also have "\<dots> \<longleftrightarrow> (p, c) \<in> bypass (parent_rel s) nid"
      unfolding bypass_def mem_Collect_eq prod.case into parent_rel_mem using nid n only by blast
    finally show ?thesis .
  qed
  then show ?thesis by auto
qed

lemma children_of_removed:
  assumes "stack_inv s" and "node s nid = Some n"
  shows "\<exists>cs. fst (remove_node_reparenting_children nid s) = Some (n, cs) \<and> set cs = {c. (nid, c) \<in> parent_rel s}"
proof -
  have dist: "distinct (node_ids s)" and "acyclic (parent_rel s)" using assms(1) by (auto simp: stack_inv_def)
  then have "(nid, nid) \<notin> parent_rel s" by (auto simp: acyclic_def)
  moreover have "nid \<in> set (node_ids s)" using node_None [of s nid] assms(2) by auto
  ultimately show ?thesis
    unfolding remove_node_found(2) [OF dist assms(2)] parent_rel_mem by (auto simp del: set_map) (auto simp: image_iff)
qed

lemma remove_node_ids:
  assumes "distinct (node_ids s)" and "node s nid = Some n"
  shows "node_ids (snd (remove_node_reparenting_children nid s)) = filter (\<lambda>i. i \<noteq> nid) (node_ids s)"
  by (simp add: remove_node_found(1) [OF assms] filter_map comp_def)

lemma remove_node_inv:
  assumes "stack_inv s"
  shows "stack_inv (snd (remove_node_reparenting_children nid s))"
proof (cases "node s nid")
  case None
  then have "position (\<lambda>n. node_id n = nid) (nodes s) = None"
    by (auto simp: node_None position_None)
  then show ?thesis using assms by (simp add: remove_node_reparenting_children_def)
next
  case (Some n)
  let ?t = "snd (remove_node_reparenting_children nid s)"
  have dist: "distinct (node_ids s)" and closed: "no_dangling s" and acyc: "acyclic (parent_rel s)"
    using assms by (auto simp: stack_inv_def)
  have ids: "set (node_ids ?t) = set (node_ids s) - {nid}"
    using remove_node_ids [OF dist Some] by (auto simp del: set_map)
  have "set (parents m) \<subseteq> set (node_ids ?t)" if m: "m \<in> set (nodes ?t)" for m
  proof -
    obtain k where "k \<in> set (nodes s)" "m = reparent nid (filter (\<lambda>p. p \<noteq> nid) (parents n)) k"
      using m unfolding remove_node_found(1) [OF dist Some] by auto
    then show ?thesis
      using closed node_SomeD [OF Some] unfolding ids no_dangling_def by (auto simp: set_reparent simp del: set_map)
  qed
  then have "no_dangling ?t" by (simp only: no_dangling_def) blast
  moreover have "acyclic (parent_rel ?t)"
    using bypass_acyclic [OF acyc] by (simp only: remove_node_parent_rel [OF dist Some])
  moreover have "distinct (node_ids ?t)" using dist by (simp only: remove_node_ids [OF dist Some] distinct_filter)
  ultimately show ?thesis by (simp only: stack_inv_def simp_thms)
qed

lemma delete_stack_inv: "stack_inv s \<Longrightarrow> stack_inv (snd (delete_stack nid s))"
  by (simp add: delete_stack_def remove_node_inv)

section \<open>The contract of a writer\<close>

text \<open>
  A writer is the closure it hands to \<open>update_stack_atomic\<close>. It promises that the closure keeps the
  invariant of the stack on the states \<open>pre\<close> admits; what the manifest then holds follows for all
  writers at once, whatever other processes wrote before the closure ran.
\<close>

locale stack_writer =
  fixes pre :: "stack \<Rightarrow> bool"
    and change :: "stack \<Rightarrow> 'r \<times> stack"
  assumes keeps_inv: "stack_inv s \<Longrightarrow> pre s \<Longrightarrow> stack_inv (snd (change s))"
begin

lemma written_inv:
  assumes "yaml_ok io" and "update_stack_atomic io fs dir change = Inr (r, fs')"
    and "stored_stack io fs dir = Inr s" and "stack_inv s" and "pre s"
  shows "stored_stack io fs' dir = Inr (snd (change s))" and "stack_inv (snd (change s))" and "r = fst (change s)"
  using update_stack_atomic_Inr [OF assms(1,2)] assms(3,4,5) by (auto intro: keeps_inv)

lemma elsewhere_inv:
  assumes "update_stack_atomic io fs dir change = Inr (r, fs')" and "d \<noteq> dir"
  shows "stored_stack io fs' d = stored_stack io fs d"
  using update_stack_atomic_other [OF assms] by (simp add: stored_stack_def)

end

lemma update_first_inv:
  assumes "\<And>n. node_id (f n) = node_id n" and "\<And>n. parents (f n) = parents n"
  shows "stack_inv (s\<lparr>nodes := update_first P f (nodes s)\<rparr>) \<longleftrightarrow> stack_inv s"
  by (rule stack_inv_cong) (simp_all add: map_update_first assms)

interpretation append_writer: stack_writer
  "\<lambda>s. node_id n \<notin> set (node_ids s) \<and> set (parents n) \<subseteq> set (node_ids s)" "append_node n"
  by unfold_locales (simp add: append_node_inv del: set_map)

interpretation edit_writer: stack_writer "\<lambda>_. True" "edit_stack input"
  by unfold_locales (simp add: edit_stack_inv)

interpretation delete_writer: stack_writer "\<lambda>_. True" "delete_stack nid"
  by unfold_locales (rule delete_stack_inv)

interpretation move_writer: stack_writer "\<lambda>_. True" "move_stack nid direction"
  by unfold_locales (simp add: move_stack_def)

interpretation link_writer: stack_writer "\<lambda>_. True" "link_stack nid child br"
  by unfold_locales (simp add: link_stack_def update_first_inv)

interpretation sync_writer: stack_writer "\<lambda>_. True" "sync_stack nid child"
  by unfold_locales (simp add: sync_stack_def update_first_inv)

section \<open>The operations on the manifest\<close>

lemma read_stack_Inr [simp]: "read_stack io fs dir op = Inr s \<longleftrightarrow> stored_stack io fs dir = Inr s"
  by (simp add: read_stack_def map_err_Inr)

lemma add_accepted:
  assumes "add_planned_pr_node io others fs dir input = (Inr n, fs')"
  obtains s where "stored_stack io fs dir = Inr s" and "set (in_parents input) \<subseteq> set (node_ids s)"
    and "next_free_node_id s \<notin> set (node_ids s)"
    and "update_stack_atomic io (others fs) dir (append_node (planned_node (next_free_node_id s) input)) = Inr (n, fs')"
proof -
  obtain s where s: "stored_stack io fs dir = Inr s"
    using assms by (auto simp: add_planned_pr_node_def Let_def split: sum.splits)
  let ?new = "planned_node (next_free_node_id s) input"
  have "validate_parents s None (in_parents input) [] = Inr ()"
    and cyc: "reject_if_cyclic (s\<lparr>nodes := nodes s @ [?new]\<rparr>) [] = Inr ()"
    and w: "append_node_atomic io (others fs) dir ?new ''add_planned_pr_node'' = (Inr n, fs')"
    using assms s by (auto simp: add_planned_pr_node_def Let_def split: sum.splits)
  then have "set (in_parents input) \<subseteq> set (node_ids s)" by (blast dest: validate_parents_Inr(1))
  moreover have "next_free_node_id s \<notin> set (node_ids s)"
    using cyc by (simp add: reject_if_cyclic_Inr planned_node_def)
  moreover have "update_stack_atomic io (others fs) dir (append_node ?new) = Inr (n, fs')"
    using w by (auto simp: append_node_atomic_def split: sum.splits)
  ultimately show thesis using s by (intro that)
qed

lemma edit_accepted:
  assumes "update_planned_pr_node io others fs dir input = (Inr n, fs')"
  shows "update_stack_atomic io (others fs) dir (edit_stack input) = Inr (Some n, fs')"
    and "\<exists>s m. stored_stack io fs dir = Inr s \<and> node s (up_node_id input) = Some m \<and>
           (branch m = None \<or> up_branch_suggestion input = None)"
  using assms
  by (auto simp: update_planned_pr_node_def Let_def ok_or_Inr split: if_splits sum.splits option.splits prod.splits)

lemma delete_accepted:
  assumes "delete_planned_pr_node io others fs dir nid = (Inr d, fs')"
  shows "update_stack_atomic io (others fs) dir (delete_stack nid) =
           Inr (Some (del_node d, reparented_children d), fs')"
    and "orphaned_branch d = branch (del_node d)" and "orphaned_session_id d = session_id (del_node d)"
    and "\<exists>s n. stored_stack io fs dir = Inr s \<and> node s nid = Some n \<and>
           (\<forall>st. pr_status n = Some st \<longrightarrow> phase st \<noteq> ''open'')"
  using assms
  by (auto simp: delete_planned_pr_node_def Let_def split: if_splits sum.splits option.splits prod.splits)

lemma move_accepted:
  assumes "move_planned_pr_node io others fs dir nid direction = (Inr t, fs')"
  shows "update_stack_atomic io (others fs) dir (move_stack nid direction) = Inr ((), fs')"
    and "stored_stack io fs' dir = Inr t" and "direction = ''up'' \<or> direction = ''down''"
    and "\<exists>s n. stored_stack io fs dir = Inr s \<and> node s nid = Some n"
  using assms
  by (auto simp: move_planned_pr_node_def Let_def split: if_splits sum.splits option.splits prod.splits)

text \<open>An undisturbed writer that refuses leaves the tree as it was.\<close>

lemma add_refused: "add_planned_pr_node io id fs dir input = (Inl e, fs') \<Longrightarrow> fs' = fs"
  by (auto simp: add_planned_pr_node_def append_node_atomic_def Let_def split: sum.splits prod.splits)

lemma edit_refused:
  assumes "yaml_ok io" and "update_planned_pr_node io id fs dir input = (Inl e, fs')"
  shows "fs' = fs"
proof (cases "\<exists>r. update_stack_atomic io fs dir (edit_stack input) = Inr (r, fs')")
  case False
  then show ?thesis
    using assms(2) by (auto simp: update_planned_pr_node_def Let_def split: if_splits sum.splits option.splits prod.splits)
next
  case True
  then obtain r where r: "update_stack_atomic io fs dir (edit_stack input) = Inr (r, fs')" by blast
  obtain s where s: "stored_stack io fs dir = Inr s" "r = fst (edit_stack input s)"
    using update_stack_atomic_Inr [OF assms(1) r] by blast
  have "r \<noteq> None" if "node s (up_node_id input) \<noteq> None"
    using that by (auto simp: s edit_stack_def Let_def node_None map_update_first simp del: set_map)
  then show ?thesis
    using assms(2) r s(1)
    by (auto simp: update_planned_pr_node_def Let_def ok_or_Inl split: if_splits sum.splits option.splits prod.splits)
qed

lemma delete_refused:
  assumes "yaml_ok io" and "delete_planned_pr_node io id fs dir nid = (Inl e, fs')"
  shows "fs' = fs"
proof (cases "\<exists>r. update_stack_atomic io fs dir (delete_stack nid) = Inr (r, fs')")
  case False
  then show ?thesis
    using assms(2) by (auto simp: delete_planned_pr_node_def Let_def split: if_splits sum.splits option.splits prod.splits)
next
  case True
  then obtain r where r: "update_stack_atomic io fs dir (delete_stack nid) = Inr (r, fs')" by blast
  obtain s where s: "stored_stack io fs dir = Inr s" "r = fst (delete_stack nid s)"
    using update_stack_atomic_Inr [OF assms(1) r] by blast
  have "r \<noteq> None" if "node s nid \<noteq> None"
  proof -
    have "position (\<lambda>n. node_id n = nid) (nodes (assign_missing_display_order s)) \<noteq> None"
      using that node_ids_assign [of s] unfolding node_None position_None by (metis (mono_tags) imageE set_map)
    then show ?thesis by (auto simp: s delete_stack_def remove_node_reparenting_children_def Let_def)
  qed
  then show ?thesis
    using assms(2) r s(1)
    by (auto simp: delete_planned_pr_node_def Let_def split: if_splits sum.splits option.splits prod.splits)
qed

lemma move_refused:
  assumes "yaml_ok io" and "move_planned_pr_node io id fs dir nid direction = (Inl e, fs')"
  shows "fs' = fs"
  using assms(2) update_stack_atomic_Inr [OF assms(1)]
  by (fastforce simp: move_planned_pr_node_def Let_def split: if_splits sum.splits option.splits prod.splits)

lemma validate_parents_loop_ok:
  "set ps \<subseteq> set (node_ids s) \<Longrightarrow> validate_parents_loop s None prefix seen ps = Inr ()"
  by (induction ps arbitrary: seen) auto

lemma validate_parents_ok: "set ps \<subseteq> set (node_ids s) \<Longrightarrow> validate_parents s None ps op = Inr ()"
  by (simp add: validate_parents_def validate_parents_loop_ok del: set_map)

lemma reject_if_cyclic_ok: "stack_inv s \<Longrightarrow> reject_if_cyclic s op = Inr ()"
  using reject_if_cyclic_Inr [of s op "()"] by (simp add: stack_inv_def)

text \<open>The highest numeric id is in use: the next one wraps around.\<close>

definition ids_exhausted :: "stack \<Rightarrow> bool" where
  "ids_exhausted s \<longleftrightarrow> list_ex (\<lambda>i. numeric_suffix i = Some (2 ^ 32 - 1)) (node_ids s)"

lemma next_free_fresh: "\<not> ids_exhausted s \<Longrightarrow> next_free_node_id s \<notin> set (node_ids s)"
  by (rule next_free_node_id_fresh) (auto simp: ids_exhausted_def list_ex_iff simp del: set_map)

lemma add_succeeds:
  assumes "yaml_ok io" and "writable io" and "stored_stack io fs dir = Inr s" and "stack_inv s"
    and "set (in_parents input) \<subseteq> set (node_ids s)" and "\<not> ids_exhausted s"
    and "stored_stack io (others fs) dir = Inr s'"
  defines "change \<equiv> append_node (planned_node (next_free_node_id s) input)"
  obtains fs' where "add_planned_pr_node io others fs dir input = (Inr (fst (change s')), fs')"
    and "stored_stack io fs' dir = Inr (snd (change s'))"
proof -
  let ?new = "planned_node (next_free_node_id s) input"
  have "stack_inv (s\<lparr>nodes := nodes s @ [?new]\<rparr>)"
    using assms(4,5) next_free_fresh [OF assms(6)] by (intro stack_inv_append) (simp_all add: planned_node_def del: set_map)
  then have cyc: "reject_if_cyclic (s\<lparr>nodes := nodes s @ [?new]\<rparr>) [] = Inr ()" by (rule reject_if_cyclic_ok)
  obtain fs' where w: "update_stack_atomic io (others fs) dir change = Inr (fst (change s'), fs')"
    using update_stack_atomic_total [OF assms(2,7)] by blast
  have "stored_stack io fs' dir = Inr (snd (change s'))"
    using update_stack_atomic_Inr [OF assms(1) w] assms(7) by auto
  moreover have "read_stack io fs dir ''add_planned_pr_node'' = Inr s" using assms(3) by simp
  then have "add_planned_pr_node io others fs dir input = (Inr (fst (change s')), fs')"
    unfolding add_planned_pr_node_def Let_def append_node_atomic_def
    by (simp add: validate_parents_ok [OF assms(5)] cyc w [unfolded change_def] change_def del: read_stack_Inr)
  ultimately show thesis by (rule that [rotated])
qed

lemma append_node_result:
  "fst (append_node n s) = n\<lparr>display_order := Some (next_display_order (assign_missing_display_order s))\<rparr>"
  "nodes (snd (append_node n s)) = nodes (assign_missing_display_order s) @ [fst (append_node n s)]"
  by (simp_all add: append_node_def Let_def)

section \<open>Properties\<close>

text \<open>
  C3. On a well-formed stack whose numeric ids are not exhausted, \<open>add_planned_pr_node\<close> is accepted exactly
  when every named parent is a node. It then stores the numbered stack with one node more, under an id
  no node has, with the parents asked for, and the stack stays well-formed.
\<close>

theorem add_planned_pr_node_total:
  assumes "yaml_ok io" and "writable io" and "stored_stack io fs dir = Inr s" and "stack_inv s" and "\<not> ids_exhausted s"
  shows "if set (in_parents input) \<subseteq> set (node_ids s)
         then \<exists>n fs' t. add_planned_pr_node io id fs dir input = (Inr n, fs') \<and> stored_stack io fs' dir = Inr t \<and>
                nodes t = nodes (assign_missing_display_order s) @ [n] \<and> node_id n \<notin> set (node_ids s) \<and>
                parents n = in_parents input \<and> title n = in_title input \<and> stack_inv t
         else \<exists>e. add_planned_pr_node io id fs dir input = (Inl e, fs)"
proof (cases "set (in_parents input) \<subseteq> set (node_ids s)")
  case True
  let ?new = "planned_node (next_free_node_id s) input"
  obtain fs' where "add_planned_pr_node io id fs dir input = (Inr (fst (append_node ?new s)), fs')"
    and "stored_stack io fs' dir = Inr (snd (append_node ?new s))"
    by (rule add_succeeds [OF assms(1-4) True assms(5), of id s]) (use assms(3) in simp_all)
  moreover have "stack_inv (snd (append_node ?new s))"
    using assms(4) True next_free_fresh [OF assms(5)] by (intro append_node_inv) (simp_all add: planned_node_def del: set_map)
  ultimately show ?thesis
    using True next_free_fresh [OF assms(5)] by (auto simp: append_node_result planned_node_def simp del: set_map)
next
  case False
  obtain e where "add_planned_pr_node io id fs dir input = (Inl e, fs)"
  proof (cases "add_planned_pr_node io id fs dir input")
    case (Pair r fs')
    then show ?thesis
    proof (cases r)
      case (Inl e)
      with Pair show ?thesis using add_refused [of io fs dir input e fs'] that by simp
    next
      case (Inr n)
      then show ?thesis using add_accepted [OF Pair [unfolded Inr]] assms(3) False by auto
    qed
  qed
  with False show ?thesis by auto
qed

lemma diamond_inv: "stack_inv diamond" "\<not> ids_exhausted diamond"
proof -
  have "no_dangling diamond" by code_simp
  then show "stack_inv diamond" using topo_order_Inr [OF topo_order_diamond] by (simp add: stack_inv_def)
  show "\<not> ids_exhausted diamond"
    by (simp add: ids_exhausted_def diamond_def sample_node_def numeric_suffix_def parse_uint_def is_digit_def)
qed

definition sample_input :: "string list \<Rightarrow> add_planned_pr_input" where
  "sample_input ps = \<lparr>in_title = ''new'', in_description = [], in_branch_suggestion = None, in_parents = ps,
     in_child_recipe = None\<rparr>"

theorem add_planned_pr_node_total_witness:
  "(\<exists>n fs' t. add_planned_pr_node sample_io id (sample_fs diamond) ''orch'' (sample_input [''n4'']) = (Inr n, fs') \<and>
      stored_stack sample_io fs' ''orch'' = Inr t \<and> stack_inv t \<and> parents n = [''n4'']) \<and>
   (\<exists>e. add_planned_pr_node sample_io id (sample_fs diamond) ''orch'' (sample_input [''n9'']) = (Inl e, sample_fs diamond))"
  using add_planned_pr_node_total [OF sample_io_ok stored_sample diamond_inv, of "sample_input [''n4'']"]
    add_planned_pr_node_total [OF sample_io_ok stored_sample diamond_inv, of "sample_input [''n9'']"]
  by (auto simp: sample_input_def diamond_def sample_node_def)

lemma delete_spliced:
  assumes "yaml_ok io" and "delete_planned_pr_node io id fs dir nid = (Inr d, fs')"
    and "stored_stack io fs dir = Inr s" and "stack_inv s"
  shows "\<exists>t. stored_stack io fs' dir = Inr t \<and> stack_inv t \<and>
           node_ids t = filter (\<lambda>i. i \<noteq> nid) (node_ids s) \<and>
           (\<forall>a b. (a, b) \<in> (parent_rel t)\<^sup>+ \<longleftrightarrow> (a, b) \<in> (parent_rel s)\<^sup>+ \<and> a \<noteq> nid \<and> b \<noteq> nid) \<and>
           set (reparented_children d) = {c. (nid, c) \<in> parent_rel s}"
proof -
  let ?u = "assign_missing_display_order s" and ?t = "snd (delete_stack nid s)"
  note acc = delete_accepted [OF assms(2)]
  have w: "update_stack_atomic io fs dir (delete_stack nid) = Inr (Some (del_node d, reparented_children d), fs')"
    using acc(1) by simp
  note t = delete_writer.written_inv [OF assms(1) w assms(3,4) TrueI]
  have inv_u: "stack_inv ?u" using assms(4) by simp
  then have dist: "distinct (node_ids ?u)" by (simp only: stack_inv_def)
  obtain n where n: "node ?u nid = Some n"
    using acc(4) assms(3) node_None [of s nid] node_None [of ?u nid] by (cases "node ?u nid") auto
  have ids: "node_ids ?t = filter (\<lambda>i. i \<noteq> nid) (node_ids s)"
    using remove_node_ids [OF dist n] by (simp add: delete_stack_def)
  have rel: "parent_rel ?t = bypass (parent_rel s) nid"
    using remove_node_parent_rel [OF dist n] by (simp add: delete_stack_def)
  have "set (reparented_children d) = {c. (nid, c) \<in> parent_rel s}"
    using t(3) children_of_removed [OF inv_u n] by (auto simp: delete_stack_def)
  then show ?thesis using t(1,2) ids by (intro exI [of _ ?t]) (simp add: rel bypass_trancl)
qed

definition has_open_pr :: "stack_node \<Rightarrow> bool" where
  "has_open_pr n \<longleftrightarrow> (case pr_status n of None \<Rightarrow> False | Some st \<Rightarrow> phase st = ''open'')"

lemma delete_succeeds:
  assumes "writable io" and "stored_stack io fs dir = Inr s" and "stack_inv s"
    and "node s nid = Some n" and "\<not> has_open_pr n"
  shows "\<exists>d fs'. delete_planned_pr_node io id fs dir nid = (Inr d, fs')"
proof -
  obtain fs' where w: "update_stack_atomic io (id fs) dir (delete_stack nid) = Inr (fst (delete_stack nid s), fs')"
    using update_stack_atomic_total [OF assms(1,2)] by auto
  have inv_u: "stack_inv (assign_missing_display_order s)" using assms(3) by simp
  obtain m where "node (assign_missing_display_order s) nid = Some m"
    using assms(4) node_None [of s nid] node_None [of "assign_missing_display_order s" nid]
    by (cases "node (assign_missing_display_order s) nid") auto
  then obtain cs where r: "fst (delete_stack nid s) = Some (m, cs)"
    using children_of_removed [OF inv_u] unfolding delete_stack_def by blast
  have "read_stack io fs dir ''delete_planned_pr_node'' = Inr s" using assms(2) by simp
  then show ?thesis
    using assms(4,5) w reject_if_cyclic_ok [OF remove_node_inv [OF assms(3)]]
    by (simp add: delete_planned_pr_node_def Let_def has_open_pr_def r del: read_stack_Inr)
qed

text \<open>
  C2. On a well-formed stack a delete is refused, with nothing changed, when the node is missing or has an
  open pull request. Otherwise it splices the node out: the other nodes keep their order and their
  ancestry among each other, nothing descends from or leads to the deleted node any more, the stack stays
  well-formed, and the children reported as re-parented are exactly those the node was a parent of.
\<close>

theorem delete_planned_pr_node_total:
  assumes "yaml_ok io" and "writable io" and "stored_stack io fs dir = Inr s" and "stack_inv s"
  shows "if (\<exists>n. node s nid = Some n \<and> \<not> has_open_pr n)
         then \<exists>d fs' t. delete_planned_pr_node io id fs dir nid = (Inr d, fs') \<and> stored_stack io fs' dir = Inr t \<and>
                stack_inv t \<and> node_ids t = filter (\<lambda>i. i \<noteq> nid) (node_ids s) \<and>
                (\<forall>a b. (a, b) \<in> (parent_rel t)\<^sup>+ \<longleftrightarrow> (a, b) \<in> (parent_rel s)\<^sup>+ \<and> a \<noteq> nid \<and> b \<noteq> nid) \<and>
                set (reparented_children d) = {c. (nid, c) \<in> parent_rel s}
         else \<exists>e. delete_planned_pr_node io id fs dir nid = (Inl e, fs)"
proof (cases "\<exists>n. node s nid = Some n \<and> \<not> has_open_pr n")
  case True
  then obtain d fs' where d: "delete_planned_pr_node io id fs dir nid = (Inr d, fs')"
    using delete_succeeds [OF assms(2-4)] by blast
  from delete_spliced [OF assms(1) d assms(3,4)] d True show ?thesis by simp
next
  case False
  have "read_stack io fs dir ''delete_planned_pr_node'' = Inr s" using assms(3) by simp
  with False show ?thesis
    by (auto simp: delete_planned_pr_node_def Let_def has_open_pr_def simp del: read_stack_Inr split: option.splits)
qed

theorem delete_planned_pr_node_total_witness:
  "\<exists>d fs' t. delete_planned_pr_node sample_io id (sample_fs diamond) ''orch'' ''n2'' = (Inr d, fs') \<and>
     stored_stack sample_io fs' ''orch'' = Inr t \<and> stack_inv t \<and> node_ids t = [''n4'', ''n3'', ''n1'']"
proof -
  have "node diamond ''n2'' = Some (sample_node ''n2'' [''n1''])" "\<not> has_open_pr (sample_node ''n2'' [''n1''])"
    "filter (\<lambda>i. i \<noteq> ''n2'') (node_ids diamond) = [''n4'', ''n3'', ''n1'']"
    by (simp_all add: node_def diamond_def sample_node_def has_open_pr_def)
  then show ?thesis
    using delete_planned_pr_node_total [OF sample_io_ok stored_sample diamond_inv(1), of "''n2''"] by auto
qed

text \<open>
  Two adds that validate against the same snapshot collide: when another add is stored between the
  validation read and the write of the first, both succeed under the same id, and from then on the
  stack has no topological order and every reader that orders it reports an invalid changeset.
\<close>

theorem concurrent_adds_collide:
  assumes "yaml_ok io" and "writable io" and "stored_stack io fs dir = Inr s" and "stack_inv s" and "\<not> ids_exhausted s"
    and "set (in_parents a) \<subseteq> set (node_ids s)" and "set (in_parents b) \<subseteq> set (node_ids s)"
  shows "\<exists>n fs' t. add_planned_pr_node io (\<lambda>fs. snd (add_planned_pr_node io id fs dir b)) fs dir a = (Inr n, fs') \<and>
           stored_stack io fs' dir = Inr t \<and> \<not> distinct (node_ids t) \<and>
           (\<exists>m. topo_order t = Inl (ChangesetInvalid m))"
proof -
  let ?i = "next_free_node_id s"
  let ?s1 = "snd (append_node (planned_node ?i b) s)"
  let ?t = "snd (append_node (planned_node ?i a) ?s1)"
  obtain fs1 where b: "add_planned_pr_node io id fs dir b = (Inr (fst (append_node (planned_node ?i b) s)), fs1)"
      "stored_stack io fs1 dir = Inr ?s1"
    by (rule add_succeeds [OF assms(1-4,7,5), of id s]) (use assms(3) in simp_all)
  let ?others = "\<lambda>fs. snd (add_planned_pr_node io id fs dir b)"
  obtain fs2 where a: "add_planned_pr_node io ?others fs dir a = (Inr (fst (append_node (planned_node ?i a) ?s1)), fs2)"
      "stored_stack io fs2 dir = Inr ?t"
    by (rule add_succeeds [OF assms(1-4,6,5), of ?others ?s1]) (use b in simp_all)
  have "node_ids ?s1 = node_ids s @ [?i]"
    by (simp add: append_node_result planned_node_def)
  then have "node_ids ?t = node_ids s @ [?i, ?i]"
    by (simp add: append_node_result planned_node_def)
  then have dup: "\<not> distinct (node_ids ?t)" by simp
  have "\<exists>m. topo_order ?t = Inl (ChangesetInvalid m)"
    by (rule topo_order_run [of ?t]) (use dup topo_order_Inr(3) [of ?t] in blast)
  with a dup show ?thesis by blast
qed

theorem concurrent_adds_collide_witness:
  "\<exists>n fs' t. add_planned_pr_node sample_io (\<lambda>fs. snd (add_planned_pr_node sample_io id fs ''orch'' (sample_input [])))
       (sample_fs diamond) ''orch'' (sample_input [''n4'']) = (Inr n, fs') \<and>
     stored_stack sample_io fs' ''orch'' = Inr t \<and> \<not> distinct (node_ids t) \<and>
     (\<exists>m. topo_order t = Inl (ChangesetInvalid m))"
  by (rule concurrent_adds_collide [OF sample_io_ok stored_sample diamond_inv])
    (simp_all add: sample_input_def diamond_def sample_node_def)

end
