(* ===== verification/Effects.thy ===== *)
theory Effects
  imports Rust_Str
begin

text \<open>
  Code that runs commands and may fail: a step takes the state of the outside world and answers a
  result and the state it leaves. The combinators are the \<open>?\<close> operator, \<open>map_err\<close> and \<open>.ok()\<close>.

  The outside world is a parameter: the record \<open>world\<close> says how a \<open>git\<close> command, a file test and the
  few directory operations the code uses behave, on a state of any type. Nothing is assumed of them
  unless a theorem says so. \<open>logged\<close> turns a world into one that also keeps the list of commands run;
  \<open>only\<close> says that every command a step runs satisfies a predicate.
\<close>

type_synonym ('w, 'e, 'a) io = "'w \<Rightarrow> ('e + 'a) \<times> 'w"

definition ret :: "'a \<Rightarrow> ('w, 'e, 'a) io" where
  "ret a w = (Inr a, w)"

definition fail :: "'e \<Rightarrow> ('w, 'e, 'a) io" where
  "fail e w = (Inl e, w)"

definition and_then :: "('w, 'e, 'a) io \<Rightarrow> ('a \<Rightarrow> ('w, 'e, 'b) io) \<Rightarrow> ('w, 'e, 'b) io" where
  "and_then m f w = (case m w of (Inl e, w') \<Rightarrow> (Inl e, w') | (Inr a, w') \<Rightarrow> f a w')"

definition on_err :: "('e \<Rightarrow> 'f) \<Rightarrow> ('w, 'e, 'a) io \<Rightarrow> ('w, 'f, 'a) io" where
  "on_err f m w = (case m w of (r, w') \<Rightarrow> (map_err f r, w'))"

text \<open>Run a step and take its result as a value: \<open>match\<close>, \<open>.ok()\<close>, \<open>let _ =\<close>.\<close>

definition attempt :: "('w, 'e, 'a) io \<Rightarrow> ('w, 'f, 'e + 'a) io" where
  "attempt m w = (case m w of (r, w') \<Rightarrow> (Inr r, w'))"

definition of_result :: "'e + 'a \<Rightarrow> ('w, 'e, 'a) io" where
  "of_result r w = (r, w)"

named_theorems io_simps

lemma ret_simps [io_simps]: "ret a w = (Inr b, w') \<longleftrightarrow> a = b \<and> w = w'" "ret a w \<noteq> (Inl e, w')"
  by (auto simp: ret_def)

lemma fail_simps [io_simps]: "fail e w = (Inl e', w') \<longleftrightarrow> e = e' \<and> w = w'" "fail e w \<noteq> (Inr b, w')"
  by (auto simp: fail_def)

lemma of_result_simps [io_simps]: "of_result r w = (r', w') \<longleftrightarrow> r = r' \<and> w = w'"
  by (auto simp: of_result_def)

lemma and_then_Inr [io_simps]:
  "and_then m f w = (Inr b, w'') \<longleftrightarrow> (\<exists>a w'. m w = (Inr a, w') \<and> f a w' = (Inr b, w''))"
  by (auto simp: and_then_def split: prod.splits sum.splits)

lemma and_then_step: "m w = (Inr a, w') \<Longrightarrow> and_then m f w = f a w'"
  by (simp add: and_then_def)

lemma and_then_stop: "m w = (Inl e, w') \<Longrightarrow> and_then m f w = (Inl e, w')"
  by (simp add: and_then_def)

lemma and_then_Inl [io_simps]:
  "and_then m f w = (Inl e, w'') \<longleftrightarrow> m w = (Inl e, w'') \<or> (\<exists>a w'. m w = (Inr a, w') \<and> f a w' = (Inl e, w''))"
  by (auto simp: and_then_def split: prod.splits sum.splits)

lemma on_err_simps [io_simps]:
  "on_err f m w = (Inr b, w') \<longleftrightarrow> m w = (Inr b, w')"
  "on_err f m w = (Inl e, w') \<longleftrightarrow> (\<exists>e'. m w = (Inl e', w') \<and> e = f e')"
  by (auto simp: on_err_def map_err_Inr map_err_Inl split: prod.splits)

lemma attempt_simps [io_simps]: "attempt m w = (Inr r, w') \<longleftrightarrow> m w = (r, w')" "attempt m w \<noteq> (Inl e, w')"
  by (auto simp: attempt_def split: prod.splits)

text \<open>A step keeps a property of the state on every branch, errors included.\<close>

definition keeps :: "('w \<Rightarrow> bool) \<Rightarrow> ('w, 'e, 'a) io \<Rightarrow> bool" where
  "keeps P m \<longleftrightarrow> (\<forall>w. P w \<longrightarrow> P (snd (m w)))"

named_theorems keeps_intros

lemma keepsD: "keeps P m \<Longrightarrow> P w \<Longrightarrow> m w = (r, w') \<Longrightarrow> P w'"
  unfolding keeps_def by (metis snd_conv)

lemma keeps_pure [keeps_intros]: "keeps P (ret a)" "keeps P (fail e)" "keeps P (of_result r)"
  by (simp_all add: keeps_def ret_def fail_def of_result_def)

lemma keeps_after:
  assumes "P (snd (m w))" and "\<And>a. keeps P (f a)"
  shows "P (snd (and_then m f w))"
proof -
  obtain r w' where m: "m w = (r, w')" by (cases "m w")
  show ?thesis using assms m by (cases r) (auto simp: and_then_def keeps_def)
qed

lemma keeps_and_then [keeps_intros]: "keeps P m \<Longrightarrow> (\<And>a. keeps P (f a)) \<Longrightarrow> keeps P (and_then m f)"
  by (subst keeps_def) (auto intro: keeps_after simp: keeps_def [of P m])

lemma keeps_wrapped [keeps_intros]: "keeps P m \<Longrightarrow> keeps P (on_err f m)" "keeps P m \<Longrightarrow> keeps P (attempt m)"
  by (simp_all add: keeps_def on_err_def attempt_def case_prod_beta)

lemma keeps_branches [keeps_intros]:
  "keeps P m \<Longrightarrow> keeps P n \<Longrightarrow> keeps P (if c then m else n)"
  "keeps P m \<Longrightarrow> (\<And>x. keeps P (f x)) \<Longrightarrow> keeps P (case x of None \<Rightarrow> m | Some x \<Rightarrow> f x)"
  "(\<And>x. keeps P (h x)) \<Longrightarrow> (\<And>x. keeps P (k x)) \<Longrightarrow> keeps P (case y of Inl x \<Rightarrow> h x | Inr x \<Rightarrow> k x)"
  by (auto split: option.splits sum.splits)

section \<open>Commands\<close>

record cmd_output =
  out_success :: bool
  out_stdout :: string
  out_stderr :: string

definition succeeded :: "string \<Rightarrow> cmd_output" where
  "succeeded out = \<lparr>out_success = True, out_stdout = out, out_stderr = []\<rparr>"

definition failed :: "string \<Rightarrow> cmd_output" where
  "failed err = \<lparr>out_success = False, out_stdout = [], out_stderr = err\<rparr>"

record 'g world =
  git_cmd :: "string \<Rightarrow> string list \<Rightarrow> ('g, string, cmd_output) io"
  path_exists :: "string \<Rightarrow> 'g \<Rightarrow> bool"
  canonicalize :: "string \<Rightarrow> 'g \<Rightarrow> string + string"
  create_dir_all :: "string \<Rightarrow> ('g, string, unit) io"
  remove_dir_all :: "string \<Rightarrow> ('g, string, unit) io"

type_synonym command = "string \<times> string list"

definition logged :: "'g world \<Rightarrow> ('g \<times> command list) world" where
  "logged w =
     \<lparr>git_cmd = (\<lambda>dir args (g, log). case git_cmd w dir args g of (r, g') \<Rightarrow> (r, (g', log @ [(dir, args)]))),
      path_exists = (\<lambda>p (g, log). path_exists w p g),
      canonicalize = (\<lambda>p (g, log). canonicalize w p g),
      create_dir_all = (\<lambda>p (g, log). case create_dir_all w p g of (r, g') \<Rightarrow> (r, (g', log))),
      remove_dir_all = (\<lambda>p (g, log). case remove_dir_all w p g of (r, g') \<Rightarrow> (r, (g', log)))\<rparr>"

definition only :: "('c \<Rightarrow> bool) \<Rightarrow> ('g \<times> 'c list, 'e, 'a) io \<Rightarrow> bool" where
  "only Q m \<longleftrightarrow> (\<forall>s. \<exists>ext. snd (snd (m s)) = snd s @ ext \<and> list_all Q ext)"

named_theorems only_intros

lemma only_ret [only_intros]: "only Q (ret a)"
  by (simp add: only_def ret_def)

lemma only_fail [only_intros]: "only Q (fail e)"
  by (simp add: only_def fail_def)

lemma only_of_result [only_intros]: "only Q (of_result r)"
  by (simp add: only_def of_result_def)

lemma only_and_then [only_intros]:
  assumes "only Q m" and "\<And>a. only Q (f a)"
  shows "only Q (and_then m f)"
  unfolding only_def
proof
  fix s
  obtain r s' where m: "m s = (r, s')" by (cases "m s")
  obtain ext where ext: "snd s' = snd s @ ext" "list_all Q ext"
    using assms(1) m unfolding only_def by (metis snd_conv)
  show "\<exists>ext. snd (snd (and_then m f s)) = snd s @ ext \<and> list_all Q ext"
  proof (cases r)
    case (Inl e)
    then show ?thesis using m ext by (simp add: and_then_def)
  next
    case (Inr a)
    obtain ext' where ext': "snd (snd (f a s')) = snd s' @ ext'" "list_all Q ext'"
      using assms(2) [of a] unfolding only_def by blast
    have "snd (snd (and_then m f s)) = snd s @ (ext @ ext')"
      using Inr m ext ext' by (simp add: and_then_def)
    then show ?thesis using ext(2) ext'(2) by (intro exI [of _ "ext @ ext'"]) simp
  qed
qed

lemma only_on_err [only_intros]: "only Q m \<Longrightarrow> only Q (on_err f m)"
  by (simp add: only_def on_err_def case_prod_beta)

lemma only_attempt [only_intros]: "only Q m \<Longrightarrow> only Q (attempt m)"
  by (simp add: only_def attempt_def case_prod_beta)

lemma only_git_cmd: "Q (dir, args) \<Longrightarrow> only Q (git_cmd (logged w) dir args)"
  by (auto simp: only_def logged_def split: prod.splits)

lemma only_dirs [only_intros]: "only Q (create_dir_all (logged w) p)" "only Q (remove_dir_all (logged w) p)"
  by (auto simp: only_def logged_def split: prod.splits)

lemma only_if [only_intros]: "(c \<Longrightarrow> only Q m) \<Longrightarrow> (\<not> c \<Longrightarrow> only Q n) \<Longrightarrow> only Q (if c then m else n)"
  by simp

lemma only_case_option [only_intros]:
  "only Q m \<Longrightarrow> (\<And>x. only Q (f x)) \<Longrightarrow> only Q (case x of None \<Rightarrow> m | Some x \<Rightarrow> f x)"
  by (cases x) simp_all

lemma only_case_sum [only_intros]:
  "(\<And>x. only Q (f x)) \<Longrightarrow> (\<And>x. only Q (h x)) \<Longrightarrow> only Q (case x of Inl x \<Rightarrow> f x | Inr x \<Rightarrow> h x)"
  by (cases x) simp_all

lemma only_mono: "only Q m \<Longrightarrow> (\<And>c. Q c \<Longrightarrow> R c) \<Longrightarrow> only R m"
  unfolding only_def list_all_iff by blast

end
