(* ===== verification/Git_Refs.thy ===== *)
theory Git_Refs
  imports Rust_Str
begin

text \<open>
  Branch and ref names, and what is sent to a remote shell (\<open>tddy-git\<close>, \<open>refs.rs\<close> and \<open>ssh_exec.rs\<close>):
  the pure string functions. They guard what reaches a \<open>git\<close> or \<open>ssh\<close> argument list, so the lemmas say
  what a validated ref or a contained path can hold and that a quoted argument is read back as it was.
\<close>

section \<open>Branch and ref names\<close>

definition local_branch_name_for_remote :: "string \<Rightarrow> string \<Rightarrow> string" where
  "local_branch_name_for_remote reference remote =
     (let reference = trim reference
      in case strip_prefix (remote @ ''/'') reference of Some r \<Rightarrow> r | None \<Rightarrow> reference)"

definition local_branch_name :: "string \<Rightarrow> string" where
  "local_branch_name reference = local_branch_name_for_remote reference ''origin''"

definition forbidden_ref_chars :: "char list" where
  "forbidden_ref_chars =
     [CHR 0x3B, CHR 0x7C, CHR 0x26, CHR 0x24, CHR 0x60, CHR 0x0A, CHR 0x0D]"

text \<open>\<open>{:?}\<close> of a character, on the characters above.\<close>

definition debug_char :: "char \<Rightarrow> string" where
  "debug_char c =
     quote_char @ (if c = CHR 0x0A then [CHR 0x5C, CHR ''n''] else if c = CHR 0x0D then [CHR 0x5C, CHR ''r'']
                   else [c]) @ quote_char"

definition validate_remote_segment :: "string \<Rightarrow> string + unit" where
  "validate_remote_segment remote =
     (if remote = [] then Inl ''integration base ref must be <remote>/<branch>: remote is empty''
      else if has_white_space remote then Inl ''integration base ref remote must not contain whitespace''
      else if contains ''..'' remote then Inl (''integration base ref remote must not contain '' @ [CHR 0x60] @ ''..'' @ [CHR 0x60])
      else if contains ''--'' remote then Inl (''integration base ref remote must not contain '' @ [CHR 0x60] @ ''--'' @ [CHR 0x60])
      else case List.find (\<lambda>c. c \<in> set remote) forbidden_ref_chars of
             Some c \<Rightarrow> Inl (''integration base ref remote contains forbidden character: '' @ debug_char c)
           | None \<Rightarrow> Inr ())"

definition validate_branch_segment :: "string \<Rightarrow> string + unit" where
  "validate_branch_segment segment =
     (if segment = [] then Inl ''integration base ref must not contain empty path segments''
      else if has_white_space segment then Inl ''integration base ref must not contain whitespace''
      else if contains ''..'' segment then Inl (''integration base ref must not contain '' @ [CHR 0x60] @ ''..'' @ [CHR 0x60])
      else if contains ''--'' segment then Inl (''integration base ref must not contain '' @ [CHR 0x60] @ ''--'' @ [CHR 0x60])
      else case List.find (\<lambda>c. c \<in> set segment) forbidden_ref_chars of
             Some c \<Rightarrow> Inl (''integration base ref contains forbidden character: '' @ debug_char c)
           | None \<Rightarrow> Inr ())"

definition split_remote_ref :: "string \<Rightarrow> string + (string \<times> string)" where
  "split_remote_ref s =
     (let s = trim s
      in if s = [] then Inl ''integration base ref must not be empty''
         else case split_once (CHR ''/'') s of
                None \<Rightarrow> Inl ''integration base ref must be <remote>/<branch-name>''
              | Some (remote, rest) \<Rightarrow> try_then (validate_remote_segment remote) (\<lambda>_. Inr (remote, rest)))"

definition validate_integration_base_ref :: "string \<Rightarrow> string + unit" where
  "validate_integration_base_ref s =
     try_then (split_remote_ref s)
       (\<lambda>(remote, rest).
          if rest = [] then Inl ''integration base ref must be <remote>/<branch-name>''
          else if CHR ''/'' \<in> set rest
          then Inl ''integration base ref must be a single remote branch segment: <remote>/<branch-name>''
          else validate_branch_segment rest)"

fun validate_segments :: "string list \<Rightarrow> string + unit" where
  "validate_segments [] = Inr ()"
| "validate_segments (w # ws) = try_then (validate_branch_segment w) (\<lambda>_. validate_segments ws)"

definition validate_chain_pr_integration_base_ref :: "string \<Rightarrow> string + unit" where
  "validate_chain_pr_integration_base_ref s =
     try_then (split_remote_ref s)
       (\<lambda>(remote, rest).
          if rest = [] then Inl ''chain PR integration base ref must be <remote>/<branch-path>''
          else validate_segments (split_on (CHR ''/'') rest))"

text \<open>The search for a free suffix; the set of local branches is its first argument.\<close>

abbreviation suffixed :: "string \<Rightarrow> nat \<Rightarrow> string" where
  "suffixed branch n \<equiv> branch @ ''-'' @ show_nat n"

function free_suffix_from :: "string list \<Rightarrow> string \<Rightarrow> nat \<Rightarrow> string" where
  "free_suffix_from taken branch suffix =
     (if suffixed branch suffix \<in> set taken then free_suffix_from taken branch (suffix + 1)
      else suffixed branch suffix)"
  by pat_completeness auto

definition taken_from :: "string list \<Rightarrow> string \<Rightarrow> nat \<Rightarrow> nat set" where
  "taken_from taken branch k = {n. k \<le> n \<and> suffixed branch n \<in> set taken}"

lemma finite_taken_from: "finite (taken_from taken branch k)"
proof (rule finite_imageD)
  show "finite (suffixed branch ` taken_from taken branch k)"
    by (rule finite_subset [of _ "set taken"]) (auto simp: taken_from_def)
  show "inj_on (suffixed branch) (taken_from taken branch k)"
    by (auto simp: inj_on_def show_nat_inject)
qed

lemma taken_from_Suc:
  assumes "suffixed branch k \<in> set taken"
  shows "taken_from taken branch k = insert k (taken_from taken branch (Suc k))"
    and "k \<notin> taken_from taken branch (Suc k)"
  using assms by (auto simp: taken_from_def not_less_eq_eq le_Suc_eq dest: le_neq_implies_less)

termination free_suffix_from
  by (relation "measure (\<lambda>(taken, branch, k). card (taken_from taken branch k))")
    (auto simp: taken_from_Suc finite_taken_from)

declare free_suffix_from.simps [simp del]

definition first_free_suffixed_branch_name :: "string list \<Rightarrow> string \<Rightarrow> string" where
  "first_free_suffixed_branch_name taken branch = free_suffix_from taken branch 1"

definition slugify_for_branch :: "string \<Rightarrow> string" where
  "slugify_for_branch name =
     join_with ''-''
       (filter (\<lambda>s. s \<noteq> [])
          (split_on (CHR ''-'')
             (map (\<lambda>c. if is_ascii_alphanumeric c then c else CHR ''-'') (to_lowercase name))))"

section \<open>Arguments of a remote shell\<close>

definition shell_single_quote :: "string \<Rightarrow> string" where
  "shell_single_quote s =
     quote_char @
     replace_str quote_char (quote_char @ [CHR 0x22] @ quote_char @ [CHR 0x22] @ quote_char) s @ quote_char"

text \<open>
  \<open>Path::components\<close> yields \<open>ParentDir\<close> exactly for the pieces between slashes that are \<open>..\<close>.
\<close>

definition contain_remote_path :: "string \<Rightarrow> string \<Rightarrow> string + string" where
  "contain_remote_path remote_root arg_path =
     (let root = trim_end_char (CHR ''/'') (trim remote_root)
      in if root = [] then Inl ''remote worktree root is empty''
         else let candidate = (if starts_with ''/'' arg_path then arg_path
                               else root @ ''/'' @ trim_start_char (CHR ''/'') arg_path)
              in if list_ex (\<lambda>c. c = ''..'') (split_on (CHR ''/'') candidate)
                 then Inl (''path contains '' @ quote_char @ ''..'' @ quote_char @ '' component: '' @ candidate)
                 else let normalized = replace_str ''//'' ''/'' candidate
                      in if normalized \<noteq> root \<and> \<not> starts_with (root @ ''/'') normalized
                         then Inl (''resolved path escapes worktree: '' @ normalized)
                         else Inr normalized)"

text \<open>\<open>trim_end_matches(".git")\<close>.\<close>

function trim_end_git :: "string \<Rightarrow> string" where
  "trim_end_git s =
     (if starts_with (rev ''.git'') (rev s) then trim_end_git (take (length s - 4) s) else s)"
  by pat_completeness auto
termination
  by (relation "measure length") (auto simp: starts_with_iff dest!: arg_cong [where f = length])

definition default_remote_repo_root :: "string \<Rightarrow> string" where
  "default_remote_repo_root git_url =
     (let trimmed = trim git_url
      in if trimmed = [] \<or> contains ''example.com'' trimmed then ''/home/dev/repo''
         else if starts_with ''git@'' trimmed
         then let parts = split_on (CHR 0x3A) trimmed;
                  path = (if 1 < length parts then parts ! 1 else ''repo'')
              in ''/home/dev/'' @ trim_end_git (last (split_on (CHR ''/'') path))
         else ''/home/dev/'' @ trim_end_git (last (split_on (CHR ''/'') trimmed)))"

section \<open>What the validation lets through\<close>

definition safe_segment :: "string \<Rightarrow> bool" where
  "safe_segment w \<longleftrightarrow> w \<noteq> [] \<and> \<not> has_white_space w \<and> \<not> contains ''..'' w \<and> \<not> contains ''--'' w \<and>
     set w \<inter> set forbidden_ref_chars = {}"

lemma find_forbidden: "List.find (\<lambda>c. c \<in> set w) cs = None \<longleftrightarrow> set w \<inter> set cs = {}"
  by (auto simp: find_None_iff)

lemma validate_branch_segment_Inr: "validate_branch_segment w = Inr u \<longleftrightarrow> safe_segment w"
  using find_forbidden [of w forbidden_ref_chars]
  by (auto simp: validate_branch_segment_def safe_segment_def split: option.splits)

lemma validate_remote_segment_Inr: "validate_remote_segment w = Inr u \<longleftrightarrow> safe_segment w"
  using find_forbidden [of w forbidden_ref_chars]
  by (auto simp: validate_remote_segment_def safe_segment_def split: option.splits)

lemma validate_segments_Inr: "validate_segments ws = Inr u \<longleftrightarrow> list_all safe_segment ws"
  by (induction ws) (auto simp: try_then_Inr validate_branch_segment_Inr)

lemma split_remote_ref_Inr:
  "split_remote_ref s = Inr (remote, rest) \<longleftrightarrow> trim s = remote @ ''/'' @ rest \<and> CHR ''/'' \<notin> set remote \<and> safe_segment remote"
proof -
  have "trim s = remote @ ''/'' @ rest \<and> CHR ''/'' \<notin> set remote \<longleftrightarrow> split_once (CHR ''/'') (trim s) = Some (remote, rest)"
    by (simp add: split_once_Some)
  moreover have "split_once (CHR ''/'') [] = None" by simp
  ultimately show ?thesis
    by (auto simp: split_remote_ref_def Let_def try_then_Inr validate_remote_segment_Inr split: option.splits
        simp del: split_once.simps)
qed

lemma validate_integration_base_ref_Inr:
  "validate_integration_base_ref s = Inr u \<longleftrightarrow>
     (\<exists>remote branch. trim s = remote @ ''/'' @ branch \<and> CHR ''/'' \<notin> set remote \<and> CHR ''/'' \<notin> set branch \<and>
        safe_segment remote \<and> safe_segment branch)"
  by (auto simp: validate_integration_base_ref_def try_then_Inr split_remote_ref_Inr validate_branch_segment_Inr
      safe_segment_def split: if_splits)

lemma validate_chain_ref_Inr:
  "validate_chain_pr_integration_base_ref s = Inr u \<longleftrightarrow>
     (\<exists>remote path. trim s = remote @ ''/'' @ path \<and> CHR ''/'' \<notin> set remote \<and> safe_segment remote \<and>
        path \<noteq> [] \<and> list_all safe_segment (split_on (CHR ''/'') path))"
  by (auto simp: validate_chain_pr_integration_base_ref_def try_then_Inr split_remote_ref_Inr validate_segments_Inr
      split: if_splits)

lemma free_suffix_from_fresh: "free_suffix_from taken branch k \<notin> set taken"
  by (induction taken branch k rule: free_suffix_from.induct) (subst free_suffix_from.simps, simp)

lemma free_suffix_from_bound:
  "\<exists>n. free_suffix_from taken branch k = suffixed branch n \<and> k \<le> n \<and> n \<le> k + card (taken_from taken branch k) \<and>
     (\<forall>j. k \<le> j \<and> j < n \<longrightarrow> suffixed branch j \<in> set taken)"
proof (induction taken branch k rule: free_suffix_from.induct)
  case (1 taken branch k)
  show ?case
  proof (cases "suffixed branch k \<in> set taken")
    case True
    then obtain n where n: "free_suffix_from taken branch (Suc k) = suffixed branch n" "Suc k \<le> n"
        "n \<le> Suc k + card (taken_from taken branch (Suc k))"
        "\<forall>j. Suc k \<le> j \<and> j < n \<longrightarrow> suffixed branch j \<in> set taken"
      using 1 by auto
    have "card (taken_from taken branch k) = Suc (card (taken_from taken branch (Suc k)))"
      using taken_from_Suc [OF True] finite_taken_from by simp
    moreover have "free_suffix_from taken branch k = suffixed branch n"
      using True n(1) by (subst free_suffix_from.simps) simp
    ultimately show ?thesis using n True by (intro exI [of _ n]) (auto simp: less_eq_Suc_le dest: le_imp_less_or_eq)
  next
    case False
    then show ?thesis by (intro exI [of _ k]) (subst free_suffix_from.simps, auto)
  qed
qed

lemma replace_slashes_pieces:
  "hd (split_on (CHR ''/'') (replace_str ''//'' ''/'' s)) = hd (split_on (CHR ''/'') s) \<and>
   set (tl (split_on (CHR ''/'') (replace_str ''//'' ''/'' s))) \<subseteq> set (tl (split_on (CHR ''/'') s))"
proof (induction "''//''" "''/''" s rule: replace_str.induct)
  case (2 c cs)
  let ?S = "split_on (CHR ''/'')" and ?R = "replace_str ''//'' ''/''"
  show ?case
  proof (cases "strip_prefix ''//'' (c # cs)")
    case (Some r)
    then have "c # cs = ''//'' @ r" by (simp only: strip_prefix_iff)
    then have eq: "c = CHR ''/''" "cs = CHR ''/'' # r" by auto
    obtain w ws where w: "?S r = w # ws" by (cases "?S r") auto
    obtain v vs where v: "?S (?R r) = v # vs" by (cases "?S (?R r)") auto
    show ?thesis using 2(2) [OF Some] w v eq by auto
  next
    case None
    note IH = 2(1) [OF None]
    have step: "?R (c # cs) = c # ?R cs" using None by (simp del: strip_prefix.simps)
    obtain w ws where w: "?S cs = w # ws" by (cases "?S cs") auto
    obtain v vs where v: "?S (?R cs) = v # vs" by (cases "?S (?R cs)") auto
    show ?thesis unfolding step using IH w v by auto
  qed
qed simp

lemma contain_remote_path_Inr:
  assumes "contain_remote_path remote_root arg = Inr p"
  defines "root \<equiv> trim_end_char (CHR ''/'') (trim remote_root)"
  shows "root \<noteq> []" and "p = root \<or> starts_with (root @ ''/'') p" and "''..'' \<notin> set (split_on (CHR ''/'') p)"
proof -
  let ?candidate = "if starts_with ''/'' arg then arg else root @ ''/'' @ trim_start_char (CHR ''/'') arg"
  have p: "p = replace_str ''//'' ''/'' ?candidate" and cand: "''..'' \<notin> set (split_on (CHR ''/'') ?candidate)"
    and "root \<noteq> []" "p = root \<or> starts_with (root @ ''/'') p"
    using assms(1) unfolding contain_remote_path_def Let_def root_def [symmetric] list_ex_iff
    by (simp_all only: sum.inject sum.distinct de_Morgan_conj not_not split: if_splits) blast+
  then show "root \<noteq> []" "p = root \<or> starts_with (root @ ''/'') p" by simp_all
  show "''..'' \<notin> set (split_on (CHR ''/'') p)"
    using replace_slashes_pieces [of ?candidate] cand unfolding p
    by (cases "split_on (CHR ''/'') ?candidate"; cases "split_on (CHR ''/'') (replace_str ''//'' ''/'' ?candidate)") auto
qed

section \<open>Quoting\<close>

text \<open>
  How a POSIX shell reads one word: single quotes keep everything, double quotes keep everything but
  dollar, backquote and backslash, and outside quotes the special characters are not literal. The value
  is the argument the program receives, \<open>None\<close> when the word does not end or would be interpreted.
\<close>

datatype quoting = Unquoted | In_single | In_double

definition shell_special :: "char list" where
  "shell_special = '' |&;<>()$*?[]#~=%!{}'' @ [CHR 0x09, CHR 0x0A, CHR 0x5C, CHR 0x60]"

fun sh_word :: "quoting \<Rightarrow> string \<Rightarrow> string option" where
  "sh_word Unquoted [] = Some []"
| "sh_word In_single [] = None"
| "sh_word In_double [] = None"
| "sh_word Unquoted (c # cs) =
     (if c = CHR 0x27 then sh_word In_single cs else if c = CHR 0x22 then sh_word In_double cs
      else if c \<in> set shell_special then None else map_option (Cons c) (sh_word Unquoted cs))"
| "sh_word In_single (c # cs) =
     (if c = CHR 0x27 then sh_word Unquoted cs else map_option (Cons c) (sh_word In_single cs))"
| "sh_word In_double (c # cs) =
     (if c = CHR 0x22 then sh_word Unquoted cs
      else if c = CHR 0x24 \<or> c = CHR 0x60 \<or> c = CHR 0x5C then None else map_option (Cons c) (sh_word In_double cs))"

lemma sh_word_replaced:
  "sh_word In_single (replace_str [CHR 0x27] [CHR 0x27, CHR 0x22, CHR 0x27, CHR 0x22, CHR 0x27] s @ CHR 0x27 # rest) =
     map_option (\<lambda>r. s @ r) (sh_word Unquoted rest)"
proof (induction s)
  case (Cons c cs)
  have cong: "map_option (Cons c) (map_option (\<lambda>r. cs @ r) x) = map_option (\<lambda>r. c # cs @ r) x" for x
    by (cases x) auto
  show ?case
    using Cons cong by (cases "c = CHR 0x27") (simp_all add: replace_str_char del: replace_str.simps)
qed (simp add: option.map_ident)

section \<open>Properties\<close>

text \<open>
  C10. An argument quoted with \<open>shell_single_quote\<close> is read back by the shell exactly as it was: none of its
  characters is interpreted and the quotes close, whatever follows the word.
\<close>

theorem shell_single_quote_roundtrip:
  "sh_word Unquoted (shell_single_quote s @ rest) = map_option (\<lambda>r. s @ r) (sh_word Unquoted rest)"
  using sh_word_replaced [of s rest] by (simp add: shell_single_quote_def)

text \<open>
  A path that \<open>contain_remote_path\<close> lets through stays under the remote root: it is the root or starts
  with the root and a slash, and no component of it is \<open>..\<close>.
\<close>

theorem contain_remote_path_safe:
  assumes "contain_remote_path remote_root arg = Inr p"
  shows "(p = trim_end_char (CHR ''/'') (trim remote_root) \<or>
          starts_with (trim_end_char (CHR ''/'') (trim remote_root) @ ''/'') p) \<and>
         ''..'' \<notin> set (split_on (CHR ''/'') p)"
  using contain_remote_path_Inr [OF assms] by blast

theorem contain_remote_path_safe_witness:
  "contain_remote_path ''/srv/work/'' ''src//lib.rs'' = Inr ''/srv/work/src/lib.rs'' \<and>
   ''..'' \<notin> set (split_on (CHR ''/'') ''/srv/work/src/lib.rs'')"
proof -
  have "contain_remote_path ''/srv/work/'' ''src//lib.rs'' = Inr ''/srv/work/src/lib.rs''" by code_simp
  with contain_remote_path_safe [OF this] show ?thesis by blast
qed


text \<open>
  The suggested branch name is free, it is the first free one in the order of the suffixes, and its
  suffix exceeds the number of local branches by at most one, so that the \<open>u32\<close> counter does not overflow
  in a repository with fewer branches than that.
\<close>

theorem first_free_suffix:
  "first_free_suffixed_branch_name taken branch \<notin> set taken \<and>
   (\<exists>n. first_free_suffixed_branch_name taken branch = suffixed branch n \<and> 1 \<le> n \<and> n \<le> length taken + 1 \<and>
      {suffixed branch j | j. 1 \<le> j \<and> j < n} \<subseteq> set taken)"
proof -
  obtain n where n: "free_suffix_from taken branch 1 = suffixed branch n" "1 \<le> n"
      "n \<le> 1 + card (taken_from taken branch 1)" "\<forall>j. 1 \<le> j \<and> j < n \<longrightarrow> suffixed branch j \<in> set taken"
    using free_suffix_from_bound by blast
  have "card (taken_from taken branch 1) = card (suffixed branch ` taken_from taken branch 1)"
    by (rule card_image [symmetric]) (auto simp: inj_on_def show_nat_inject)
  also have "\<dots> \<le> card (set taken)" by (rule card_mono) (auto simp: taken_from_def)
  finally have "n \<le> length taken + 1" using n(3) card_length [of taken] by simp
  then show ?thesis
    using n free_suffix_from_fresh unfolding first_free_suffixed_branch_name_def by blast
qed

lemma slug_pieces:
  assumes "w \<in> set (split_on (CHR ''-'') (map (\<lambda>c. if is_ascii_alphanumeric c then c else CHR ''-'') (to_lowercase name)))"
  shows "list_all is_ascii_lower_or_digit w"
proof -
  let ?s = "map (\<lambda>c. if is_ascii_alphanumeric c then c else CHR ''-'') (to_lowercase name)"
  have "set w \<subseteq> set ?s" using assms by (rule split_on_chars)
  moreover have "CHR ''-'' \<notin> set w" using assms by (rule split_on_pieces)
  moreover have "c \<in> set ?s \<Longrightarrow> c \<noteq> CHR ''-'' \<Longrightarrow> is_ascii_lower_or_digit c" for c
    by (auto simp: lowercase_alphanumeric split: if_splits)
  ultimately show ?thesis by (auto simp: list_all_iff)
qed

lemma not_dash: "list_all is_ascii_lower_or_digit w \<Longrightarrow> CHR ''-'' \<notin> set w"
  by (auto simp: list_all_iff is_ascii_lower_or_digit_def)

lemma join_chars: "c \<in> set (join_with sep ws) \<Longrightarrow> c \<in> set sep \<or> (\<exists>w\<in>set ws. c \<in> set w)"
  by (induction sep ws rule: join_with.induct) auto

text \<open>
  A slug consists of lower-case letters and digits in non-empty runs joined by single dashes, so it has
  no leading, trailing or double dash; slugifying a slug changes nothing.
\<close>

theorem slugify_normal_form:
  "(\<exists>ws. slugify_for_branch name = join_with ''-'' ws \<and>
      list_all (\<lambda>w. w \<noteq> [] \<and> list_all is_ascii_lower_or_digit w) ws) \<and>
   slugify_for_branch (slugify_for_branch name) = slugify_for_branch name"
proof -
  define ws where "ws = filter (\<lambda>s. s \<noteq> [])
      (split_on (CHR ''-'') (map (\<lambda>c. if is_ascii_alphanumeric c then c else CHR ''-'') (to_lowercase name)))"
  have slug: "slugify_for_branch name = join_with ''-'' ws"
    by (simp add: slugify_for_branch_def ws_def)
  have ok: "w \<noteq> [] \<and> list_all is_ascii_lower_or_digit w" if "w \<in> set ws" for w
    using that slug_pieces by (auto simp: ws_def)
  let ?r = "join_with ''-'' ws"
  have chars: "is_ascii_lower_or_digit c \<or> c = CHR ''-''" if "c \<in> set ?r" for c
    using join_chars [OF that] ok by (auto simp: list_all_iff)
  have low: "to_lowercase ?r = ?r" using chars by (rule to_lowercase_id)
  have alnum: "is_ascii_lower_or_digit c \<Longrightarrow> is_ascii_alphanumeric c" for c
    by (auto simp: is_ascii_lower_or_digit_def is_ascii_alphanumeric_def Let_def)
  have "map (\<lambda>c. if is_ascii_alphanumeric c then c else CHR ''-'') ?r = ?r"
    using chars alnum by (intro map_idI) auto
  then have "slugify_for_branch ?r = join_with ''-'' (filter (\<lambda>s. s \<noteq> []) (split_on (CHR ''-'') ?r))"
    by (simp add: slugify_for_branch_def low)
  also have "\<dots> = ?r"
  proof (cases "ws = []")
    case False
    then have "split_on (CHR ''-'') ?r = ws"
      using ok not_dash by (intro split_join) auto
    moreover have "filter (\<lambda>s. s \<noteq> []) ws = ws" using ok by (simp add: filter_id_conv)
    ultimately show ?thesis by simp
  qed simp
  finally show ?thesis using slug ok by (auto simp: list_all_iff)
qed

text \<open>
  The validation accepts a remote that starts with a dash, which git reads as an option and not as a
  repository, and it accepts a ref with surrounding white space, which the fetch then passes on
  untrimmed.
\<close>

theorem validation_accepts_options_and_padding:
  "validate_integration_base_ref ''-p/main'' = Inr () \<and>
   validate_integration_base_ref (''origin/main'' @ [CHR 0x0A]) = Inr () \<and>
   split_once (CHR ''/'') (''origin/main'' @ [CHR 0x0A]) = Some (''origin'', ''main'' @ [CHR 0x0A])"
  by code_simp

end
