(* ===== verification/Git_Ops.thy ===== *)
theory Git_Ops
  imports Effects Git_Refs Errors
begin

text \<open>
  The git primitives of the PR stack (\<open>tddy-pr-stack\<close>, \<open>git_ops.rs\<close>) and the rev and remote helpers of
  \<open>tddy-git\<close> (\<open>rev.rs\<close>, \<open>remote.rs\<close>), as programs over the command runner of a \<open>world\<close>: which commands
  they run, in which order, and what they make of the outputs. \<open>build_integration_ref\<close>, which is
  unimplemented in the source, is left out. The environment of the child process is not modelled.
\<close>

section \<open>Primitives on a worktree\<close>

definition run_git :: "'g world \<Rightarrow> string \<Rightarrow> string list \<Rightarrow> ('g, workflow_error, cmd_output) io" where
  "run_git w repo args =
     on_err (\<lambda>e. WriteFailed (''git '' @ join_with '' '' args @ '' in '' @ repo @ '': '' @ e)) (git_cmd w repo args)"

text \<open>Run a command and turn a non-zero exit into an error made from its output.\<close>

definition checked_git ::
    "'g world \<Rightarrow> string \<Rightarrow> string list \<Rightarrow> (cmd_output \<Rightarrow> string) \<Rightarrow> ('g, workflow_error, cmd_output) io" where
  "checked_git w repo args msg =
     and_then (run_git w repo args)
       (\<lambda>out. if out_success out then ret out else fail (WriteFailed (msg out)))"

definition local_branch_exists :: "'g world \<Rightarrow> string \<Rightarrow> string \<Rightarrow> ('g, 'e, bool) io" where
  "local_branch_exists w repo branch =
     and_then (attempt (run_git w repo [''rev-parse'', ''--verify'', ''--quiet'', ''refs/heads/'' @ branch]))
       (\<lambda>r. ret (case r of Inl _ \<Rightarrow> False | Inr out \<Rightarrow> out_success out))"

definition rebase_onto ::
    "'g world \<Rightarrow> string \<Rightarrow> string \<Rightarrow> string \<Rightarrow> string \<Rightarrow> ('g, workflow_error, unit) io" where
  "rebase_onto w repo_root new_base old_base branch =
     and_then (checked_git w repo_root [''checkout'', branch]
                 (\<lambda>out. ''git checkout '' @ branch @ '': '' @ out_stderr out)) (\<lambda>_.
     and_then (run_git w repo_root [''rebase'', ''--onto'', new_base, old_base, branch]) (\<lambda>rebase.
       if out_success rebase then ret ()
       else and_then (attempt (run_git w repo_root [''rebase'', ''--abort''])) (\<lambda>_.
              fail (WriteFailed (''git rebase --onto '' @ new_base @ '' '' @ old_base @ '' '' @ branch @
                                 '' failed: '' @ out_stderr rebase)))))"

definition force_push_with_lease ::
    "'g world \<Rightarrow> string \<Rightarrow> string \<Rightarrow> string \<Rightarrow> string \<Rightarrow> ('g, workflow_error, unit) io" where
  "force_push_with_lease w repo_root remote branch expected_sha =
     (let lease_spec = branch @ '':'' @ expected_sha
      in and_then (checked_git w repo_root [''push'', ''--force-with-lease='' @ lease_spec, remote, branch]
                     (\<lambda>out. ''git push --force-with-lease='' @ lease_spec @ '' '' @ remote @ '' '' @ branch @
                            '': '' @ out_stderr out))
           (\<lambda>_. ret ()))"

definition merge_base :: "'g world \<Rightarrow> string \<Rightarrow> string \<Rightarrow> string \<Rightarrow> ('g, workflow_error, string) io" where
  "merge_base w repo_root a b =
     and_then (checked_git w repo_root [''merge-base'', a, b]
                 (\<lambda>out. ''git merge-base '' @ a @ '' '' @ b @ '': '' @ out_stderr out))
       (\<lambda>out. ret (trim (out_stdout out)))"

datatype sync_outcome = AlreadyUpToDate | Applied string | Conflicted "string list"

definition fetch_ref :: "'g world \<Rightarrow> string \<Rightarrow> string \<Rightarrow> string \<Rightarrow> ('g, workflow_error, unit) io" where
  "fetch_ref w dir remote branch =
     (let refspec = ''refs/heads/'' @ branch @ '':refs/remotes/'' @ remote @ ''/'' @ branch
      in and_then (checked_git w dir [''fetch'', ''--quiet'', remote, refspec]
                     (\<lambda>out. ''git fetch '' @ remote @ '' '' @ refspec @ '': '' @ trim (out_stderr out)))
           (\<lambda>_. ret ()))"

definition porcelain_path :: "string \<Rightarrow> string option" where
  "porcelain_path line =
     (if length line < 3 then None
      else let path = trim (drop 3 line)
           in if path = [] then None
              else Some (trim_matches (CHR 0x22)
                           (case rsplit_once '' -> '' path of Some (_, new) \<Rightarrow> new | None \<Rightarrow> path)))"

definition worktree_is_clean :: "'g world \<Rightarrow> string \<Rightarrow> ('g, workflow_error, string list) io" where
  "worktree_is_clean w dir =
     and_then (checked_git w dir [''status'', ''--porcelain'', ''--untracked-files=no'']
                 (\<lambda>out. ''git status --porcelain in '' @ dir @ '': '' @ trim (out_stderr out)))
       (\<lambda>out. ret (List.map_filter porcelain_path (str_lines (out_stdout out))))"

definition head_sha :: "'g world \<Rightarrow> string \<Rightarrow> ('g, workflow_error, string) io" where
  "head_sha w dir =
     and_then (checked_git w dir [''rev-parse'', ''HEAD'']
                 (\<lambda>out. ''git rev-parse HEAD in '' @ dir @ '': '' @ trim (out_stderr out)))
       (\<lambda>out. ret (trim (out_stdout out)))"

definition ref_sha :: "'g world \<Rightarrow> string \<Rightarrow> string \<Rightarrow> ('g, 'e, string option) io" where
  "ref_sha w dir reference =
     and_then (attempt (run_git w dir [''rev-parse'', ''--verify'', ''--quiet'', reference]))
       (\<lambda>r. ret (case r of
                   Inl _ \<Rightarrow> None
                 | Inr out \<Rightarrow> if out_success out \<and> trim (out_stdout out) \<noteq> [] then Some (trim (out_stdout out))
                             else None))"

definition index_tree :: "'g world \<Rightarrow> string \<Rightarrow> ('g, workflow_error, string) io" where
  "index_tree w dir =
     and_then (checked_git w dir [''write-tree'']
                 (\<lambda>out. ''git write-tree in '' @ dir @ '': '' @ trim (out_stderr out)))
       (\<lambda>out. ret (trim (out_stdout out)))"

definition restore_index :: "'g world \<Rightarrow> string \<Rightarrow> string \<Rightarrow> ('g, workflow_error, unit) io" where
  "restore_index w dir tree =
     and_then (checked_git w dir [''read-tree'', tree]
                 (\<lambda>out. ''git read-tree '' @ tree @ '' in '' @ dir @ '': '' @ trim (out_stderr out)))
       (\<lambda>_. ret ())"

text \<open>\<open>{:?}\<close> of a string: quotes, with quote, backslash and the named control characters escaped.\<close>

definition debug_str :: "string \<Rightarrow> string" where
  "debug_str s =
     [CHR 0x22] @
     concat (map (\<lambda>c. if c = CHR 0x22 \<or> c = CHR 0x5C then [CHR 0x5C, c]
                      else if c = CHR 0x0A then [CHR 0x5C, CHR ''n'']
                      else if c = CHR 0x0D then [CHR 0x5C, CHR ''r'']
                      else if c = CHR 0x09 then [CHR 0x5C, CHR ''t''] else [c]) s) @
     [CHR 0x22]"

definition commit_all_tracked :: "'g world \<Rightarrow> string \<Rightarrow> string \<Rightarrow> ('g, workflow_error, string) io" where
  "commit_all_tracked w dir message =
     and_then (index_tree w dir) (\<lambda>index_before.
     and_then (checked_git w dir [''add'', ''--update'']
                 (\<lambda>out. ''git add --update in '' @ dir @ '': '' @ trim (out_stderr out))) (\<lambda>_.
     and_then (run_git w dir [''commit'', ''--quiet'', ''-m'', message]) (\<lambda>commit.
       if out_success commit then head_sha w dir
       else let refusal = ''git commit -m '' @ debug_str message @ '' in '' @ dir @ '': '' @ trim (out_stderr commit)
            in and_then (attempt (restore_index w dir index_before)) (\<lambda>r.
                 fail (WriteFailed
                   (case r of
                      Inr _ \<Rightarrow> refusal
                    | Inl e \<Rightarrow> refusal @ '' '' @ em_dash @ '' and the index could not be restored to what it held '' @
                        ''before staging ('' @ show_workflow_error e @ ''), so '' @ dir @
                        '' needs manual attention''))))))"

datatype sync = Merge | Rebase

fun sync_name :: "sync \<Rightarrow> string" where
  "sync_name Merge = ''merge''"
| "sync_name Rebase = ''rebase''"

definition git_path :: "'g world \<Rightarrow> string \<Rightarrow> string \<Rightarrow> ('g, 'e, string option) io" where
  "git_path w dir name =
     and_then (attempt (run_git w dir [''rev-parse'', ''--git-path'', name]))
       (\<lambda>r. ret (case r of
                   Inl _ \<Rightarrow> None
                 | Inr out \<Rightarrow> if out_success out \<and> trim (out_stdout out) \<noteq> []
                             then Some (path_join dir (trim (out_stdout out))) else None))"

definition git_path_exists :: "'g world \<Rightarrow> string \<Rightarrow> string \<Rightarrow> ('g, 'e, bool) io" where
  "git_path_exists w dir name =
     and_then (git_path w dir name) (\<lambda>p g. (Inr (case p of None \<Rightarrow> False | Some p \<Rightarrow> path_exists w p g), g))"

definition left_state_in :: "'g world \<Rightarrow> sync \<Rightarrow> string \<Rightarrow> ('g, 'e, bool) io" where
  "left_state_in w op dir =
     (case op of
        Merge \<Rightarrow> and_then (ref_sha w dir ''MERGE_HEAD'') (\<lambda>r. ret (r \<noteq> None))
      | Rebase \<Rightarrow>
          and_then (git_path_exists w dir ''rebase-merge'')
            (\<lambda>b. if b then ret True else git_path_exists w dir ''rebase-apply''))"

definition abort_in_progress :: "'g world \<Rightarrow> string \<Rightarrow> sync \<Rightarrow> ('g, workflow_error, unit) io" where
  "abort_in_progress w dir op =
     and_then (left_state_in w op dir) (\<lambda>left.
       if \<not> left then ret ()
       else and_then (checked_git w dir [sync_name op, ''--abort'']
                        (\<lambda>out. ''git '' @ sync_name op @ '' --abort in '' @ dir @ '' failed, so the '' @ sync_name op @
                               '' is still in progress there and the worktree needs manual attention: '' @
                               trim (out_stderr out)))
              (\<lambda>_. ret ()))"

definition unmerged_paths :: "'g world \<Rightarrow> string \<Rightarrow> ('g, workflow_error, string list) io" where
  "unmerged_paths w dir =
     and_then (run_git w dir [''diff'', ''--name-only'', ''--diff-filter=U''])
       (\<lambda>out. ret (remdups_adj (sort (filter (\<lambda>l. l \<noteq> []) (map trim (str_lines (out_stdout out)))))))"

text \<open>The common body of \<open>merge_ref_into_worktree\<close> and \<open>rebase_branch_onto_ref\<close>.\<close>

definition sync_ref ::
    "'g world \<Rightarrow> sync \<Rightarrow> string list \<Rightarrow> string \<Rightarrow> string \<Rightarrow> ('g, workflow_error, sync_outcome) io" where
  "sync_ref w op args dir base_ref =
     and_then (head_sha w dir) (\<lambda>before.
     and_then (run_git w dir args) (\<lambda>out.
       if \<not> out_success out
       then and_then (unmerged_paths w dir) (\<lambda>paths.
            and_then (abort_in_progress w dir op) (\<lambda>_.
              if paths = []
              then fail (WriteFailed (''git '' @ sync_name op @ '' '' @ base_ref @ '' in '' @ dir @
                           '' could not start (not a conflict): '' @ trim (out_stderr out)))
              else ret (Conflicted paths)))
       else and_then (head_sha w dir) (\<lambda>after.
              ret (if after = before then AlreadyUpToDate else Applied after))))"

definition merge_ref_into_worktree :: "'g world \<Rightarrow> string \<Rightarrow> string \<Rightarrow> ('g, workflow_error, sync_outcome) io" where
  "merge_ref_into_worktree w dir base_ref = sync_ref w Merge [''merge'', ''--no-edit'', base_ref] dir base_ref"

definition rebase_branch_onto_ref :: "'g world \<Rightarrow> string \<Rightarrow> string \<Rightarrow> ('g, workflow_error, sync_outcome) io" where
  "rebase_branch_onto_ref w dir base_ref = sync_ref w Rebase [''rebase'', base_ref] dir base_ref"

definition push_branch :: "'g world \<Rightarrow> string \<Rightarrow> string \<Rightarrow> string \<Rightarrow> ('g, workflow_error, unit) io" where
  "push_branch w dir remote branch =
     and_then (checked_git w dir [''push'', ''--quiet'', remote, branch]
                 (\<lambda>out. ''git push '' @ remote @ '' '' @ branch @ '': '' @ trim (out_stderr out)))
       (\<lambda>_. ret ())"

section \<open>Revs and remotes\<close>

definition git_rev_parse :: "'g world \<Rightarrow> string \<Rightarrow> string \<Rightarrow> ('g, string, string) io" where
  "git_rev_parse w cwd revision =
     and_then (on_err (\<lambda>e. ''git rev-parse: '' @ e) (git_cmd w cwd [''rev-parse'', revision])) (\<lambda>out.
       if out_success out then ret (trim (out_stdout out))
       else fail (''git rev-parse '' @ revision @ '' in '' @ cwd @ '' failed: '' @ out_stderr out))"

definition git_rev_parse_abbrev_ref :: "'g world \<Rightarrow> string \<Rightarrow> string \<Rightarrow> ('g, string, string) io" where
  "git_rev_parse_abbrev_ref w cwd revision =
     and_then (on_err (\<lambda>e. ''git rev-parse --abbrev-ref: '' @ e) (git_cmd w cwd [''rev-parse'', ''--abbrev-ref'', revision])) (\<lambda>out.
       if \<not> out_success out
       then fail (''git rev-parse --abbrev-ref '' @ revision @ '' in '' @ cwd @ '' failed: '' @ out_stderr out)
       else if trim (out_stdout out) = ''HEAD''
       then fail (''git rev-parse --abbrev-ref '' @ revision @ '' in '' @ cwd @ '' resolved to detached HEAD'')
       else ret (trim (out_stdout out)))"

definition git_head_branch_name :: "'g world \<Rightarrow> string \<Rightarrow> ('g, string, string option) io" where
  "git_head_branch_name w cwd =
     and_then (on_err (\<lambda>e. ''git rev-parse --abbrev-ref HEAD: '' @ e)
                 (git_cmd w cwd [''rev-parse'', ''--abbrev-ref'', ''HEAD''])) (\<lambda>out.
       if \<not> out_success out
       then fail (''git rev-parse --abbrev-ref HEAD in '' @ cwd @ '' failed: '' @ out_stderr out)
       else ret (if trim (out_stdout out) = ''HEAD'' then None else Some (trim (out_stdout out))))"

definition checked_out_branch_name :: "'g world \<Rightarrow> string \<Rightarrow> ('g, string, string option) io" where
  "checked_out_branch_name w worktree = git_head_branch_name w worktree"

text \<open>The upstream of the current branch is named by the word \<open>upstream\<close> in braces after an at sign.\<close>

definition upstream_rev :: string where
  "upstream_rev = [CHR 0x40, CHR 0x7B] @ ''upstream'' @ [CHR 0x7D]"

definition detect_default_remote_name :: "'g world \<Rightarrow> string \<Rightarrow> ('g, 'e, string option) io" where
  "detect_default_remote_name w repo_root =
     and_then (attempt (git_cmd w repo_root [''rev-parse'', ''--abbrev-ref'', upstream_rev])) (\<lambda>r.
       ret (case r of
              Inl _ \<Rightarrow> None
            | Inr out \<Rightarrow>
                if \<not> out_success out then None
                else let s = trim (out_stdout out)
                     in if s = [] \<or> s = ''HEAD'' then None
                        else let remote = (case split_once (CHR ''/'') s of Some (r, _) \<Rightarrow> r | None \<Rightarrow> s)
                             in if remote = [] then None else Some remote))"

definition default_remote :: "'g world \<Rightarrow> string \<Rightarrow> ('g, 'e, string) io" where
  "default_remote w repo_root =
     and_then (detect_default_remote_name w repo_root)
       (\<lambda>r. ret (case r of Some r \<Rightarrow> r | None \<Rightarrow> ''origin''))"

text \<open>The \<open>expect\<close> after a successful validation: a ref without a slash would panic.\<close>

definition fetch_validated :: "'g world \<Rightarrow> string \<Rightarrow> string \<Rightarrow> ('g, string, unit) io" where
  "fetch_validated w repo_root integration_base_ref =
     (case split_once (CHR ''/'') integration_base_ref of
        None \<Rightarrow> fail ''panic''
      | Some (remote, branch) \<Rightarrow>
          and_then (on_err (\<lambda>e. ''git fetch '' @ remote @ '' '' @ branch @ '': '' @ e)
                      (git_cmd w repo_root [''fetch'', remote, branch])) (\<lambda>out.
            if out_success out then ret ()
            else fail (''git fetch '' @ remote @ '' '' @ branch @ '' failed: '' @ out_stderr out)))"

definition fetch_integration_base :: "'g world \<Rightarrow> string \<Rightarrow> string \<Rightarrow> ('g, string, unit) io" where
  "fetch_integration_base w repo_root r =
     and_then (of_result (validate_integration_base_ref r)) (\<lambda>_. fetch_validated w repo_root r)"

definition fetch_chain_pr_integration_base :: "'g world \<Rightarrow> string \<Rightarrow> string \<Rightarrow> ('g, string, unit) io" where
  "fetch_chain_pr_integration_base w repo_root r =
     and_then (of_result (validate_chain_pr_integration_base_ref r)) (\<lambda>_. fetch_validated w repo_root r)"

definition fetch_ref_for_workflow :: "'g world \<Rightarrow> string \<Rightarrow> string \<Rightarrow> ('g, string, unit) io" where
  "fetch_ref_for_workflow w repo_root start_ref =
     (if validate_integration_base_ref start_ref = Inr () then fetch_integration_base w repo_root start_ref
      else if validate_chain_pr_integration_base_ref start_ref = Inr ()
      then fetch_chain_pr_integration_base w repo_root start_ref
      else fail (''invalid workflow integration base ref for fetch: '' @ start_ref))"

definition push_new_branch_to_remote :: "'g world \<Rightarrow> string \<Rightarrow> string \<Rightarrow> string \<Rightarrow> ('g, string, unit) io" where
  "push_new_branch_to_remote w worktree_dir branch remote =
     and_then (on_err (\<lambda>e. ''git push -u '' @ remote @ '' '' @ branch @ '': '' @ e)
                 (git_cmd w worktree_dir [''push'', ''-u'', remote, branch])) (\<lambda>out.
       if out_success out then ret ()
       else fail (''git push -u '' @ remote @ '' '' @ branch @ '' failed: '' @ trim (out_stderr out)))"

definition remote_ref_exists :: "'g world \<Rightarrow> string \<Rightarrow> string \<Rightarrow> ('g, string, bool) io" where
  "remote_ref_exists w repo_root revision =
     and_then (on_err (\<lambda>e. ''git rev-parse: '' @ e) (git_cmd w repo_root [''rev-parse'', ''--verify'', revision]))
       (\<lambda>out. ret (out_success out))"

definition remote_branch_ref_sha :: "'g world \<Rightarrow> string \<Rightarrow> string \<Rightarrow> ('g, 'e, string option) io" where
  "remote_branch_ref_sha w repo_root branch0 =
     (let branch = trim branch0
      in if branch = [] then ret None
         else and_then (default_remote w repo_root) (\<lambda>remote.
              and_then (attempt (git_cmd w repo_root
                          [''rev-parse'', ''--verify'', ''--quiet'', ''refs/remotes/'' @ remote @ ''/'' @ branch])) (\<lambda>r.
                ret (case r of
                       Inl _ \<Rightarrow> None
                     | Inr out \<Rightarrow> if out_success out \<and> trim (out_stdout out) \<noteq> [] then Some (trim (out_stdout out))
                                 else None))))"

section \<open>What the primitives leave behind\<close>

lemma checked_git_Inr [io_simps]:
  "checked_git w dir args msg g = (Inr out, g') \<longleftrightarrow> git_cmd w dir args g = (Inr out, g') \<and> out_success out"
  by (auto simp: checked_git_def run_git_def io_simps split: if_splits)

text \<open>\<open>git rev-parse\<close> only reads.\<close>

definition rev_parse_reads :: "'g world \<Rightarrow> string \<Rightarrow> bool" where
  "rev_parse_reads w dir \<longleftrightarrow> (\<forall>args g. snd (git_cmd w dir (''rev-parse'' # args) g) = g)"

lemma run_git_state: "snd (run_git w dir args g) = snd (git_cmd w dir args g)"
  by (simp add: run_git_def on_err_def case_prod_beta)

lemma ref_sha_state: "rev_parse_reads w dir \<Longrightarrow> ref_sha w dir r g = (x, g') \<Longrightarrow> g' = g"
  unfolding rev_parse_reads_def ref_sha_def and_then_def attempt_def ret_def
  by (simp add: run_git_state case_prod_beta)

lemma git_path_exists_state: "rev_parse_reads w dir \<Longrightarrow> git_path_exists w dir r g = (x, g') \<Longrightarrow> g' = g"
  unfolding rev_parse_reads_def git_path_exists_def git_path_def and_then_def attempt_def ret_def
  by (simp add: run_git_state case_prod_beta)

lemma left_state_in_state:
  assumes "rev_parse_reads w dir" and "left_state_in w op dir g = (x, g')"
  shows "g' = g"
proof (cases op)
  case Merge
  then show ?thesis
    using assms ref_sha_state [OF assms(1)]
    by (auto simp: left_state_in_def and_then_def ret_def split: prod.splits sum.splits)
next
  case Rebase
  then show ?thesis
    using assms git_path_exists_state [OF assms(1)]
    by (auto simp: left_state_in_def and_then_def ret_def split: prod.splits sum.splits if_splits) metis
qed

text \<open>A successful \<open>--abort\<close> ends the operation in progress.\<close>

definition abort_ends :: "'g world \<Rightarrow> sync \<Rightarrow> string \<Rightarrow> bool" where
  "abort_ends w op dir \<longleftrightarrow>
     (\<forall>g out g'. git_cmd w dir [sync_name op, ''--abort''] g = (Inr out, g') \<and> out_success out \<longrightarrow>
        fst (left_state_in w op dir g' :: (workflow_error + bool) \<times> 'g) = Inr False)"

lemma abort_in_progress_done:
  assumes "rev_parse_reads w dir" and "abort_ends w op dir" and "abort_in_progress w dir op g = (Inr u, g')"
  shows "fst (left_state_in w op dir g' :: (workflow_error + bool) \<times> 'g) = Inr False"
proof -
  obtain left g1 where left: "left_state_in w op dir g = (Inr left :: workflow_error + bool, g1)"
    using assms(3) by (auto simp: abort_in_progress_def io_simps)
  note g1 = left_state_in_state [OF assms(1) left]
  show ?thesis
  proof (cases left)
    case True
    then obtain out where "git_cmd w dir [sync_name op, ''--abort''] g1 = (Inr out, g') \<and> out_success out"
      using assms(3) left by (auto simp: abort_in_progress_def io_simps)
    then show ?thesis using assms(2) unfolding abort_ends_def by blast
  next
    case False
    then have "g' = g1" using assms(3) left by (auto simp: abort_in_progress_def io_simps)
    then show ?thesis using left g1 False by simp
  qed
qed

lemma sync_ref_conflict:
  assumes "rev_parse_reads w dir" and "abort_ends w op dir"
    and "sync_ref w op args dir base g = (Inr (Conflicted paths), g')"
  shows "fst (left_state_in w op dir g' :: (workflow_error + bool) \<times> 'g) = Inr False" and "paths \<noteq> []"
proof -
  obtain g1 u where "abort_in_progress w dir op g1 = (Inr u, g')" "paths \<noteq> []"
    using assms(3) by (auto simp: sync_ref_def io_simps split: if_splits)
  then show "fst (left_state_in w op dir g' :: (workflow_error + bool) \<times> 'g) = Inr False" "paths \<noteq> []"
    using abort_in_progress_done [OF assms(1,2)] by blast+
qed

section \<open>Properties\<close>


text \<open>
  A worktree whose merge conflicts, for the witness: the state says whether a merge is in progress.
\<close>

definition conflicting_world :: "bool world" where
  "conflicting_world =
     \<lparr>git_cmd = (\<lambda>dir args g.
        if args = [''merge'', ''--abort''] then (Inr (succeeded []), False)
        else if take 1 args = [''merge''] then (Inr (failed ''conflict''), True)
        else (Inr (if take 1 args = [''diff''] then succeeded ''a.rs''
                   else if args = [''rev-parse'', ''HEAD''] then succeeded ''c0ffee''
                   else if last args = ''MERGE_HEAD'' \<and> g then succeeded ''beef'' else failed []), g)),
      path_exists = (\<lambda>_ _. False), canonicalize = (\<lambda>p _. Inr p),
      create_dir_all = (\<lambda>_ g. (Inr (), g)), remove_dir_all = (\<lambda>_ g. (Inr (), g))\<rparr>"


end
