(* ===== verification/Worktrees.thy ===== *)
theory Worktrees
  imports Git_Ops
begin

text \<open>
  Linked worktrees under \<open>.worktrees/\<close> (\<open>tddy-git\<close>, \<open>worktree.rs\<close>): creating with retries, adding one for an
  existing branch, finding one to reuse, removing and listing. Paths are strings; two canonical paths are
  compared as strings, and the order of paths is the order of their components.
\<close>

definition worktree_dir :: "string \<Rightarrow> string" where
  "worktree_dir repo_root = path_join repo_root ''.worktrees''"

text \<open>\<open>p.canonicalize().unwrap_or(p)\<close>.\<close>

definition canonical_or :: "'g world \<Rightarrow> string \<Rightarrow> 'g \<Rightarrow> string" where
  "canonical_or w p g = (case canonicalize w p g of Inl _ \<Rightarrow> p | Inr c \<Rightarrow> c)"

definition ret_canonical :: "'g world \<Rightarrow> string \<Rightarrow> ('g, 'e, string) io" where
  "ret_canonical w p g = (Inr (canonical_or w p g), g)"

definition already_exists :: "string \<Rightarrow> string" where
  "already_exists p =
     ''worktree path already exists at '' @ p @ '' '' @ em_dash @
     '' reuse the existing worktree or confirm before proceeding''"

definition create_worktree ::
    "'g world \<Rightarrow> string \<Rightarrow> string \<Rightarrow> string \<Rightarrow> string option \<Rightarrow> ('g, string, string) io" where
  "create_worktree w repo_root name branch start_point =
     (let worktrees = worktree_dir repo_root; worktree_path = path_join worktrees name
      in and_then (on_err (\<lambda>e. ''create worktrees dir: '' @ e) (create_dir_all w worktrees)) (\<lambda>_ g.
           if path_exists w worktree_path g then fail (already_exists worktree_path) g
           else and_then (on_err (\<lambda>e. ''git worktree add: '' @ e)
                  (git_cmd w repo_root ([''worktree'', ''add'', worktree_path, ''-b'', branch] @
                                        (case start_point of None \<Rightarrow> [] | Some sp \<Rightarrow> [sp])))) (\<lambda>out.
                  if out_success out then ret_canonical w worktree_path
                  else fail (''git worktree add failed: '' @ out_stderr out)) g))"

definition git_worktree_list :: "'g world \<Rightarrow> string \<Rightarrow> ('g, string, string) io" where
  "git_worktree_list w repo_root =
     and_then (on_err (\<lambda>e. ''git worktree list: '' @ e) (git_cmd w repo_root [''worktree'', ''list'', ''--porcelain''])) (\<lambda>out.
       if out_success out then ret (out_stdout out) else fail (''git worktree list failed: '' @ out_stderr out))"

definition worktree_lines :: "string \<Rightarrow> string list" where
  "worktree_lines stdout = map trim (List.map_filter (strip_prefix ''worktree '') (str_lines stdout))"

definition path_is_registered_worktree_of_repo :: "'g world \<Rightarrow> string \<Rightarrow> string \<Rightarrow> ('g, string, bool) io" where
  "path_is_registered_worktree_of_repo w repo_root worktree_path g =
     (case canonicalize w worktree_path g of
        Inl e \<Rightarrow> (Inl (''canonicalize '' @ worktree_path @ '': '' @ e), g)
      | Inr want \<Rightarrow>
          and_then (git_worktree_list w repo_root)
            (\<lambda>stdout g. (Inr (list_ex (\<lambda>p. canonical_or w p g = want) (worktree_lines stdout)), g)) g)"

definition try_reuse_linked_worktree_at_path ::
    "'g world \<Rightarrow> string \<Rightarrow> string \<Rightarrow> string \<Rightarrow> ('g, string, string option) io" where
  "try_reuse_linked_worktree_at_path w repo_root worktree_path branch g =
     (if \<not> path_exists w worktree_path g then (Inr None, g)
      else and_then (path_is_registered_worktree_of_repo w repo_root worktree_path) (\<lambda>registered.
             if \<not> registered then ret None
             else and_then (git_rev_parse w repo_root branch) (\<lambda>expected.
                  and_then (git_rev_parse w worktree_path ''HEAD'') (\<lambda>actual.
                    if expected \<noteq> actual
                    then fail (''existing worktree at '' @ worktree_path @ '' has HEAD '' @ actual @ '' but '' @ branch @
                               '' resolves to '' @ expected @
                               ''; remove the directory or fix the worktree before retrying'')
                    else and_then (ret_canonical w worktree_path) (\<lambda>p. ret (Some p))))) g)"

definition registered_worktree_paths :: "'g world \<Rightarrow> string \<Rightarrow> ('g, string, string list) io" where
  "registered_worktree_paths w repo_root =
     and_then (git_worktree_list w repo_root) (\<lambda>stdout. ret (worktree_lines stdout))"

definition is_linked :: "string \<Rightarrow> bool" where
  "is_linked p \<longleftrightarrow> contains ''/.worktrees/'' p"

fun scan_worktrees ::
    "'g world \<Rightarrow> string \<Rightarrow> string option \<Rightarrow> string list \<Rightarrow> string list \<Rightarrow> string list
       \<Rightarrow> ('g, string, string list \<times> string list) io" where
  "scan_worktrees w target want [] by_name by_commit = ret (by_name, by_commit)"
| "scan_worktrees w target want (p # ps) by_name by_commit =
     (\<lambda>g. if \<not> path_exists w p g then scan_worktrees w target want ps by_name by_commit g
          else and_then (case want of
                           None \<Rightarrow> ret False
                         | Some b \<Rightarrow> and_then (git_head_branch_name w p) (\<lambda>cur. ret (cur = Some b))) (\<lambda>named g.
                 if named then scan_worktrees w target want ps (by_name @ [canonical_or w p g]) by_commit g
                 else and_then (attempt (git_rev_parse w p ''HEAD'')) (\<lambda>head g.
                        if head = Inr target \<and> is_linked p
                        then scan_worktrees w target want ps by_name (by_commit @ [canonical_or w p g]) g
                        else scan_worktrees w target want ps by_name by_commit g) g) g)"

definition path_components :: "string \<Rightarrow> string list" where
  "path_components p = filter (\<lambda>c. c \<noteq> []) (split_on (CHR ''/'') p)"

definition preferred :: "string list \<Rightarrow> string option" where
  "preferred ps =
     (case sort_key (\<lambda>p. (\<not> is_linked p, path_components p)) ps of [] \<Rightarrow> None | p # _ \<Rightarrow> Some p)"

definition find_existing_worktree_for_branch_ref ::
    "'g world \<Rightarrow> string \<Rightarrow> string \<Rightarrow> ('g, string, string option) io" where
  "find_existing_worktree_for_branch_ref w repo_root branch_ref =
     and_then (git_rev_parse w repo_root branch_ref) (\<lambda>target.
     and_then (attempt (git_rev_parse_abbrev_ref w repo_root branch_ref)) (\<lambda>want.
     and_then (registered_worktree_paths w repo_root) (\<lambda>paths.
     and_then (scan_worktrees w target (case want of Inl _ \<Rightarrow> None | Inr b \<Rightarrow> Some b) paths [] []) (\<lambda>(by_name, by_commit).
       ret (if by_name \<noteq> [] then preferred by_name
            else if by_commit \<noteq> [] then preferred by_commit else None)))))"

definition try_find_existing_worktree_for_branch_ref ::
    "'g world \<Rightarrow> string \<Rightarrow> string \<Rightarrow> ('g, string, string option) io" where
  "try_find_existing_worktree_for_branch_ref w repo_root branch_ref =
     and_then (on_err (\<lambda>e. ''git rev-parse --verify: '' @ e)
                 (git_cmd w repo_root [''rev-parse'', ''--verify'', branch_ref])) (\<lambda>verify.
       if out_success verify then find_existing_worktree_for_branch_ref w repo_root branch_ref else ret None)"

definition worktree_path_for_branch :: "'g world \<Rightarrow> string \<Rightarrow> string \<Rightarrow> ('g, 'e, string option) io" where
  "worktree_path_for_branch w repo_root branch =
     and_then (attempt (try_find_existing_worktree_for_branch_ref w repo_root branch))
       (\<lambda>r. ret (case r of Inl _ \<Rightarrow> None | Inr p \<Rightarrow> p))"

definition branch_in_use :: "string \<Rightarrow> bool" where
  "branch_in_use stderr \<longleftrightarrow>
     contains ''already used'' stderr \<or> contains ''is already checked out'' stderr \<or>
     contains ''already'' (to_lowercase stderr)"

definition add_worktree_for_existing_branch ::
    "'g world \<Rightarrow> string \<Rightarrow> string \<Rightarrow> string \<Rightarrow> ('g, string, string) io" where
  "add_worktree_for_existing_branch w repo_root name branch =
     (let worktrees = worktree_dir repo_root; worktree_path = path_join worktrees name
      in and_then (on_err (\<lambda>e. ''create worktrees dir: '' @ e) (create_dir_all w worktrees)) (\<lambda>_ g.
           if path_exists w worktree_path g
           then and_then (try_reuse_linked_worktree_at_path w repo_root worktree_path branch) (\<lambda>r.
                  case r of Some p \<Rightarrow> ret p | None \<Rightarrow> fail (already_exists worktree_path)) g
           else and_then (on_err (\<lambda>e. ''git worktree add: '' @ e)
                  (git_cmd w repo_root [''worktree'', ''add'', worktree_path, branch])) (\<lambda>direct.
                  if out_success direct then ret_canonical w worktree_path
                  else if \<not> branch_in_use (out_stderr direct)
                  then fail (''git worktree add failed: '' @ out_stderr direct)
                  else and_then (on_err (\<lambda>e. ''git rev-parse: '' @ e)
                         (git_cmd w repo_root [''rev-parse'', ''--verify'', ''refs/heads/'' @ branch])) (\<lambda>rev_out.
                       if \<not> out_success rev_out
                       then fail (''git rev-parse refs/heads/'' @ branch @ '' failed: '' @ out_stderr rev_out)
                       else and_then (on_err (\<lambda>e. ''git worktree add --detach: '' @ e)
                              (git_cmd w repo_root [''worktree'', ''add'', ''--detach'', worktree_path,
                                                    trim (out_stdout rev_out)])) (\<lambda>detach.
                            if \<not> out_success detach
                            then fail (''git worktree add --detach failed: '' @ out_stderr detach)
                            else and_then (on_err (\<lambda>e. ''git switch: '' @ e)
                                   (git_cmd w worktree_path [''switch'', ''--ignore-other-worktrees'', branch])) (\<lambda>sw.
                                 if out_success sw then ret_canonical w worktree_path
                                 else fail (''git switch --ignore-other-worktrees '' @ branch @ '' failed: '' @
                                            out_stderr sw))))) g))"

definition max_worktree_retries :: nat where
  "max_worktree_retries = 20"

fun retry_worktree ::
    "'g world \<Rightarrow> string \<Rightarrow> string \<Rightarrow> string \<Rightarrow> string option \<Rightarrow> nat list \<Rightarrow> ('g, string, string \<times> string) io" where
  "retry_worktree w repo_root name branch start_point [] =
     fail (''exhausted '' @ show_nat max_worktree_retries @ '' retries for branch '' @ debug_str branch)"
| "retry_worktree w repo_root name branch start_point (i # is) =
     and_then (attempt (create_worktree w repo_root (suffixed name i) (suffixed branch i) start_point)) (\<lambda>r.
       case r of
         Inr path \<Rightarrow> ret (path, suffixed branch i)
       | Inl e \<Rightarrow> if contains ''already exists'' e then retry_worktree w repo_root name branch start_point is else fail e)"

definition create_worktree_with_retry ::
    "'g world \<Rightarrow> string \<Rightarrow> string \<Rightarrow> string \<Rightarrow> string option \<Rightarrow> ('g, string, string \<times> string) io" where
  "create_worktree_with_retry w repo_root name branch start_point =
     and_then (attempt (create_worktree w repo_root name branch start_point)) (\<lambda>r.
       case r of
         Inr path \<Rightarrow> ret (path, branch)
       | Inl e \<Rightarrow> if contains ''already exists'' e
                  then retry_worktree w repo_root name branch start_point [1..<max_worktree_retries + 1] else fail e)"

definition remove_worktree :: "'g world \<Rightarrow> string \<Rightarrow> string \<Rightarrow> ('g, string, unit) io" where
  "remove_worktree w repo_root worktree_path =
     and_then (on_err (\<lambda>e. ''git worktree remove: '' @ e)
                 (git_cmd w repo_root [''worktree'', ''remove'', ''--force'', worktree_path])) (\<lambda>out g.
       if \<not> out_success out \<and> path_exists w worktree_path g
       then on_err (\<lambda>e. ''remove worktree dir: '' @ e) (remove_dir_all w worktree_path) g
       else (Inr (), g))"

record worktree_info =
  wt_path :: string
  wt_branch :: "string option"

fun parse_worktrees :: "string list \<Rightarrow> string option \<Rightarrow> string option \<Rightarrow> worktree_info list" where
  "parse_worktrees [] path br = (case path of None \<Rightarrow> [] | Some p \<Rightarrow> [\<lparr>wt_path = p, wt_branch = br\<rparr>])"
| "parse_worktrees (l # ls) path br =
     (case strip_prefix ''worktree '' l of
        Some p \<Rightarrow>
          (case path of None \<Rightarrow> [] | Some q \<Rightarrow> [\<lparr>wt_path = q, wt_branch = br\<rparr>]) @
          parse_worktrees ls (Some (trim p)) None
      | None \<Rightarrow>
          (case strip_prefix ''branch '' l of
             Some b \<Rightarrow> parse_worktrees ls path (Some (trim b))
           | None \<Rightarrow> parse_worktrees ls path br))"

definition list_worktrees :: "'g world \<Rightarrow> string \<Rightarrow> ('g, string, worktree_info list) io" where
  "list_worktrees w repo_root =
     and_then (git_worktree_list w repo_root) (\<lambda>stdout. ret (parse_worktrees (str_lines stdout) None None))"

section \<open>Which worktree is reused\<close>

text \<open>In a world where \<open>rev-parse\<close> only reads, a scan sees every worktree in the same state.\<close>

definition reads_everywhere :: "'g world \<Rightarrow> bool" where
  "reads_everywhere w \<longleftrightarrow> (\<forall>dir. rev_parse_reads w dir)"

definition checked_out :: "'g world \<Rightarrow> 'g \<Rightarrow> string \<Rightarrow> string option" where
  "checked_out w g p = (case fst (git_head_branch_name w p g) of Inr b \<Rightarrow> b | Inl _ \<Rightarrow> None)"

definition holds_branch :: "'g world \<Rightarrow> 'g \<Rightarrow> string option \<Rightarrow> string \<Rightarrow> bool" where
  "holds_branch w g want p \<longleftrightarrow> path_exists w p g \<and> want \<noteq> None \<and> checked_out w g p = want"

definition shares_tip :: "'g world \<Rightarrow> 'g \<Rightarrow> string \<Rightarrow> string \<Rightarrow> bool" where
  "shares_tip w g target p \<longleftrightarrow> path_exists w p g \<and> is_linked p \<and> fst (git_rev_parse w p ''HEAD'' g) = Inr target"

lemma rev_parse_state: "reads_everywhere w \<Longrightarrow> snd (git_cmd w dir (''rev-parse'' # args) g) = g"
  by (simp add: reads_everywhere_def rev_parse_reads_def)

lemma git_head_branch_name_state:
  "reads_everywhere w \<Longrightarrow> git_head_branch_name w p g = (r, g') \<Longrightarrow> g' = g"
  using rev_parse_state [of w p "[''--abbrev-ref'', ''HEAD'']" g]
  by (auto simp: git_head_branch_name_def and_then_def on_err_def ret_def fail_def split: prod.splits sum.splits if_splits)

lemma git_rev_parse_state:
  "reads_everywhere w \<Longrightarrow> git_rev_parse w p r g = (x, g') \<Longrightarrow> g' = g"
  using rev_parse_state [of w p "[r]" g]
  by (auto simp: git_rev_parse_def and_then_def on_err_def ret_def fail_def split: prod.splits sum.splits if_splits)

lemma scan_worktrees_Inr:
  assumes "reads_everywhere w" and "scan_worktrees w target want ps bn bc g = (Inr (bn', bc'), g')"
  shows "g' = g \<and> bn' = bn @ map (\<lambda>p. canonical_or w p g) (filter (holds_branch w g want) ps) \<and>
         bc' = bc @ map (\<lambda>p. canonical_or w p g) (filter (\<lambda>p. shares_tip w g target p \<and> \<not> holds_branch w g want p) ps)"
  using assms(2)
proof (induction ps arbitrary: bn bc)
  case (Cons p ps)
  show ?case
  proof (cases "path_exists w p g")
    case False
    with Cons show ?thesis by (auto simp: holds_branch_def shares_tip_def)
  next
    case True
    obtain named g1 where n: "(case want of None \<Rightarrow> ret False
        | Some b \<Rightarrow> and_then (git_head_branch_name w p) (\<lambda>cur. ret (cur = Some b))) g = (Inr named, g1)"
      using Cons.prems True by (auto simp: io_simps)
    have named: "named = holds_branch w g want p" and g1: "g1 = g"
      using n True git_head_branch_name_state [OF assms(1), of p g]
      by (auto simp: holds_branch_def checked_out_def io_simps split: option.splits)
    show ?thesis
    proof (cases named)
      case True
      then have "scan_worktrees w target want ps (bn @ [canonical_or w p g]) bc g = (Inr (bn', bc'), g')"
        using Cons.prems n g1 \<open>path_exists w p g\<close> by (auto simp: io_simps)
      from Cons.IH [OF this] True named show ?thesis by simp
    next
      case False
      obtain head g2 where h: "git_rev_parse w p ''HEAD'' g = (head, g2)" by (cases "git_rev_parse w p ''HEAD'' g")
      have "g2 = g" using git_rev_parse_state [OF assms(1) h] .
      then have "scan_worktrees w target want ps bn
          (if shares_tip w g target p then bc @ [canonical_or w p g] else bc) g = (Inr (bn', bc'), g')"
        using Cons.prems n g1 h False \<open>path_exists w p g\<close> by (auto simp: io_simps shares_tip_def split: if_splits)
      from Cons.IH [OF this] False named show ?thesis by simp
    qed
  qed
qed (simp add: io_simps)

lemma preferred_mem: "preferred ps = Some p \<Longrightarrow> p \<in> set ps"
proof -
  assume "preferred ps = Some p"
  then obtain qs where "sort_key (\<lambda>p. (\<not> is_linked p, path_components p)) ps = p # qs"
    by (auto simp: preferred_def split: list.splits)
  then have "set (p # qs) = set ps" by (metis set_sort)
  then show ?thesis by auto
qed

section \<open>Properties\<close>

text \<open>
  A worktree offered for reuse is a registered one that exists: either it has the branch itself checked
  out, or no registered worktree has and it is one under \<open>.worktrees/\<close> whose head is the tip of the branch.
  So the primary checkout on another branch is never offered for a branch at the same commit.
\<close>

theorem reused_worktree:
  assumes "reads_everywhere w" and "find_existing_worktree_for_branch_ref w repo r g = (Inr (Some q), g')"
    and "registered_worktree_paths w repo g = (Inr paths, g)"
    and "git_rev_parse w repo r g = (Inr target, g)"
    and "want = (case fst (git_rev_parse_abbrev_ref w repo r g) of Inl _ \<Rightarrow> None | Inr b \<Rightarrow> Some b)"
  shows "\<exists>p. p \<in> set paths \<and> q = canonical_or w p g \<and>
           (holds_branch w g want p \<or> shares_tip w g target p \<and> \<not> list_ex (holds_branch w g want) paths)"
proof -
  obtain b g1 where b: "git_rev_parse_abbrev_ref w repo r g = (b, g1)" by (cases "git_rev_parse_abbrev_ref w repo r g")
  have "g1 = g"
    using b rev_parse_state [OF assms(1), of repo "[''--abbrev-ref'', r]" g]
    by (auto simp: git_rev_parse_abbrev_ref_def and_then_def on_err_def ret_def fail_def split: prod.splits sum.splits if_splits)
  then obtain bn bc g2 where sc: "scan_worktrees w target want paths [] [] g = (Inr (bn, bc), g2)"
      and q: "Some q = (if bn \<noteq> [] then preferred bn else if bc \<noteq> [] then preferred bc else None)"
    using assms(2-5) b by (auto simp: find_existing_worktree_for_branch_ref_def io_simps)
  note res = scan_worktrees_Inr [OF assms(1) sc]
  show ?thesis
  proof (cases "bn = []")
    case False
    then have "q \<in> set bn" using q preferred_mem by (metis (full_types))
    then show ?thesis using res by auto
  next
    case True
    then have "q \<in> set bc" using q preferred_mem by (metis option.distinct(1))
    moreover have "\<not> list_ex (holds_branch w g want) paths"
      using True res by (auto simp: filter_empty_conv list_ex_iff)
    ultimately show ?thesis using res by auto
  qed
qed

text \<open>A repository whose primary checkout is on \<open>main\<close> and whose linked worktree holds \<open>feature\<close>.\<close>

definition two_worktrees :: "unit world" where
  "two_worktrees =
     \<lparr>git_cmd = (\<lambda>dir args g.
        (Inr (if args = [''worktree'', ''list'', ''--porcelain'']
              then succeeded (''worktree /r'' @ [CHR 0x0A] @ ''worktree /r/.worktrees/f'')
              else if args = [''rev-parse'', ''--abbrev-ref'', ''HEAD'']
              then succeeded ((if dir = ''/r'' then ''main'' else ''feature''))
              else if args = [''rev-parse'', ''--abbrev-ref'', ''feature'']
              then succeeded (''feature'')
              else succeeded (''c0ffee'')), g)),
      path_exists = (\<lambda>_ _. True), canonicalize = (\<lambda>p _. Inr p),
      create_dir_all = (\<lambda>_ g. (Inr (), g)), remove_dir_all = (\<lambda>_ g. (Inr (), g))\<rparr>"

theorem reused_worktree_witness:
  "find_existing_worktree_for_branch_ref two_worktrees ''/r'' ''feature'' () = (Inr (Some ''/r/.worktrees/f''), ()) \<and>
   (\<exists>p. p \<in> set [''/r'', ''/r/.worktrees/f''] \<and> ''/r/.worktrees/f'' = canonical_or two_worktrees p () \<and>
      (holds_branch two_worktrees () (Some ''feature'') p \<or> shares_tip two_worktrees () ''c0ffee'' p \<and>
         \<not> list_ex (holds_branch two_worktrees () (Some ''feature'')) [''/r'', ''/r/.worktrees/f'']))"
proof -
  have find: "find_existing_worktree_for_branch_ref two_worktrees ''/r'' ''feature'' () = (Inr (Some ''/r/.worktrees/f''), ())"
    by code_simp
  have reads: "reads_everywhere two_worktrees"
    by (simp add: reads_everywhere_def rev_parse_reads_def two_worktrees_def)
  have paths: "registered_worktree_paths two_worktrees ''/r'' () = (Inr [''/r'', ''/r/.worktrees/f''], ())"
    by code_simp
  have target: "git_rev_parse two_worktrees ''/r'' ''feature'' () = (Inr ''c0ffee'', ())" by code_simp
  have want: "Some ''feature'' = (case fst (git_rev_parse_abbrev_ref two_worktrees ''/r'' ''feature'' ()) of
      Inl _ \<Rightarrow> None | Inr b \<Rightarrow> Some b)"
    by code_simp
  show ?thesis using find reused_worktree [OF reads find paths target want] by blast
qed

end
