(* ===== verification/Stack_Realign.thy ===== *)
theory Stack_Realign
  imports Stack_Ops Worktrees
begin

text \<open>
  The writers that also touch git and GitHub (\<open>tddy-pr-stack\<close>, \<open>stack_ops/repoint.rs\<close> and
  \<open>set_stack_node_parents\<close> of \<open>nodes.rs\<close>): they rewrite a node's parents in the manifest and then bring the
  branch and the pull request in line with them. Their state is the directory tree of the manifests and
  the state of the outside world, on which git (a \<open>world\<close>) and the GitHub API act.
\<close>

record 'g github =
  get_open_pr :: "string \<Rightarrow> ('g, string, nat option) io"
  patch_pr_base :: "nat \<Rightarrow> string \<Rightarrow> ('g, string, unit) io"

definition on_git :: "('g, 'e, 'a) io \<Rightarrow> ('y fs \<times> 'g, 'e, 'a) io" where
  "on_git m s = (case m (snd s) of (r, g') \<Rightarrow> (r, (fst s, g')))"

definition on_manifest :: "('y fs, 'e, 'a) io \<Rightarrow> ('y fs \<times> 'g, 'e, 'a) io" where
  "on_manifest m s = (case m (fst s) of (r, fs') \<Rightarrow> (r, (fs', snd s)))"

text \<open>The two accesses to the manifest, with the caller's message for each error.\<close>

definition load_stack :: "'y yaml_io \<Rightarrow> string \<Rightarrow> (string \<Rightarrow> string) \<Rightarrow> ('y fs, string, stack) io" where
  "load_stack io dir msg fs = (map_err (\<lambda>e. msg (show_workflow_error e)) (stored_stack io fs dir), fs)"

definition write_stack ::
    "'y yaml_io \<Rightarrow> string \<Rightarrow> (string \<Rightarrow> string) \<Rightarrow> (stack \<Rightarrow> 'r \<times> stack) \<Rightarrow> ('y fs, string, 'r) io" where
  "write_stack io dir msg change fs =
     (case update_stack_atomic io fs dir change of
        Inl e \<Rightarrow> (Inl (msg (show_workflow_error e)), fs)
      | Inr (r, fs') \<Rightarrow> (Inr r, fs'))"

section \<open>Realigning a branch with its recorded parents\<close>

definition rebase_failed :: "string \<Rightarrow> stack_node \<Rightarrow> stack_node" where
  "rebase_failed err n = n\<lparr>pr_status := Some \<lparr>phase = ''error'', pr_url = None, pr_error = Some err\<rparr>\<rparr>"

definition rebase_error_stack :: "string \<Rightarrow> string \<Rightarrow> stack \<Rightarrow> unit \<times> stack" where
  "rebase_error_stack nid err s =
     (let s1 = assign_missing_display_order s
      in ((), s1\<lparr>nodes := update_first (\<lambda>n. node_id n = nid) (rebase_failed err) (nodes s1)\<rparr>))"

definition record_rebase_error ::
    "'y yaml_io \<Rightarrow> string \<Rightarrow> string \<Rightarrow> string \<Rightarrow> string \<Rightarrow> ('y fs \<times> 'g, string, unit) io" where
  "record_rebase_error io op dir nid err =
     on_manifest (write_stack io dir (\<lambda>e. op @ '': failed to record error: '' @ e) (rebase_error_stack nid err))"

definition effective_base :: "stack \<Rightarrow> string \<Rightarrow> string \<Rightarrow> string" where
  "effective_base s nid default_branch =
     (let base_ref = (case effective_base_refs s nid default_branch of [] \<Rightarrow> default_branch | r # _ \<Rightarrow> r)
      in case strip_prefix ''origin/'' base_ref of Some b \<Rightarrow> b | None \<Rightarrow> base_ref)"

text \<open>\<open>git rev-parse <branch>\<close>, the empty string when it fails.\<close>

definition rev_parse_or_empty :: "'g world \<Rightarrow> string \<Rightarrow> string \<Rightarrow> ('g, 'e, string) io" where
  "rev_parse_or_empty w repo_root br =
     and_then (attempt (git_cmd w repo_root [''rev-parse'', br])) (\<lambda>r.
       ret (case r of Inl _ \<Rightarrow> [] | Inr out \<Rightarrow> if out_success out then trim (out_stdout out) else []))"

definition rebase_and_push ::
    "'y yaml_io \<Rightarrow> 'g world \<Rightarrow> string \<Rightarrow> string \<Rightarrow> string \<Rightarrow> string \<Rightarrow> string \<Rightarrow> string \<Rightarrow> ('y fs \<times> 'g, string, unit) io" where
  "rebase_and_push io w op dir repo_root nid br base =
     and_then (on_git (attempt (merge_base w repo_root br base))) (\<lambda>mb.
     let old_base = (case mb of Inl _ \<Rightarrow> base | Inr b \<Rightarrow> b)
     in and_then (on_git (attempt (rebase_onto w repo_root base old_base br))) (\<lambda>rebased.
          case rebased of
            Inl e \<Rightarrow>
              and_then (record_rebase_error io op dir nid (show_workflow_error e)) (\<lambda>_.
                fail (op @ '': rebase of '' @ br @ '' onto '' @ base @ '' failed: '' @ show_workflow_error e))
          | Inr _ \<Rightarrow>
              and_then (on_git (rev_parse_or_empty w repo_root br)) (\<lambda>expected_sha.
              and_then (on_git (default_remote w repo_root)) (\<lambda>remote.
              and_then (on_git (attempt (force_push_with_lease w repo_root remote br expected_sha))) (\<lambda>_. ret ())))))"

definition realign_node_to_effective_base ::
    "'y yaml_io \<Rightarrow> 'g world \<Rightarrow> 'g github \<Rightarrow> string \<Rightarrow> string \<Rightarrow> string \<Rightarrow> string \<Rightarrow> string \<Rightarrow> string
       \<Rightarrow> ('y fs \<times> 'g, string, unit) io" where
  "realign_node_to_effective_base io w gh op dir repo_root nid br default_branch =
     and_then (on_manifest (load_stack io dir (\<lambda>e. op @ '': failed to re-read changeset: '' @ e))) (\<lambda>updated.
     let base = effective_base updated nid default_branch
     in and_then (on_git (local_branch_exists w repo_root br)) (\<lambda>is_local.
        and_then (if is_local then rebase_and_push io w op dir repo_root nid br base else ret ()) (\<lambda>_.
        and_then (on_git (on_err (\<lambda>e. op @ '': get_open_pr failed: '' @ e) (get_open_pr gh br))) (\<lambda>pr.
          case pr of
            None \<Rightarrow> ret ()
          | Some number \<Rightarrow> on_git (on_err (\<lambda>e. op @ '': patch_pr_base failed: '' @ e) (patch_pr_base gh number base))))))"

section \<open>Repointing\<close>

definition survives :: "string option \<Rightarrow> stack \<Rightarrow> string \<Rightarrow> bool" where
  "survives target s parent_id =
     (case target of
        Some t \<Rightarrow> (case node s parent_id of None \<Rightarrow> False | Some p \<Rightarrow> branch p = Some t)
      | None \<Rightarrow> \<not> (case node s parent_id of None \<Rightarrow> False | Some p \<Rightarrow> is_skipped p))"

definition repoint_stack :: "string \<Rightarrow> string option \<Rightarrow> stack \<Rightarrow> unit \<times> stack" where
  "repoint_stack nid target s =
     (let s1 = assign_missing_display_order s;
          retained = (case node s1 nid of None \<Rightarrow> [] | Some n \<Rightarrow> filter (survives target s1) (parents n))
      in ((), s1\<lparr>nodes := update_first (\<lambda>n. node_id n = nid) (\<lambda>n. n\<lparr>parents := retained\<rparr>) (nodes s1)\<rparr>))"

text \<open>What other processes write before the closure runs is \<open>others\<close>.\<close>

definition disturb :: "('y fs \<Rightarrow> 'y fs) \<Rightarrow> ('y fs \<times> 'g, 'e, unit) io" where
  "disturb others s = (Inr (), (others (fst s), snd s))"

definition find_node :: "string \<Rightarrow> string \<Rightarrow> stack \<Rightarrow> ('w, string, stack_node) io" where
  "find_node msg nid s = of_result (ok_or msg (node s nid))"

definition repoint_planned_pr_node ::
    "'y yaml_io \<Rightarrow> 'g world \<Rightarrow> 'g github \<Rightarrow> ('y fs \<Rightarrow> 'y fs) \<Rightarrow> string \<Rightarrow> string \<Rightarrow> string \<Rightarrow> string \<Rightarrow> string option
       \<Rightarrow> ('y fs \<times> 'g, string, stack_node) io" where
  "repoint_planned_pr_node io w gh others dir repo_root nid default_branch target =
     (let op = ''repoint_planned_pr_node''
      in and_then (on_manifest (load_stack io dir (\<lambda>e. op @ '': failed to read changeset: '' @ e))) (\<lambda>s.
         and_then (find_node (op @ '': node '' @ quote_char @ nid @ quote_char @ '' not found'') nid s) (\<lambda>n.
         and_then (disturb others) (\<lambda>_.
         and_then (on_manifest (write_stack io dir (\<lambda>e. op @ '': failed to persist stack: '' @ e) (repoint_stack nid target))) (\<lambda>_.
         and_then (case branch n of
                     None \<Rightarrow> ret ()
                   | Some br \<Rightarrow> realign_node_to_effective_base io w gh op dir repo_root nid br default_branch) (\<lambda>_.
         and_then (on_manifest (load_stack io dir (\<lambda>e. op @ '': failed to reload node: '' @ e))) (\<lambda>final.
           find_node (op @ '': node '' @ quote_char @ nid @ quote_char @ '' vanished after repoint'') nid final)))))))"

section \<open>Setting the parents outright\<close>

definition with_parents :: "string \<Rightarrow> string list \<Rightarrow> stack \<Rightarrow> stack" where
  "with_parents nid ps s =
     s\<lparr>nodes := update_first (\<lambda>n. node_id n = nid) (\<lambda>n. n\<lparr>parents := ps\<rparr>) (nodes s)\<rparr>"

definition set_parents_stack :: "string \<Rightarrow> string list \<Rightarrow> stack \<Rightarrow> unit \<times> stack" where
  "set_parents_stack nid ps s = ((), with_parents nid ps (assign_missing_display_order s))"

definition reload_moved_node :: "'y yaml_io \<Rightarrow> string \<Rightarrow> string \<Rightarrow> ('y fs \<times> 'g, string, stack_node) io" where
  "reload_moved_node io dir nid =
     (let op = ''set_stack_node_parents''
      in and_then (on_manifest (load_stack io dir (\<lambda>e. op @ '': failed to reload node: '' @ e)))
           (find_node (op @ '': node '' @ quote_char @ nid @ quote_char @ '' vanished after the move'') nid))"

definition set_stack_node_parents ::
    "'y yaml_io \<Rightarrow> 'g world \<Rightarrow> 'g github \<Rightarrow> ('y fs \<Rightarrow> 'y fs) \<Rightarrow> string \<Rightarrow> string \<Rightarrow> string \<Rightarrow> string list \<Rightarrow> string
       \<Rightarrow> ('y fs \<times> 'g, string, stack_node) io" where
  "set_stack_node_parents io w gh others dir repo_root nid ps default_branch =
     (let op = ''set_stack_node_parents''
      in and_then (on_manifest (load_stack io dir (\<lambda>e. op @ '': failed to read changeset: '' @ e))) (\<lambda>s.
         and_then (find_node (op @ '': node '' @ quote_char @ nid @ quote_char @ '' not found'') nid s) (\<lambda>_.
         and_then (of_result (validate_parents s (Some nid) ps op)) (\<lambda>_.
         and_then (of_result (reject_if_cyclic (with_parents nid ps s) op)) (\<lambda>_.
         and_then (disturb others) (\<lambda>_.
         and_then (on_manifest (write_stack io dir (\<lambda>e. op @ '': failed to write stack: '' @ e) (set_parents_stack nid ps))) (\<lambda>_.
         and_then (reload_moved_node io dir nid) (\<lambda>moved.
         and_then (case branch moved of
                     None \<Rightarrow> ret ()
                   | Some br \<Rightarrow> realign_node_to_effective_base io w gh op dir repo_root nid br default_branch) (\<lambda>_.
           ret moved)))))))))"

section \<open>The writers keep the stack well-formed\<close>

lemma node_ids_with_parents [simp]: "node_ids (with_parents nid ps s) = node_ids s"
  by (simp add: with_parents_def map_update_first)

lemma nodes_with_parents:
  "distinct (node_ids s) \<Longrightarrow>
     nodes (with_parents nid ps s) = map (\<lambda>n. if node_id n = nid then n\<lparr>parents := ps\<rparr> else n) (nodes s)"
  by (simp add: with_parents_def update_first_distinct)

lemma with_parents_inv:
  assumes "stack_inv s" and "set ps \<subseteq> set (node_ids s)" and "acyclic (parent_rel (with_parents nid ps s))"
  shows "stack_inv (with_parents nid ps s)"
proof -
  have dist: "distinct (node_ids s)" and closed: "no_dangling s" using assms(1) by (auto simp: stack_inv_def)
  have "no_dangling (with_parents nid ps s)"
    using closed assms(2) unfolding no_dangling_def node_ids_with_parents nodes_with_parents [OF dist]
    by (auto simp del: set_map) (auto simp: image_iff)
  then show ?thesis using dist assms(3) by (simp add: stack_inv_def)
qed

lemma drop_parents_inv:
  assumes "stack_inv s" and "\<And>n. node s nid = Some n \<Longrightarrow> set ps \<subseteq> set (parents n)"
    and "node s nid = None \<Longrightarrow> ps = []"
  shows "stack_inv (with_parents nid ps s)"
proof -
  have dist: "distinct (node_ids s)" and closed: "no_dangling s" and acyc: "acyclic (parent_rel s)"
    using assms(1) by (auto simp: stack_inv_def)
  have sub: "set ps \<subseteq> set (parents n)" if "n \<in> set (nodes s)" "node_id n = nid" for n
    using assms(2) [of n] node_distinct [OF dist that(1)] that(2) by simp
  have "parent_rel (with_parents nid ps s) \<subseteq> parent_rel s"
  proof (rule subrelI)
    fix p c assume "(p, c) \<in> parent_rel (with_parents nid ps s)"
    then obtain m where m: "m \<in> set (nodes (with_parents nid ps s))" "node_id m = c" "p \<in> set (parents m)"
        and p: "p \<in> set (node_ids s)"
      unfolding parent_rel_mem node_ids_with_parents by blast
    obtain k where "k \<in> set (nodes s)" "m = (if node_id k = nid then k\<lparr>parents := ps\<rparr> else k)"
      using m(1) unfolding nodes_with_parents [OF dist] by auto
    then have "node_id k = c" "p \<in> set (parents k)" using m(2,3) sub [of k] by (auto split: if_splits)
    then show "(p, c) \<in> parent_rel s" using p \<open>k \<in> set (nodes s)\<close> unfolding parent_rel_mem by blast
  qed
  then have "acyclic (parent_rel (with_parents nid ps s))" using acyc by (rule acyclic_subset [rotated])
  moreover have "set ps \<subseteq> set (node_ids s)"
    using assms(2,3) closed node_SomeD [of s nid] by (cases "node s nid") (auto simp: no_dangling_def simp del: set_map)
  ultimately show ?thesis using with_parents_inv [OF assms(1)] by blast
qed

lemma repoint_stack_with_parents:
  "snd (repoint_stack nid target s) =
     with_parents nid (case node (assign_missing_display_order s) nid of
                         None \<Rightarrow> []
                       | Some n \<Rightarrow> filter (survives target (assign_missing_display_order s)) (parents n))
       (assign_missing_display_order s)"
  by (simp add: repoint_stack_def with_parents_def Let_def)

lemma repoint_stack_inv: "stack_inv s \<Longrightarrow> stack_inv (snd (repoint_stack nid target s))"
  unfolding repoint_stack_with_parents
  by (rule drop_parents_inv) (simp_all add: filter_is_subset)

lemma map_parents_with_parents:
  assumes "map node_id (nodes s) = map node_id (nodes t)" and "map parents (nodes s) = map parents (nodes t)"
  shows "map parents (nodes (with_parents nid ps s)) = map parents (nodes (with_parents nid ps t))"
proof -
  have gen: "map parents (update_first (\<lambda>n. node_id n = nid) (\<lambda>n. n\<lparr>parents := ps\<rparr>) ns) =
      map parents (update_first (\<lambda>n. node_id n = nid) (\<lambda>n. n\<lparr>parents := ps\<rparr>) ms)"
    if "map node_id ns = map node_id ms" "map parents ns = map parents ms" for ns ms :: "stack_node list"
    using that
  proof (induction ns arbitrary: ms)
    case (Cons n ns)
    then obtain m ms' where "ms = m # ms'" by (cases ms) auto
    then show ?case using Cons.IH [of ms'] Cons.prems by simp
  qed simp
  show ?thesis using gen [OF assms] by (simp add: with_parents_def)
qed

lemma set_parents_stack_inv:
  assumes "stack_inv s" and "set ps \<subseteq> set (node_ids s)" and "acyclic (parent_rel (with_parents nid ps s))"
  shows "stack_inv (snd (set_parents_stack nid ps s))"
proof -
  let ?u = "assign_missing_display_order s"
  have "map node_id (nodes ?u) = map node_id (nodes s)" "map parents (nodes ?u) = map parents (nodes s)"
    using unnumbered_fields [OF nodes_assign] by auto
  then have "stack_inv (with_parents nid ps ?u) \<longleftrightarrow> stack_inv (with_parents nid ps s)"
    using map_parents_with_parents [of ?u s nid ps] by (intro stack_inv_cong) simp_all
  then show ?thesis using with_parents_inv [OF assms] by (simp add: set_parents_stack_def)
qed

lemma rebase_error_stack_inv: "stack_inv s \<Longrightarrow> stack_inv (snd (rebase_error_stack nid err s))"
  by (simp add: rebase_error_stack_def Let_def update_first_inv rebase_failed_def)

interpretation repoint_writer: stack_writer "\<lambda>_. True" "repoint_stack nid target"
  by unfold_locales (rule repoint_stack_inv)

interpretation set_parents_writer: stack_writer
  "\<lambda>s. set ps \<subseteq> set (node_ids s) \<and> acyclic (parent_rel (with_parents nid ps s))" "set_parents_stack nid ps"
  by unfold_locales (rule set_parents_stack_inv, auto)

interpretation rebase_error_writer: stack_writer "\<lambda>_. True" "rebase_error_stack nid err"
  by unfold_locales (rule rebase_error_stack_inv)

text \<open>The manifest of \<open>dir\<close> holds a well-formed stack.\<close>

definition holds_stack :: "'y yaml_io \<Rightarrow> string \<Rightarrow> 'y fs \<times> 'g \<Rightarrow> bool" where
  "holds_stack io dir st \<longleftrightarrow> (\<exists>s. stored_stack io (fst st) dir = Inr s \<and> stack_inv s)"

lemma keeps_on_git [keeps_intros]: "keeps (holds_stack io dir) (on_git m)"
  by (simp add: keeps_def on_git_def holds_stack_def case_prod_beta)

lemma keeps_load [keeps_intros]: "keeps (holds_stack io dir) (on_manifest (load_stack io dir msg))"
  by (simp add: keeps_def on_manifest_def load_stack_def holds_stack_def)

lemma keeps_find [keeps_intros]: "keeps P (find_node msg nid s)"
  by (simp add: find_node_def keeps_intros)

lemma keeps_write:
  assumes "yaml_ok io" and "stack_writer (\<lambda>_. True) change"
  shows "keeps (holds_stack io dir) (on_manifest (write_stack io dir msg change))"
  unfolding keeps_def
proof (intro allI impI)
  fix st :: "'a fs \<times> 'c"
  assume "holds_stack io dir st"
  then obtain s where s: "stored_stack io (fst st) dir = Inr s" "stack_inv s" by (auto simp: holds_stack_def)
  show "holds_stack io dir (snd (on_manifest (write_stack io dir msg change) st))"
  proof (cases "update_stack_atomic io (fst st) dir change")
    case (Inl e)
    then show ?thesis using s by (simp add: on_manifest_def write_stack_def holds_stack_def)
  next
    case (Inr rf)
    then obtain r fs' where rf: "update_stack_atomic io (fst st) dir change = Inr (r, fs')" by (cases rf) auto
    from stack_writer.written_inv [OF assms(2,1) rf s TrueI] show ?thesis
      using rf by (simp add: on_manifest_def write_stack_def holds_stack_def)
  qed
qed

lemma keeps_record_rebase_error:
  "yaml_ok io \<Longrightarrow> keeps (holds_stack io dir) (record_rebase_error io op dir nid err)"
  unfolding record_rebase_error_def
  by (rule keeps_write) (auto intro: rebase_error_writer.stack_writer_axioms)

lemma keeps_realign:
  assumes "yaml_ok io"
  shows "keeps (holds_stack io dir) (realign_node_to_effective_base io w gh op dir repo nid br def)"
  unfolding realign_node_to_effective_base_def rebase_and_push_def Let_def
  by (intro keeps_intros keeps_record_rebase_error [OF assms])

lemma keeps_repoint:
  assumes "yaml_ok io" and "keeps (holds_stack io dir) (disturb others :: ('y fs \<times> 'g, string, unit) io)"
  shows "keeps (holds_stack io dir)
    (repoint_planned_pr_node io w gh others dir repo nid def target :: ('y fs \<times> 'g, string, stack_node) io)"
  unfolding repoint_planned_pr_node_def Let_def
  by (intro keeps_intros keeps_realign assms keeps_write repoint_writer.stack_writer_axioms)

text \<open>The steps of a move up to the write, on a manifest that holds the stack \<open>s\<close>.\<close>

lemma load_stack_Inr:
  "stored_stack io (fst st) dir = Inr s \<Longrightarrow> on_manifest (load_stack io dir msg) st = (Inr s, st)"
  by (simp add: on_manifest_def load_stack_def)

lemma disturb_id: "disturb id st = (Inr (), st)"
  by (simp add: disturb_def)

lemma set_parents_state:
  assumes "yaml_ok io" and "stored_stack io (fst st) dir = Inr s" and "stack_inv s"
  shows "holds_stack io dir (snd (set_stack_node_parents io w gh id dir repo nid ps def st))"
proof -
  let ?op = "''set_stack_node_parents''"
  have good: "holds_stack io dir st" using assms by (auto simp: holds_stack_def)
  have rest: "keeps (holds_stack io dir) (and_then (reload_moved_node io dir nid) (\<lambda>moved.
      and_then (case branch moved of None \<Rightarrow> ret ()
                | Some br \<Rightarrow> realign_node_to_effective_base io w gh ?op dir repo nid br def) (\<lambda>_. ret moved)))"
    unfolding reload_moved_node_def Let_def by (intro keeps_intros keeps_realign assms(1))
  show ?thesis
  proof (cases "node s nid = None \<or> validate_parents s (Some nid) ps ?op \<noteq> Inr () \<or>
      reject_if_cyclic (with_parents nid ps s) ?op \<noteq> Inr ()")
    case True
    then have "snd (set_stack_node_parents io w gh id dir repo nid ps def st) = st"
      using assms(2)
      by (auto simp: set_stack_node_parents_def Let_def and_then_def load_stack_Inr find_node_def of_result_def
          split: sum.splits option.splits)
    then show ?thesis using good by simp
  next
    case False
    then obtain n where n: "node s nid = Some n" and v: "validate_parents s (Some nid) ps ?op = Inr ()"
        and c: "reject_if_cyclic (with_parents nid ps s) ?op = Inr ()" by auto
    have pre: "set ps \<subseteq> set (node_ids s) \<and> acyclic (parent_rel (with_parents nid ps s))"
      using validate_parents_Inr(1) [OF v] c by (simp add: reject_if_cyclic_Inr del: set_map)
    define st1 where "st1 = on_manifest (write_stack io dir (\<lambda>e. ?op @ '': failed to write stack: '' @ e)
        (set_parents_stack nid ps)) st"
    have st1: "holds_stack io dir (snd st1)"
    proof (cases "update_stack_atomic io (fst st) dir (set_parents_stack nid ps)")
      case (Inl e)
      then show ?thesis using good by (simp add: st1_def on_manifest_def write_stack_def holds_stack_def)
    next
      case (Inr rf)
      then obtain r fs' where rf: "update_stack_atomic io (fst st) dir (set_parents_stack nid ps) = Inr (r, fs')"
        by (cases rf) auto
      from set_parents_writer.written_inv [OF assms(1) rf assms(2,3) pre] show ?thesis
        using rf by (simp add: st1_def on_manifest_def write_stack_def holds_stack_def)
    qed
    have found: "find_node m nid s st = (Inr n, st)" for m
      by (simp add: find_node_def of_result_def n)
    have ok: "of_result (Inr ()) st = (Inr (), st)" by (simp add: of_result_def)
    have "set_stack_node_parents io w gh id dir repo nid ps def st =
        and_then (on_manifest (write_stack io dir (\<lambda>e. ?op @ '': failed to write stack: '' @ e) (set_parents_stack nid ps)))
          (\<lambda>_. and_then (reload_moved_node io dir nid) (\<lambda>moved.
             and_then (case branch moved of None \<Rightarrow> ret ()
                       | Some br \<Rightarrow> realign_node_to_effective_base io w gh ?op dir repo nid br def) (\<lambda>_. ret moved))) st"
      unfolding set_stack_node_parents_def Let_def v c
      by (simp only: and_then_step load_stack_Inr [OF assms(2)] found v c ok disturb_id)
    then show ?thesis
      using keeps_after [of "holds_stack io dir", OF _ rest] st1 [unfolded st1_def] by (simp only:)
  qed
qed

section \<open>Properties\<close>

text \<open>
  C7. Repointing a node and setting its parents keep the stack of the manifest well-formed on every
  outcome, errors of git and GitHub included; for a repoint also when other processes write to the
  manifest in between, as long as what they leave is well-formed.
\<close>

theorem realigning_writers_keep_stack:
  assumes "yaml_ok io" and "holds_stack io dir st" and "keeps (holds_stack io dir) (disturb others :: ('y fs \<times> 'g, string, unit) io)"
  shows "holds_stack io dir (snd (repoint_planned_pr_node io w gh others dir repo nid def target (st :: 'y fs \<times> 'g))) \<and>
         holds_stack io dir (snd (set_stack_node_parents io w gh id dir repo nid ps def st))"
proof
  show "holds_stack io dir (snd (repoint_planned_pr_node io w gh others dir repo nid def target st))"
    using keeps_repoint [OF assms(1,3)] assms(2) unfolding keeps_def by blast
  show "holds_stack io dir (snd (set_stack_node_parents io w gh id dir repo nid ps def st))"
    using assms(2) set_parents_state [OF assms(1)] unfolding holds_stack_def [of io dir st] by blast
qed

definition quiet_github :: "'g github" where
  "quiet_github = \<lparr>get_open_pr = (\<lambda>_ g. (Inr None, g)), patch_pr_base = (\<lambda>_ _ g. (Inr (), g))\<rparr>"

theorem realigning_writers_keep_stack_witness:
  "holds_stack sample_io ''orch'' (snd (repoint_planned_pr_node sample_io two_worktrees quiet_github id ''orch'' ''/r'' ''n4''
      ''main'' (Some ''feature'') (sample_fs diamond, ()))) \<and>
   holds_stack sample_io ''orch'' (snd (set_stack_node_parents sample_io two_worktrees quiet_github id ''orch'' ''/r'' ''n4''
      [''n1''] ''main'' (sample_fs diamond, ())))"
proof (rule realigning_writers_keep_stack [OF sample_io_ok(1)])
  show "holds_stack sample_io ''orch'' (sample_fs diamond, ())"
    by (auto simp: holds_stack_def stored_sample diamond_inv(1))
  show "keeps (holds_stack sample_io ''orch'') (disturb id :: (changeset fs \<times> unit, string, unit) io)"
    by (simp add: keeps_def disturb_def)
qed

lemma set_parents_Inr:
  assumes "set_stack_node_parents io w gh others dir repo nid ps def (fs, g) = (Inr moved, (fs', g'))"
  obtains fs1 where "(case branch moved of
        None \<Rightarrow> ret ()
      | Some br \<Rightarrow> realign_node_to_effective_base io w gh ''set_stack_node_parents'' dir repo nid br def) (fs1, g) = (Inr (), (fs', g'))"
    and "\<exists>t. stored_stack io fs1 dir = Inr t \<and> node t nid = Some moved"
proof -
  obtain fs1 g1 t where
      run: "(case branch moved of
        None \<Rightarrow> ret ()
      | Some br \<Rightarrow> realign_node_to_effective_base io w gh ''set_stack_node_parents'' dir repo nid br def) (fs1, g1) = (Inr (), (fs', g'))"
    and t: "stored_stack io fs1 dir = Inr t" "node t nid = Some moved" and g1: "g1 = g"
    using assms
    by (auto simp: set_stack_node_parents_def Let_def io_simps reload_moved_node_def find_node_def ok_or_Inr on_manifest_def
        load_stack_def write_stack_def disturb_def map_err_Inr split: prod.splits sum.splits)
  then show thesis by (intro that) auto
qed

text \<open>
  Whether a move realigns git and GitHub is decided by the node as it is stored after the write: when
  that node owns no branch nothing outside the manifest changes, and when it owns one the move succeeds
  only after a successful realignment of that branch.
\<close>

theorem move_realigns_stored_branch:
  assumes "set_stack_node_parents io w gh others dir repo nid ps def (fs, g) = (Inr moved, (fs', g'))"
  shows "case branch moved of
           None \<Rightarrow> g' = g
         | Some br \<Rightarrow> \<exists>fs1 t. stored_stack io fs1 dir = Inr t \<and> node t nid = Some moved \<and>
             realign_node_to_effective_base io w gh ''set_stack_node_parents'' dir repo nid br def (fs1, g) = (Inr (), (fs', g'))"
proof -
  obtain fs1 where "(case branch moved of
        None \<Rightarrow> ret ()
      | Some br \<Rightarrow> realign_node_to_effective_base io w gh ''set_stack_node_parents'' dir repo nid br def) (fs1, g) = (Inr (), (fs', g'))"
    and "\<exists>t. stored_stack io fs1 dir = Inr t \<and> node t nid = Some moved"
    using set_parents_Inr [OF assms] .
  then show ?thesis by (auto simp: io_simps split: option.splits)
qed

theorem move_realigns_stored_branch_witness:
  "\<exists>moved fs' g'. set_stack_node_parents sample_io two_worktrees quiet_github id ''orch'' ''/r'' ''n4'' [''n1''] ''main''
       (sample_fs diamond, ()) = (Inr moved, (fs', g')) \<and> parents moved = [''n1''] \<and> g' = ()"
proof -
  let ?run = "set_stack_node_parents sample_io two_worktrees quiet_github id ''orch'' ''/r'' ''n4'' [''n1''] ''main''
       (sample_fs diamond, ())"
  let ?moved = "(sample_node ''n4'' [''n1''])\<lparr>display_order := Some 3\<rparr>"
  have "fst ?run = Inr ?moved" by code_simp
  then have run: "?run = (Inr ?moved, (fst (snd ?run), snd (snd ?run)))" by (cases ?run) auto
  from move_realigns_stored_branch [OF run] run show ?thesis by (auto simp: sample_node_def)
qed

lemma find_unnumbered:
  "map_option unnumbered (List.find (\<lambda>n. node_id n = i) ns) = List.find (\<lambda>n. node_id n = i) (map unnumbered ns)"
  by (induction ns) (auto simp: unnumbered_def)

lemma node_assign: "map_option unnumbered (node (assign_missing_display_order s) i) = map_option unnumbered (node s i)"
  using find_unnumbered [of i "nodes (assign_missing_display_order s)"] find_unnumbered [of i "nodes s"]
  by (simp add: node_def)

lemma node_assign_Some:
  assumes "node s i = Some n"
  obtains m where "node (assign_missing_display_order s) i = Some m" and "unnumbered m = unnumbered n"
  using node_assign [of s i] assms by (cases "node (assign_missing_display_order s) i") auto

lemma unnumbered_branch: "unnumbered m = unnumbered n \<Longrightarrow> branch m = branch n"
  by (metis (no_types) unnumbered_def stack_node.select_convs(5) stack_node.surjective stack_node.update_convs(11))

lemma repoint_stack_node:
  assumes "node s nid = Some n"
  obtains m where "node (snd (repoint_stack nid target s)) nid = Some m" and "branch m = branch n"
proof -
  obtain k where k: "node (assign_missing_display_order s) nid = Some k" "unnumbered k = unnumbered n"
    using node_assign_Some [OF assms] .
  let ?ps = "filter (survives target (assign_missing_display_order s)) (parents k)"
  have "node (snd (repoint_stack nid target s)) nid = Some (k\<lparr>parents := ?ps\<rparr>)"
    unfolding repoint_stack_with_parents with_parents_def by (simp add: node_update_first k(1))
  then show thesis by (rule that) (simp add: unnumbered_branch [OF k(2)])
qed

text \<open>
  A repoint decides from its first read whether there is a branch to realign. When another process binds a
  branch to the node between that read and the write, the repoint persists the new parents and answers the
  node with its branch, and neither git nor GitHub is touched: the branch keeps its old base.
\<close>

theorem repoint_misses_concurrent_link:
  assumes "yaml_ok io" and "writable io" and "stored_stack io fs dir = Inr s" and "node s nid = Some n" and "branch n = None"
    and "others = (\<lambda>fs. case link_stack_node_to_child_session io fs dir nid child (Some br) of Inl _ \<Rightarrow> fs | Inr fs1 \<Rightarrow> fs1)"
  shows "\<exists>m fs'. repoint_planned_pr_node io w gh others dir repo nid def target (fs, g) = (Inr m, (fs', g)) \<and>
           branch m = Some br"
proof -
  let ?linked = "snd (link_stack nid child (Some br) s)"
  obtain fs1 where l: "update_stack_atomic io fs dir (link_stack nid child (Some br)) = Inr ((), fs1)"
    using update_stack_atomic_total [OF assms(2,3), of "link_stack nid child (Some br)"] by (auto simp: link_stack_def)
  then have link: "others fs = fs1"
    using link_Inr by (metis assms(6) sum.simps(6))
  have s1: "stored_stack io fs1 dir = Inr ?linked"
    using update_stack_atomic_Inr [OF assms(1) l] assms(3) by auto
  have n1: "node ?linked nid = Some (link_node child (Some br) n)"
    using assms(4) by (simp add: link_stack_def node_update_first)
  obtain fs2 where r: "update_stack_atomic io fs1 dir (repoint_stack nid target) = Inr ((), fs2)"
    using update_stack_atomic_total [OF assms(2) s1, of "repoint_stack nid target"] by (auto simp: repoint_stack_def Let_def)
  have s2: "stored_stack io fs2 dir = Inr (snd (repoint_stack nid target ?linked))"
    using update_stack_atomic_Inr [OF assms(1) r] s1 by auto
  obtain m where m: "node (snd (repoint_stack nid target ?linked)) nid = Some m" "branch m = Some br"
    using repoint_stack_node [OF n1, of target] by (auto simp: link_node_def)
  have steps: "on_manifest (load_stack io dir msg) (fs, g) = (Inr s, (fs, g))"
      "on_manifest (load_stack io dir msg) (fs2, g) = (Inr (snd (repoint_stack nid target ?linked)), (fs2, g))"
      "on_manifest (write_stack io dir msg (repoint_stack nid target)) (fs1, g) = (Inr (), (fs2, g))"
      "disturb others (fs, g) = (Inr (), (fs1, g))"
      "find_node msg2 nid s (fs, g) = (Inr n, (fs, g))"
      "find_node msg2 nid (snd (repoint_stack nid target ?linked)) (fs2, g) = (Inr m, (fs2, g))"
      "(ret () :: ('a fs \<times> 'b, string, unit) io) (fs2, g) = (Inr (), (fs2, g))" for msg msg2
    using assms(3,4) s2 r link m(1)
    by (simp_all add: on_manifest_def load_stack_def write_stack_def disturb_def find_node_def of_result_def ret_def)
  have "repoint_planned_pr_node io w gh others dir repo nid def target (fs, g) = (Inr m, (fs2, g))"
    unfolding repoint_planned_pr_node_def Let_def
    by (simp only: and_then_step steps assms(5) option.case)
  with m(2) show ?thesis by blast
qed

theorem repoint_misses_concurrent_link_witness:
  "\<exists>m fs'. repoint_planned_pr_node sample_io two_worktrees quiet_github
       (\<lambda>fs. case link_stack_node_to_child_session sample_io fs ''orch'' ''n2'' ''child'' (Some ''feature'') of
                Inl _ \<Rightarrow> fs | Inr fs1 \<Rightarrow> fs1)
       ''orch'' ''/r'' ''n2'' ''main'' None (sample_fs diamond, ()) = (Inr m, (fs', ())) \<and> branch m = Some ''feature''"
proof -
  have "node diamond ''n2'' = Some (sample_node ''n2'' [''n1''])" "branch (sample_node ''n2'' [''n1'']) = None"
    by (simp_all add: node_def diamond_def sample_node_def)
  from repoint_misses_concurrent_link [OF sample_io_ok stored_sample this refl] show ?thesis .
qed

section \<open>What a realignment publishes\<close>

text \<open>
  Documented behaviour of git and GitHub, for one branch \<open>br\<close> of a repository: only a push moves the branch on
  the remote; \<open>rev-parse <br>\<close> prints the local tip; a push with a lease on \<open>sha\<close> is refused unless the remote
  branch is at \<open>sha\<close>, and otherwise leaves the remote at its old tip or moves it to the local one; the two API
  calls do not move branches.
\<close>

definition lease_laws ::
    "'g world \<Rightarrow> 'g github \<Rightarrow> string \<Rightarrow> string \<Rightarrow> ('g \<Rightarrow> string) \<Rightarrow> ('g \<Rightarrow> string) \<Rightarrow> bool" where
  "lease_laws w gh repo br local_tip remote_tip \<longleftrightarrow>
     rev_parse_reads w repo \<and>
     (\<forall>cmd args g. cmd \<noteq> ''push'' \<longrightarrow> remote_tip (snd (git_cmd w repo (cmd # args) g)) = remote_tip g) \<and>
     (\<forall>g. fst (git_cmd w repo [''rev-parse'', br] g) = Inr (succeeded (local_tip g)) \<and> trim (local_tip g) = local_tip g) \<and>
     (\<forall>remote sha g. remote_tip (snd (git_cmd w repo [''push'', ''--force-with-lease='' @ br @ '':'' @ sha, remote, br] g))
        \<in> (if remote_tip g = sha then {remote_tip g, local_tip g} else {remote_tip g})) \<and>
     (\<forall>b g. remote_tip (snd (get_open_pr gh b g)) = remote_tip g) \<and>
     (\<forall>n b g. remote_tip (snd (patch_pr_base gh n b g)) = remote_tip g)"

lemma keeps_on_git_state: "keeps P m \<Longrightarrow> keeps (\<lambda>st. P (snd st)) (on_git m)"
  by (simp add: keeps_def on_git_def case_prod_beta)

lemma keeps_on_manifest_state: "keeps (\<lambda>st. P (snd st)) (on_manifest m)"
  by (simp add: keeps_def on_manifest_def case_prod_beta)

lemma rev_parse_or_empty_tip:
  assumes "lease_laws w gh repo br local_tip remote_tip"
  shows "rev_parse_or_empty w repo br g = (Inr (local_tip g), g)"
proof -
  have "git_cmd w repo [''rev-parse'', br] g = (Inr (succeeded (local_tip g)), g)" "trim (local_tip g) = local_tip g"
    using assms unfolding lease_laws_def rev_parse_reads_def by (metis prod.collapse)+
  then show ?thesis
    by (simp add: rev_parse_or_empty_def and_then_def attempt_def ret_def succeeded_def)
qed

lemma default_remote_state:
  assumes "rev_parse_reads w repo"
  obtains remote where "default_remote w repo g = (Inr remote, g)"
proof -
  obtain r g' where c: "git_cmd w repo [''rev-parse'', ''--abbrev-ref'', upstream_rev] g = (r, g')" by fastforce
  then have "g' = g" using assms unfolding rev_parse_reads_def by (metis snd_conv)
  then show thesis
    using c that by (auto simp: default_remote_def detect_default_remote_name_def and_then_def attempt_def ret_def)
qed

lemma force_push_tip:
  assumes "lease_laws w gh repo br local_tip remote_tip"
  shows "remote_tip (snd (force_push_with_lease w repo remote br (local_tip g) g)) = remote_tip g"
proof -
  have "snd (force_push_with_lease w repo remote br sha g) =
      snd (git_cmd w repo [''push'', ''--force-with-lease='' @ br @ '':'' @ sha, remote, br] g)" for sha
    by (simp add: force_push_with_lease_def checked_git_def run_git_def Let_def and_then_def on_err_def ret_def fail_def
        case_prod_beta split: sum.splits prod.splits)
  moreover have "remote_tip (snd (git_cmd w repo [''push'', ''--force-with-lease='' @ br @ '':'' @ local_tip g, remote, br] g))
      \<in> (if remote_tip g = local_tip g then {remote_tip g, local_tip g} else {remote_tip g})"
    using assms unfolding lease_laws_def by blast
  ultimately show ?thesis by (auto split: if_splits)
qed

text \<open>Every step of a realignment other than its push leaves the remote branch where it is.\<close>

definition remote_at :: "('g \<Rightarrow> string) \<Rightarrow> string \<Rightarrow> 'g \<Rightarrow> bool" where
  "remote_at remote_tip v g \<longleftrightarrow> remote_tip g = v"

lemma keeps_remote_git:
  assumes "lease_laws w gh repo br local_tip remote_tip" and "cmd \<noteq> ''push''"
  shows "keeps (remote_at remote_tip v) (git_cmd w repo (cmd # args))"
  using assms by (simp add: keeps_def remote_at_def lease_laws_def)

lemma keeps_remote_reads:
  assumes "lease_laws w gh repo br local_tip remote_tip"
  shows "keeps (remote_at remote_tip v) (merge_base w repo a b)"
    and "keeps (remote_at remote_tip v) (rebase_onto w repo a b c)"
    and "keeps (remote_at remote_tip v) (local_branch_exists w repo a)"
    and "keeps (remote_at remote_tip v) (get_open_pr gh b)"
    and "keeps (remote_at remote_tip v) (patch_pr_base gh n b)"
proof -
  note git = keeps_remote_git [OF assms]
  show "keeps (remote_at remote_tip v) (merge_base w repo a b)"
    unfolding merge_base_def checked_git_def run_git_def by (intro keeps_intros git) simp
  show "keeps (remote_at remote_tip v) (rebase_onto w repo a b c)"
    unfolding rebase_onto_def checked_git_def run_git_def by (intro keeps_intros git) simp_all
  show "keeps (remote_at remote_tip v) (local_branch_exists w repo a)"
    unfolding local_branch_exists_def run_git_def by (intro keeps_intros git) simp
  show "keeps (remote_at remote_tip v) (get_open_pr gh b)" "keeps (remote_at remote_tip v) (patch_pr_base gh n b)"
    using assms by (simp_all add: keeps_def remote_at_def lease_laws_def)
qed

lemma keeps_remote_publish:
  fixes w :: "'g world"
  assumes laws: "lease_laws w gh repo br local_tip remote_tip"
  shows "keeps (\<lambda>st. remote_at remote_tip v (snd st))
    (and_then (on_git (rev_parse_or_empty w repo br)) (\<lambda>expected_sha.
     and_then (on_git (default_remote w repo)) (\<lambda>remote.
     and_then (on_git (attempt (force_push_with_lease w repo remote br expected_sha))) (\<lambda>_. ret ())))
     :: ('y fs \<times> 'g, string, unit) io)"
  (is "keeps _ ?publish")
  unfolding keeps_def
proof (intro allI impI)
  fix st :: "'y fs \<times> 'g"
  assume at: "remote_at remote_tip v (snd st)"
  obtain fs g where st: "st = (fs, g)" by fastforce
  obtain remote where d: "(default_remote w repo :: ('g, string, string) io) g = (Inr remote, g)"
    using default_remote_state laws unfolding lease_laws_def by metis
  have "(on_git (rev_parse_or_empty w repo br) :: ('y fs \<times> 'g, string, string) io) (fs, g) = (Inr (local_tip g), (fs, g))"
      "(on_git (default_remote w repo) :: ('y fs \<times> 'g, string, string) io) (fs, g) = (Inr remote, (fs, g))"
    using d by (simp_all add: on_git_def rev_parse_or_empty_tip [OF laws])
  then show "remote_at remote_tip v (snd (snd (?publish st)))"
    using at force_push_tip [OF laws, of remote g] unfolding st
    by (simp add: and_then_step) (simp add: and_then_def on_git_def attempt_def ret_def remote_at_def case_prod_beta)
qed

text \<open>
  A realignment never publishes the branch it rebased. It reads the branch's local tip after the rebase and
  asks for the push on condition that the remote branch is already there, so whatever git and GitHub answer,
  the remote branch is where it was before.
\<close>

theorem realign_never_publishes:
  assumes "lease_laws w gh repo br local_tip remote_tip"
  shows "remote_tip (snd (snd (realign_node_to_effective_base io w gh op dir repo nid br def (fs, g)))) = remote_tip g"
proof -
  have "keeps (\<lambda>st. remote_at remote_tip v (snd st)) (realign_node_to_effective_base io w gh op dir repo nid br def)" for v
    unfolding realign_node_to_effective_base_def rebase_and_push_def record_rebase_error_def Let_def
    by (intro keeps_intros keeps_on_git_state keeps_on_manifest_state keeps_remote_reads [OF assms]
          keeps_remote_publish [OF assms])
  then show ?thesis
    unfolding keeps_def by (metis remote_at_def snd_conv)
qed

text \<open>
  A repository in which \<open>feature\<close> is at \<open>old\<close> or at \<open>new\<close>, here (the first flag) and on the remote (the second),
  and a rebase moves it to \<open>new\<close> here.
\<close>

definition tip :: "bool \<Rightarrow> string" where
  "tip moved = (if moved then ''new'' else ''old'')"

definition two_tips :: "(bool \<times> bool) world" where
  "two_tips =
     \<lparr>git_cmd = (\<lambda>dir args (l, r).
        (if args = [''rev-parse'', ''feature''] then (Inr (succeeded (tip l)), (l, r))
         else if take 1 args = [''rebase''] then (Inr (succeeded []), (True, r))
         else if take 2 args = [''push'', ''--force-with-lease=feature:'' @ tip r] then (Inr (succeeded []), (l, l))
         else if take 1 args = [''push''] then (Inr (failed ''stale info''), (l, r))
         else (Inr (succeeded []), (l, r)))),
      path_exists = (\<lambda>p g. False),
      canonicalize = (\<lambda>p g. Inr p),
      create_dir_all = (\<lambda>p. ret ()),
      remove_dir_all = (\<lambda>p. ret ())\<rparr>"

definition no_open_pr :: "(bool \<times> bool) github" where
  "no_open_pr = \<lparr>get_open_pr = (\<lambda>b. ret None), patch_pr_base = (\<lambda>n b. ret ())\<rparr>"

lemma two_tips_laws:
  "lease_laws two_tips no_open_pr repo ''feature'' (\<lambda>g. tip (fst g)) (\<lambda>g. tip (snd g))"
proof -
  have "trim ''old'' = ''old''" "trim ''new'' = ''new''" by code_simp+
  then show ?thesis
    by (auto simp: lease_laws_def rev_parse_reads_def two_tips_def no_open_pr_def tip_def ret_def)
qed

theorem realign_never_publishes_witness:
  "let run = realign_node_to_effective_base sample_io two_tips no_open_pr ''move'' ''orch'' ''/r'' ''n2'' ''feature'' ''main''
               (sample_fs diamond, (False, False))
   in fst run = Inr () \<and> fst (snd (snd run)) \<and> tip (snd (snd (snd run))) = ''old''"
proof -
  let ?run = "realign_node_to_effective_base sample_io two_tips no_open_pr ''move'' ''orch'' ''/r'' ''n2'' ''feature'' ''main''
               (sample_fs diamond, (False, False))"
  have "fst ?run = Inr ()" "fst (snd (snd ?run))" by code_simp+
  moreover have "tip (snd (snd (snd ?run))) = ''old''"
    using realign_never_publishes [OF two_tips_laws, of sample_io "''move''" "''orch''" "''/r''" "''n2''" "''main''" "sample_fs diamond" "(False, False)"]
    by (simp add: tip_def)
  ultimately show ?thesis by simp
qed

end
