(* ===== verification/Rust_Path.thy ===== *)
theory Rust_Path
  imports Rust_Str "HOL-Library.Sublist"
begin

text \<open>
  \<open>std::path\<close> on Unix and the word splitting of \<open>str\<close>. A path is its text; what \<open>==\<close>, \<open>starts_with\<close>,
  \<open>strip_prefix\<close> and \<open>parent\<close> look at are its components, which skip empty pieces and the pieces \<open>.\<close> other
  than a leading one.
\<close>

section \<open>Paths\<close>

datatype component = RootDir | CurDir | ParentDir | Normal string

definition piece_component :: "string \<Rightarrow> component option" where
  "piece_component s =
     (if s = [] \<or> s = ''.'' then None else if s = ''..'' then Some ParentDir else Some (Normal s))"

definition is_absolute :: "string \<Rightarrow> bool" where
  "is_absolute p \<longleftrightarrow> p \<noteq> [] \<and> hd p = CHR ''/''"

definition components :: "string \<Rightarrow> component list" where
  "components p =
     (let pieces = split_on (CHR ''/'') p
      in (if is_absolute p then [RootDir] else if hd pieces = ''.'' then [CurDir] else []) @
         List.map_filter piece_component pieces)"

definition path_eq :: "string \<Rightarrow> string \<Rightarrow> bool" where
  "path_eq p q \<longleftrightarrow> components p = components q"

definition path_starts_with :: "string \<Rightarrow> string \<Rightarrow> bool" where
  "path_starts_with p base \<longleftrightarrow> prefix (components base) (components p)"

text \<open>The components of what \<open>strip_prefix\<close> leaves, and of the parent.\<close>

definition path_strip_prefix :: "string \<Rightarrow> string \<Rightarrow> component list option" where
  "path_strip_prefix p base =
     (if path_starts_with p base then Some (drop (length (components base)) (components p)) else None)"

definition parent_of :: "component list \<Rightarrow> component list option" where
  "parent_of cs = (if cs = [] \<or> last cs = RootDir then None else Some (butlast cs))"

text \<open>A path with the given components, and \<open>Path::parent\<close> as a text.\<close>

fun component_text :: "component \<Rightarrow> string" where
  "component_text RootDir = []"
| "component_text CurDir = ''.''"
| "component_text ParentDir = ''..''"
| "component_text (Normal s) = s"

fun path_text :: "component list \<Rightarrow> string" where
  "path_text [RootDir] = ''/''"
| "path_text cs = join_with ''/'' (map component_text cs)"

definition path_parent :: "string \<Rightarrow> string option" where
  "path_parent p = map_option path_text (parent_of (components p))"

lemma root_first: "is_absolute p \<longleftrightarrow> components p \<noteq> [] \<and> hd (components p) = RootDir"
proof -
  have "\<not> (RootDir \<in> set (List.map_filter piece_component ws))" for ws
    by (auto simp: List.map_filter_def piece_component_def split: if_splits)
  then have "hd (List.map_filter piece_component ws) \<noteq> RootDir" if "List.map_filter piece_component ws \<noteq> []" for ws
    using that by (metis list.set_sel(1))
  then show ?thesis by (auto simp: components_def Let_def)
qed

lemma RootDir_only_first: "RootDir \<notin> set (tl (components p))"
proof -
  have none: "RootDir \<notin> set (List.map_filter piece_component ws)" for ws
    by (auto simp: List.map_filter_def piece_component_def split: if_splits)
  then have "RootDir \<notin> set (tl (List.map_filter piece_component ws))" for ws
    by (metis list.sel(2) list.set_sel(2))
  with none show ?thesis by (simp add: components_def Let_def)
qed

lemma parent_of_Some: "parent_of cs = Some ds \<longleftrightarrow> (\<exists>c. cs = ds @ [c] \<and> c \<noteq> RootDir)"
  by (auto simp: parent_of_def) (metis append_butlast_last_id)

lemma path_starts_with_refl [simp]: "path_starts_with p p"
  by (simp add: path_starts_with_def)

lemma path_starts_with_absolute: "path_starts_with p r \<Longrightarrow> is_absolute r \<Longrightarrow> is_absolute p"
  unfolding path_starts_with_def root_first by (cases "components r") (auto simp: prefix_def)

text \<open>A name that is exactly one ordinary component, spelled without anything else.\<close>

definition names_one_directory :: "string \<Rightarrow> bool" where
  "names_one_directory name \<longleftrightarrow> components name = [Normal name]"

lemma names_one_directory_iff:
  "names_one_directory name \<longleftrightarrow> name \<noteq> [] \<and> name \<noteq> ''.'' \<and> name \<noteq> ''..'' \<and> CHR ''/'' \<notin> set name"
proof
  assume l: "names_one_directory name"
  then have "components name = [Normal name]" by (simp add: names_one_directory_def)
  then have "Normal name \<in> set (List.map_filter piece_component (split_on (CHR ''/'') name))"
    by (auto simp: components_def Let_def split: if_splits)
  then obtain w where "w \<in> set (split_on (CHR ''/'') name)" "piece_component w = Some (Normal name)"
    by (auto simp: set_map_filter)
  then show "name \<noteq> [] \<and> name \<noteq> ''.'' \<and> name \<noteq> ''..'' \<and> CHR ''/'' \<notin> set name"
    using split_on_pieces [of w "CHR ''/''" name] by (auto simp: piece_component_def split: if_splits)
next
  assume "name \<noteq> [] \<and> name \<noteq> ''.'' \<and> name \<noteq> ''..'' \<and> CHR ''/'' \<notin> set name"
  then show "names_one_directory name"
    by (auto simp: names_one_directory_def components_def Let_def split_on_free is_absolute_def piece_component_def
        map_filter_simps dest: hd_in_set)
qed

lemma split_on_at: "split_on c (a @ c # b) = split_on c a @ split_on c b"
proof (induction a)
  case (Cons x a)
  obtain w ws where "split_on c a = w # ws" by (cases "split_on c a") auto
  with Cons show ?case by auto
qed simp

text \<open>Joining one ordinary name appends one component.\<close>

lemma components_join:
  assumes "names_one_directory b"
  shows "components (path_join a b) = components a @ [Normal b]"
proof -
  have b: "b \<noteq> []" "CHR ''/'' \<notin> set b" "piece_component b = Some (Normal b)"
    using assms by (auto simp: names_one_directory_iff piece_component_def)
  then have hd: "hd b \<noteq> CHR ''/''" by (metis hd_in_set)
  have piece: "List.map_filter piece_component (ws @ [b]) = List.map_filter piece_component ws @ [Normal b]" for ws
    using b(3) by (simp add: List.map_filter_def)
  consider "a = []" | c where "a = c @ ''/''" | "a \<noteq> []" "last a \<noteq> CHR ''/''"
    by (metis append_butlast_last_id)
  then show ?thesis
  proof cases
    case 1
    then show ?thesis
      using hd assms by (simp add: path_join_def names_one_directory_def components_def is_absolute_def Let_def
          map_filter_simps piece_component_def)
  next
    case 2
    have "split_on (CHR ''/'') (path_join a b) = split_on (CHR ''/'') c @ [b]" "split_on (CHR ''/'') a = split_on (CHR ''/'') c @ [[]]"
      using 2 b(2) hd by (simp_all add: path_join_def split_on_at split_on_free)
    moreover have "is_absolute (path_join a b) = is_absolute a"
      using 2 hd by (cases c) (simp_all add: path_join_def is_absolute_def)
    ultimately show ?thesis
      by (simp add: components_def Let_def piece) (simp add: List.map_filter_def piece_component_def)
  next
    case 3
    then have "split_on (CHR ''/'') (path_join a b) = split_on (CHR ''/'') a @ [b]" "is_absolute (path_join a b) = is_absolute a"
      using b(2) hd by (auto simp: path_join_def split_on_at split_on_free is_absolute_def)
    then show ?thesis by (simp add: components_def Let_def piece)
  qed
qed

section \<open>Words\<close>

text \<open>\<open>split_whitespace\<close>.\<close>

fun take_word :: "string \<Rightarrow> string \<times> string" where
  "take_word [] = ([], [])"
| "take_word (c # cs) =
     (if leading white_space (c # cs) \<noteq> None then ([], c # cs)
      else case take_word cs of (w, r) \<Rightarrow> (c # w, r))"

lemma take_word_append: "take_word s = (w, r) \<Longrightarrow> s = w @ r"
  by (induction s arbitrary: w) (auto split: if_splits prod.splits)

lemma white_space_not_Nil: "w \<in> set white_space \<Longrightarrow> w \<noteq> []"
  by (auto simp: white_space_def)

lemma leading_trimmed: "leading white_space (trim_start s) = None"
  unfolding leading_None trim_start_def using trim_start_of_done white_space_not_Nil by blast

function split_whitespace :: "string \<Rightarrow> string list" where
  "split_whitespace s =
     (let t = trim_start s
      in if t = [] then [] else case take_word t of (w, r) \<Rightarrow> w # split_whitespace r)"
  by pat_completeness auto
termination
proof (relation "measure length")
  fix s t w r
  assume t: "t = trim_start s" "t \<noteq> []" and "(w, r) = take_word t"
  then have wr: "take_word t = (w, r)" by simp
  have "w \<noteq> []"
    using wr t(2) leading_trimmed [of s] unfolding t(1) [symmetric] by (cases t) (auto split: prod.splits)
  then have "length r < length t" using take_word_append [OF wr] by simp
  moreover have "length t \<le> length s"
    using trim_start_suffix [of s white_space] unfolding t trim_start_def by (metis le_add2 length_append)
  ultimately show "(r, s) \<in> measure length" by simp
qed simp

declare split_whitespace.simps [simp del]

definition visible :: "char \<Rightarrow> bool" where
  "visible c \<longleftrightarrow> 33 \<le> (of_char c :: nat) \<and> (of_char c :: nat) \<le> 126"

lemma visible_not_leading: "visible c \<Longrightarrow> leading white_space (c # cs) = None"
  by (auto simp: visible_def leading_None starts_with_iff white_space_def)

lemma trim_start_visible: "visible c \<Longrightarrow> trim_start (c # cs) = c # cs"
  using visible_not_leading unfolding trim_start_def by (subst trim_start_of.simps) simp

lemma take_word_visible: "list_all visible w \<Longrightarrow> take_word (w @ CHR '' '' # s) = (w, CHR '' '' # s)"
proof (induction w)
  case Nil
  have "leading white_space (CHR '' '' # s) = Some s"
    by (simp add: leading_def white_space_def map_filter_simps)
  then show ?case by simp
next
  case (Cons c w)
  then show ?case by (simp add: visible_not_leading)
qed

lemma take_word_all: "list_all visible w \<Longrightarrow> take_word w = (w, [])"
  by (induction w) (simp_all add: visible_not_leading)

lemma trim_start_space: "trim_start (CHR '' '' # s) = trim_start s"
  unfolding trim_start_def
  by (subst trim_start_of.simps) (simp add: leading_def white_space_def map_filter_simps)

lemma trim_start_Nil [simp]: "trim_start [] = []"
  unfolding trim_start_def using trim_start_suffix [of "[]" white_space] by simp

lemma split_whitespace_Nil: "split_whitespace [] = []"
  by (subst split_whitespace.simps) simp

lemma split_whitespace_word:
  assumes "list_all visible w" and "w \<noteq> []"
  shows "split_whitespace w = [w]" and "split_whitespace (w @ CHR '' '' # s) = w # split_whitespace (CHR '' '' # s)"
proof -
  obtain c v where w: "w = c # v" "visible c" using assms by (cases w) auto
  show "split_whitespace w = [w]"
    using take_word_all [OF assms(1)] w
    by (subst split_whitespace.simps) (simp add: trim_start_visible split_whitespace_Nil)
  show "split_whitespace (w @ CHR '' '' # s) = w # split_whitespace (CHR '' '' # s)"
    using take_word_visible [OF assms(1), of s] w
    by (subst split_whitespace.simps) (simp add: trim_start_visible)
qed

lemma split_whitespace_space: "split_whitespace (CHR '' '' # s) = split_whitespace s"
  by (subst (1 2) split_whitespace.simps) (simp add: trim_start_space)

lemma visible_digit: "d < 10 \<Longrightarrow> visible (digit_char d)"
  by (simp add: visible_def digit_char_code)

lemma visible_show_nat: "list_all visible (show_nat n)"
proof (induction n rule: show_nat.induct)
  case (1 n)
  then show ?case by (subst show_nat.simps) (simp add: visible_digit)
qed

end
