(* ===== verification/Supervisor_Config.thy ===== *)
theory Supervisor_Config
  imports Rust_Path
begin

text \<open>
  The root-owned configuration of the supervisor and its validation (\<open>tddy-supervisor\<close>, \<open>config.rs\<close>,
  \<open>config/spawn_policy.rs\<close>, \<open>host_socket_config.rs\<close>): what a configuration that is accepted guarantees about
  users, tools, environment keys and sockets. YAML parsing and the ownership of the file on disk are not
  modelled. A \<open>BTreeSet<&Path>\<close> is the list of the component lists inserted so far.
\<close>

section \<open>The configuration\<close>

record restart_policy =
  max_retries :: u32
  initial_backoff_ms :: u64
  max_backoff_ms :: u64
  stability_threshold_ms :: u64

definition default_restart_policy :: restart_policy where
  "default_restart_policy =
     \<lparr>max_retries = 5, initial_backoff_ms = 500, max_backoff_ms = 30000, stability_threshold_ms = 10000\<rparr>"

record service_socket =
  sock_path :: string
  sock_group :: "string option"
  sock_mode :: string

record host_socket =
  host_user :: string
  host_path :: string

record managed_service =
  service_name :: string
  exec_start :: string
  service_args :: "string list"
  service_user :: string
  service_group :: "string option"
  service_dir :: "string option"
  service_env :: "(string \<times> string) list"
  restart :: restart_policy
  service_socket :: "service_socket option"
  host_sockets :: "host_socket list"

record spawn_policy =
  allowed_session_users :: "string list"
  allowed_tool_paths :: "string list"
  allowed_relay_tool_paths :: "string list"
  allowed_mount_roots :: "string list"
  allowed_env_keys :: "string list"

record cgroup_policy =
  base_override :: "string option"
  mount_root :: string
  controllers :: "string list"
  supervisor_leaf :: string
  memory_max_ceiling :: "u64 option"
  cpu_max_ceiling :: "string option"
  pids_max_ceiling :: "u64 option"

definition default_cgroup_policy :: cgroup_policy where
  "default_cgroup_policy =
     \<lparr>base_override = None, mount_root = ''/sys/fs/cgroup'', controllers = [''memory'', ''cpu'', ''pids''],
      supervisor_leaf = ''supervisor'', memory_max_ceiling = None, cpu_max_ceiling = None, pids_max_ceiling = None\<rparr>"

record supervisor_config =
  socket :: service_socket
  services :: "managed_service list"
  policy :: spawn_policy
  cgroup :: cgroup_policy
  shutdown_grace_secs :: u64

definition root_user :: string where
  "root_user = ''root''"

definition loader_env_prefixes :: "string list" where
  "loader_env_prefixes = [''LD_'', ''MALLOC_'']"

definition loader_env_keys :: "string list" where
  "loader_env_keys = [''GCONV_PATH'', ''NLSPATH'', ''LOCPATH'', ''HOSTALIASES'', ''RESOLV_HOST_CONF'']"

definition is_loader_env_key :: "string \<Rightarrow> bool" where
  "is_loader_env_key key \<longleftrightarrow>
     list_ex (\<lambda>p. starts_with p key) loader_env_prefixes \<or> List.member loader_env_keys key"

definition max_handed_over_listeners :: nat where
  "max_handed_over_listeners = 16"

section \<open>Validation\<close>

abbreviation (input) tick :: string where
  "tick \<equiv> [CHR 0x60]"

definition require_absolute :: "string \<Rightarrow> string \<Rightarrow> string + unit" where
  "require_absolute label path =
     (if is_absolute path then Inr () else Inl (label @ '' '' @ tick @ path @ tick @ '' must be absolute''))"

text \<open>\<open>u32::from_str_radix(s, 8)\<close>.\<close>

fun parse_octal_digits :: "int \<Rightarrow> string \<Rightarrow> int option" where
  "parse_octal_digits acc [] = Some acc"
| "parse_octal_digits acc (c # cs) =
     (let d = (of_char c :: int) in
      if 48 \<le> d \<and> d \<le> 55 then parse_octal_digits (8 * acc + (d - 48)) cs else None)"

definition parse_octal :: "string \<Rightarrow> u32 option" where
  "parse_octal s =
     (let ds = (case s of CHR ''+'' # r \<Rightarrow> r | _ \<Rightarrow> s)
      in if ds = [] then None
         else case parse_octal_digits 0 ds of
                Some n \<Rightarrow> if n < 2 ^ 32 then Some (of_int n) else None
              | None \<Rightarrow> None)"

definition mode_bits :: "string \<Rightarrow> service_socket \<Rightarrow> string + u32" where
  "mode_bits what s =
     ok_or (what @ '' mode '' @ tick @ sock_mode s @ tick @ '' is not an octal permission string'')
       (parse_octal (sock_mode s))"

fun require_all_absolute :: "string \<Rightarrow> string list \<Rightarrow> string + unit" where
  "require_all_absolute label [] = Inr ()"
| "require_all_absolute label (p # ps) = try_then (require_absolute label p) (\<lambda>_. require_all_absolute label ps)"

fun validate_env_keys :: "string list \<Rightarrow> string + unit" where
  "validate_env_keys [] = Inr ()"
| "validate_env_keys (k # ks) =
     (if is_loader_env_key k
      then Inl (''allowed_env_keys may not contain '' @ tick @ k @ tick @ '': it chooses what code a session '' @
                ''loads, which would hand a caller everything allowed_tool_paths withholds'')
      else validate_env_keys ks)"

text \<open>The loop over the services, with the names and socket paths seen so far.\<close>

fun validate_services :: "string list \<Rightarrow> component list list \<Rightarrow> managed_service list \<Rightarrow> string + unit" where
  "validate_services names socket_paths [] = Inr ()"
| "validate_services names socket_paths (s # ss) =
     (if service_user s = root_user
      then Inl (''service '' @ tick @ service_name s @ tick @ '' declares user '' @ tick @ root_user @ tick @
                ''; the supervisor is the only privileged process'')
      else try_then (require_absolute ''exec_start'' (exec_start s)) (\<lambda>_.
        if service_name s \<in> set names
        then Inl (''two services share the name '' @ tick @ service_name s @ tick)
        else case service_socket s of
               None \<Rightarrow> validate_services (service_name s # names) socket_paths ss
             | Some k \<Rightarrow>
                 try_then (mode_bits ''service socket'' k) (\<lambda>_.
                 try_then (require_absolute ''service socket path'' (sock_path k)) (\<lambda>_.
                   if components (sock_path k) \<in> set socket_paths
                   then Inl (''two services declare the socket path '' @ tick @ sock_path k @ tick)
                   else validate_services (service_name s # names) (components (sock_path k) # socket_paths) ss))))"

definition is_one_safe_segment :: "string \<Rightarrow> bool" where
  "is_one_safe_segment name \<longleftrightarrow>
     name \<noteq> [] \<and> hd name \<noteq> CHR ''.'' \<and>
     list_all (\<lambda>c. is_ascii_alphanumeric c \<or> c = CHR ''_'' \<or> c = CHR ''-'' \<or> c = CHR ''.'') name"

definition host_directory :: "host_socket \<Rightarrow> component list option" where
  "host_directory h =
     (case parent_of (components (host_path h)) of
        Some d \<Rightarrow> if parent_of d \<noteq> None then Some d else None
      | None \<Rightarrow> None)"

text \<open>
  The host sockets of one service, with the users of this service and the paths and directories of every
  socket seen so far.
\<close>

fun validate_hosts ::
    "spawn_policy \<Rightarrow> string \<Rightarrow> string list \<Rightarrow> component list list \<Rightarrow> component list list \<Rightarrow> host_socket list
       \<Rightarrow> string + (component list list \<times> component list list)" where
  "validate_hosts pol service users paths directories [] = Inr (paths, directories)"
| "validate_hosts pol service users paths directories (h # hs) =
     try_then (require_absolute ''host socket path'' (host_path h)) (\<lambda>_.
     if host_user h = root_user
     then Inl (''service '' @ tick @ service @ tick @ '': a host socket may not be given to '' @ tick @ root_user @ tick)
     else if \<not> is_one_safe_segment (host_user h)
     then Inl (''service '' @ tick @ service @ tick @ '': host socket user '' @ tick @ host_user h @ tick @
               '' is not a plain account name'')
     else if host_user h \<notin> set (allowed_session_users pol)
     then Inl (''service '' @ tick @ service @ tick @ '': host socket user '' @ tick @ host_user h @ tick @
               '' is not in spawn_policy.allowed_session_users; the supervisor would never run a session as them'')
     else if host_user h \<in> set users
     then Inl (''service '' @ tick @ service @ tick @ '' declares two host sockets for '' @ tick @ host_user h @ tick)
     else case host_directory h of
            None \<Rightarrow> Inl (''host socket path '' @ tick @ host_path h @ tick @ '' needs a directory of its own below the root'')
          | Some d \<Rightarrow>
              if list_ex (\<lambda>other. prefix d other) paths \<or> components (host_path h) \<in> set paths \<or> d \<in> set directories
              then Inl (''host socket path '' @ tick @ host_path h @ tick @ '' shares a path or directory with another '' @
                        ''declared socket; its directory is handed to '' @ tick @ host_user h @ tick)
              else validate_hosts pol service (host_user h # users) (components (host_path h) # paths) (d # directories) hs)"

fun validate_host_services ::
    "spawn_policy \<Rightarrow> component list list \<Rightarrow> component list list \<Rightarrow> managed_service list \<Rightarrow> string + unit" where
  "validate_host_services pol paths directories [] = Inr ()"
| "validate_host_services pol paths directories (s # ss) =
     (if host_sockets s = [] then validate_host_services pol paths directories ss
      else if service_socket s = None
      then Inl (''service '' @ tick @ service_name s @ tick @ '' declares host_sockets but no socket: descriptor 3 is '' @
                ''always the service'' @ quote_char @ ''s own listener, and the host sockets follow it'')
      else if 1 + length (host_sockets s) > max_handed_over_listeners
      then Inl (''service '' @ tick @ service_name s @ tick @ '' declares '' @ show_nat (length (host_sockets s)) @
                '' host_sockets; at most '' @ show_nat (max_handed_over_listeners - 1) @ '' fit'')
      else try_then (validate_hosts pol (service_name s) [] paths directories (host_sockets s)) (\<lambda>(paths, directories).
             validate_host_services pol paths directories ss))"

definition service_socket_paths :: "managed_service list \<Rightarrow> component list list" where
  "service_socket_paths ss = List.map_filter (\<lambda>s. map_option (components \<circ> sock_path) (service_socket s)) ss"

definition validate_host_sockets :: "supervisor_config \<Rightarrow> string + unit" where
  "validate_host_sockets config =
     (let main = components (sock_path (socket config)) # service_socket_paths (services config)
      in validate_host_services (policy config) main (List.map_filter parent_of main) (services config))"

definition validate :: "supervisor_config \<Rightarrow> string + unit" where
  "validate config =
     (let pol = policy config
      in try_then (mode_bits ''socket'' (socket config)) (\<lambda>_.
         try_then (require_absolute ''socket path'' (sock_path (socket config))) (\<lambda>_.
         try_then (validate_services [] [] (services config)) (\<lambda>_.
         try_then (validate_host_sockets config) (\<lambda>_.
           if root_user \<in> set (allowed_session_users pol)
           then Inl (''allowed_session_users may not contain '' @ tick @ root_user @ tick)
           else try_then (require_all_absolute ''allowed_tool_paths entry'' (allowed_tool_paths pol)) (\<lambda>_.
                try_then (require_all_absolute ''allowed_relay_tool_paths entry'' (allowed_relay_tool_paths pol)) (\<lambda>_.
                try_then (require_all_absolute ''allowed_mount_roots entry'' (allowed_mount_roots pol)) (\<lambda>_.
                  validate_env_keys (allowed_env_keys pol)))))))))"

section \<open>What an accepted configuration guarantees\<close>

lemma require_absolute_Inr [simp]: "require_absolute label p = Inr u \<longleftrightarrow> is_absolute p"
  by (simp add: require_absolute_def)

lemma require_all_absolute_Inr [simp]: "require_all_absolute label ps = Inr u \<longleftrightarrow> (\<forall>p\<in>set ps. is_absolute p)"
  by (induction ps) (auto simp: try_then_Inr)

lemma validate_env_keys_Inr [simp]: "validate_env_keys ks = Inr u \<longleftrightarrow> (\<forall>k\<in>set ks. \<not> is_loader_env_key k)"
  by (induction ks) auto

lemma validate_services_Inr:
  assumes "validate_services names paths ss = Inr u"
  shows "(\<forall>s\<in>set ss. service_user s \<noteq> root_user \<and> is_absolute (exec_start s)) \<and>
    distinct (map service_name ss) \<and> set names \<inter> service_name ` set ss = {} \<and>
    distinct (service_socket_paths ss) \<and> set paths \<inter> set (service_socket_paths ss) = {}"
  using assms
proof (induction names paths ss rule: validate_services.induct)
  case (2 names paths s ss)
  then show ?case
    by (cases "service_socket s")
      (auto simp: try_then_Inr service_socket_paths_def map_filter_simps split: if_splits)
qed (simp add: service_socket_paths_def map_filter_simps)

abbreviation (input) host_components :: "host_socket \<Rightarrow> component list" where
  "host_components h \<equiv> components (host_path h)"

text \<open>
  The sockets kept apart by the host socket loop: the directory of each host socket encloses no path declared
  before it and is no directory used before it.
\<close>

fun apart :: "component list list \<Rightarrow> component list list \<Rightarrow> host_socket list \<Rightarrow> bool" where
  "apart paths dirs [] = True"
| "apart paths dirs (h # hs) =
     ((case host_directory h of None \<Rightarrow> False | Some d \<Rightarrow> (\<forall>p\<in>set paths. \<not> prefix d p) \<and> d \<notin> set dirs) \<and>
      apart (host_components h # paths) (the (host_directory h) # dirs) hs)"

definition host_granted :: "spawn_policy \<Rightarrow> host_socket \<Rightarrow> bool" where
  "host_granted pol h \<longleftrightarrow>
     is_absolute (host_path h) \<and> host_user h \<noteq> root_user \<and> is_one_safe_segment (host_user h) \<and>
     host_user h \<in> set (allowed_session_users pol)"

lemma validate_hosts_Inr:
  assumes "validate_hosts pol service users paths dirs hs = Inr (paths', dirs')"
  shows "(\<forall>h\<in>set hs. host_granted pol h) \<and> distinct (map host_user hs) \<and> set users \<inter> host_user ` set hs = {} \<and>
    apart paths dirs hs \<and>
    paths' = rev (map host_components hs) @ paths \<and> dirs' = rev (map (\<lambda>h. the (host_directory h)) hs) @ dirs"
  using assms
proof (induction hs arbitrary: users paths dirs)
  case (Cons h hs)
  from Cons.prems obtain d where d: "host_directory h = Some d"
      and no: "\<forall>p\<in>set paths. \<not> prefix d p" "d \<notin> set dirs" and granted: "host_granted pol h" "host_user h \<notin> set users"
      and rest: "validate_hosts pol service (host_user h # users) (host_components h # paths) (d # dirs) hs = Inr (paths', dirs')"
    by (auto simp: try_then_Inr host_granted_def list_ex_iff split: if_splits option.splits)
  from Cons.IH [OF rest] d no granted show ?case by auto
qed simp

lemma apart_append:
  "apart paths dirs (gs @ hs) \<longleftrightarrow> apart paths dirs gs \<and>
     apart (rev (map host_components gs) @ paths) (rev (map (\<lambda>h. the (host_directory h)) gs) @ dirs) hs"
  by (induction gs arbitrary: paths dirs) auto

definition host_services_ok :: "spawn_policy \<Rightarrow> managed_service list \<Rightarrow> bool" where
  "host_services_ok pol ss \<longleftrightarrow>
     (\<forall>s\<in>set ss. (\<forall>h\<in>set (host_sockets s). host_granted pol h) \<and> distinct (map host_user (host_sockets s)) \<and>
        (host_sockets s \<noteq> [] \<longrightarrow> service_socket s \<noteq> None \<and> 1 + length (host_sockets s) \<le> max_handed_over_listeners))"

lemma validate_host_services_Inr:
  assumes "validate_host_services pol paths dirs ss = Inr u"
  shows "host_services_ok pol ss \<and> apart paths dirs (concat (map host_sockets ss))"
  using assms
proof (induction ss arbitrary: paths dirs)
  case (Cons s ss)
  show ?case
  proof (cases "host_sockets s = []")
    case True
    then show ?thesis using Cons by (auto simp: host_services_ok_def)
  next
    case False
    with Cons.prems obtain paths' dirs' where v: "validate_hosts pol (service_name s) [] paths dirs (host_sockets s) = Inr (paths', dirs')"
        and rest: "validate_host_services pol paths' dirs' ss = Inr u"
        and s: "service_socket s \<noteq> None" "1 + length (host_sockets s) \<le> max_handed_over_listeners"
      by (auto simp: try_then_Inr split: if_splits)
    have "host_services_ok pol ss \<and> apart paths' dirs' (concat (map host_sockets ss))"
      using Cons.IH [OF rest] .
    with validate_hosts_Inr [OF v] s show ?thesis
      by (auto simp: host_services_ok_def apart_append)
  qed
qed (simp add: host_services_ok_def)

lemma apart_members:
  assumes "apart paths dirs hs"
  shows "(\<forall>h\<in>set hs. \<exists>d. host_directory h = Some d \<and> (\<forall>p\<in>set paths. \<not> prefix d p) \<and> d \<notin> set dirs) \<and>
    sorted_wrt (\<lambda>g h. host_directory g \<noteq> host_directory h \<and> \<not> prefix (the (host_directory h)) (host_components g)) hs"
  using assms
proof (induction hs arbitrary: paths dirs)
  case (Cons h hs)
  then show ?case by (auto split: option.splits) fastforce+
qed simp

lemma validate_Inr:
  assumes "validate config = Inr u"
  shows "validate_services [] [] (services config) = Inr ()" and "validate_host_sockets config = Inr ()"
    and "root_user \<notin> set (allowed_session_users (policy config))"
    and "\<forall>p\<in>set (allowed_tool_paths (policy config) @ allowed_relay_tool_paths (policy config) @
          allowed_mount_roots (policy config)). is_absolute p"
    and "\<forall>k\<in>set (allowed_env_keys (policy config)). \<not> is_loader_env_key k"
    and "is_absolute (sock_path (socket config))"
  using assms by (auto simp: validate_def Let_def try_then_Inr split: if_splits)

definition main_sockets :: "supervisor_config \<Rightarrow> component list list" where
  "main_sockets config = components (sock_path (socket config)) # service_socket_paths (services config)"

definition all_hosts :: "supervisor_config \<Rightarrow> host_socket list" where
  "all_hosts config = concat (map host_sockets (services config))"

text \<open>
  In an accepted configuration every host socket belongs to a listed session user other than root; its directory
  is the directory of no other declared socket, and encloses neither the supervisor's socket, nor a service's socket,
  nor a host socket declared before it.
\<close>

theorem accepted_host_sockets_apart:
  assumes "validate config = Inr ()"
  shows "(\<forall>h\<in>set (all_hosts config). host_user h \<in> set (allowed_session_users (policy config)) \<and> host_user h \<noteq> root_user \<and>
           (\<exists>d. host_directory h = Some d \<and> (\<forall>p\<in>set (main_sockets config). \<not> prefix d p) \<and>
              d \<notin> set (List.map_filter parent_of (main_sockets config)))) \<and>
         sorted_wrt (\<lambda>g h. host_directory g \<noteq> host_directory h \<and>
           \<not> prefix (the (host_directory h)) (components (host_path g))) (all_hosts config)"
proof -
  have v: "validate_host_services (policy config) (main_sockets config) (List.map_filter parent_of (main_sockets config))
      (services config) = Inr ()"
    using validate_Inr(2) [OF assms] by (simp add: validate_host_sockets_def main_sockets_def Let_def)
  note both = validate_host_services_Inr [OF v]
  have "host_granted (policy config) h" if "h \<in> set (all_hosts config)" for h
    using both that by (auto simp: host_services_ok_def all_hosts_def)
  with both show ?thesis
    using apart_members [of "main_sockets config" _ "all_hosts config"] unfolding host_granted_def all_hosts_def by blast
qed

definition sample_service :: "host_socket list \<Rightarrow> managed_service" where
  "sample_service hs =
     \<lparr>service_name = ''daemon'', exec_start = ''/usr/bin/tddy-daemon'', service_args = [], service_user = ''tddy'',
      service_group = None, service_dir = None, service_env = [], restart = default_restart_policy,
      service_socket = Some \<lparr>sock_path = ''/run/tddy/daemon.sock'', sock_group = None, sock_mode = ''0660''\<rparr>,
      host_sockets = hs\<rparr>"

definition sample_config :: "host_socket list \<Rightarrow> supervisor_config" where
  "sample_config hs =
     \<lparr>socket = \<lparr>sock_path = ''/run/tddy-supervisor.sock'', sock_group = None, sock_mode = ''0660''\<rparr>,
      services = [sample_service hs],
      policy = \<lparr>allowed_session_users = [''alice'', ''bob''], allowed_tool_paths = [''/usr/bin/tddy-tools'', ''/usr/bin/git''],
        allowed_relay_tool_paths = [], allowed_mount_roots = [''/srv/repos''], allowed_env_keys = [''TERM'', ''LISTEN_FDS'']\<rparr>,
      cgroup = default_cgroup_policy, shutdown_grace_secs = 20\<rparr>"

definition alice_socket :: host_socket where
  "alice_socket = \<lparr>host_user = ''alice'', host_path = ''/run/host/alice/session.sock''\<rparr>"

definition bob_socket :: host_socket where
  "bob_socket = \<lparr>host_user = ''bob'', host_path = ''/run/host/bob/session.sock''\<rparr>"

definition bob_inside_alice :: host_socket where
  "bob_inside_alice = \<lparr>host_user = ''bob'', host_path = ''/run/host/alice/bob/session.sock''\<rparr>"

lemma sample_config_valid: "validate (sample_config [alice_socket, bob_socket]) = Inr ()"
  by code_simp

theorem accepted_host_sockets_apart_witness:
  "validate (sample_config [alice_socket, bob_socket]) = Inr () \<and>
   (\<exists>d. host_directory bob_socket = Some d \<and> \<not> prefix d (components ''/run/tddy-supervisor.sock'')) \<and>
   host_directory alice_socket \<noteq> host_directory bob_socket"
  using accepted_host_sockets_apart [OF sample_config_valid] sample_config_valid
  by (auto simp: all_hosts_def main_sockets_def sample_config_def sample_service_def)

text \<open>
  Whether a host socket may lie inside the directory given to another user depends on the order of the
  declarations: Bob's socket below Alice's directory is accepted when it is declared after Alice's and rejected
  when it is declared before.
\<close>

theorem nested_host_socket_by_order:
  "validate (sample_config [alice_socket, bob_inside_alice]) = Inr () \<and>
   prefix (the (host_directory alice_socket)) (components (host_path bob_inside_alice)) \<and>
   validate (sample_config [bob_inside_alice, alice_socket]) \<noteq> Inr ()"
  by code_simp

end
