(* ===== verification/Supervisor_Policy.thy ===== *)
theory Supervisor_Policy
  imports Supervisor_Config
begin

text \<open>
  The supervisor's two gates (\<open>tddy-supervisor\<close>, \<open>policy.rs\<close>, \<open>authz.rs\<close>, \<open>error.rs\<close>, the limits of \<open>request.rs\<close>):
  which peer may ask, and which user, tool, environment, mount source, resource limit and scope name it may ask
  for. The kernel's resolution of a mount source is a parameter.
\<close>

section \<open>Errors\<close>

datatype supervisor_error =
    Denied
  | NotFound string
  | Invalid string
  | Unavailable string
  | OperationFailed string

fun show_supervisor_error :: "supervisor_error \<Rightarrow> string" where
  "show_supervisor_error Denied = ''request denied''"
| "show_supervisor_error (NotFound name) = ''no such service or scope: '' @ name"
| "show_supervisor_error (Invalid message) = ''invalid request: '' @ message"
| "show_supervisor_error (Unavailable message) = ''supervisor unavailable: '' @ message"
| "show_supervisor_error (OperationFailed message) = ''privileged operation failed: '' @ message"

section \<open>Peers\<close>

record peer_identity =
  peer_uid :: u32
  peer_gid :: u32
  peer_pid :: u32

definition authorize :: "u32 set \<Rightarrow> peer_identity \<Rightarrow> supervisor_error + unit" where
  "authorize authorized_uids peer = (if peer_uid peer \<in> authorized_uids then Inr () else Inl Denied)"

section \<open>The cpu limit\<close>

record cpu_max =
  quota_us :: u64
  period_us :: u64

definition parse_u64 :: "string \<Rightarrow> u64 option" where
  "parse_u64 s = map_option of_nat (parse_uint (2 ^ 64 - 1) s)"

definition malformed_cpu_max :: "string \<Rightarrow> supervisor_error" where
  "malformed_cpu_max text =
     Invalid (''cpu.max must be '' @ tick @ ''<quota_us> <period_us>'' @ tick @ '', got '' @ tick @ text @ tick)"

definition cpu_max_from_str :: "string \<Rightarrow> supervisor_error + cpu_max" where
  "cpu_max_from_str text =
     (case split_whitespace text of
        [quota, period] \<Rightarrow>
          try_then (ok_or (malformed_cpu_max text) (parse_u64 quota)) (\<lambda>q.
          try_then (ok_or (malformed_cpu_max text) (parse_u64 period)) (\<lambda>p.
            if p = 0 then Inl (Invalid ''cpu.max period must be greater than zero'')
            else Inr \<lparr>quota_us = q, period_us = p\<rparr>))
      | _ \<Rightarrow> Inl (malformed_cpu_max text))"

definition show_cpu_max :: "cpu_max \<Rightarrow> string" where
  "show_cpu_max c = show_nat (unat (quota_us c)) @ '' '' @ show_nat (unat (period_us c))"

section \<open>Users, tools and environment\<close>

definition resolve_session_user :: "spawn_policy \<Rightarrow> string \<Rightarrow> supervisor_error + string" where
  "resolve_session_user pol requested =
     (if requested = root_user then Inl Denied
      else if list_ex (\<lambda>allowed. allowed = requested) (allowed_session_users pol) then Inr requested
      else Inl Denied)"

definition plain_absolute_path :: "string \<Rightarrow> supervisor_error + string" where
  "plain_absolute_path path =
     (if is_absolute path \<and> list_all (\<lambda>c. c \<noteq> ParentDir) (components path) then Inr path else Inl Denied)"

definition resolve_tool_path :: "spawn_policy \<Rightarrow> string \<Rightarrow> supervisor_error + string" where
  "resolve_tool_path pol requested =
     try_then (plain_absolute_path requested) (\<lambda>r.
       if list_ex (\<lambda>allowed. path_eq allowed r) (allowed_tool_paths pol) then Inr r else Inl Denied)"

definition resolve_relay_tool_path :: "spawn_policy \<Rightarrow> string \<Rightarrow> supervisor_error + string" where
  "resolve_relay_tool_path pol requested =
     try_then (plain_absolute_path requested) (\<lambda>r.
       if list_ex (\<lambda>allowed. path_eq allowed r) (allowed_relay_tool_paths pol) then Inr r else Inl Denied)"

fun check_env_keys :: "spawn_policy \<Rightarrow> string list \<Rightarrow> supervisor_error + unit" where
  "check_env_keys pol [] = Inr ()"
| "check_env_keys pol (k # ks) =
     (if is_loader_env_key k then Inl Denied
      else if \<not> list_ex (\<lambda>allowed. allowed = k) (allowed_env_keys pol) then Inl Denied
      else check_env_keys pol ks)"

definition resolve_env :: "spawn_policy \<Rightarrow> (string \<times> string) list \<Rightarrow> supervisor_error + (string \<times> string) list" where
  "resolve_env pol requested = try_then (check_env_keys pol (map fst requested)) (\<lambda>_. Inr requested)"

section \<open>Mount sources\<close>

datatype os_error = ENOENT | Errno int

text \<open>
  The two calls into the kernel: a reference to the root directory, and the resolution of a path relative to it
  that follows no symbolic link and does not leave it. A relative path is given by its components.
\<close>

record 'd resolver =
  open_directory_reference :: "string \<Rightarrow> os_error + 'd"
  open_resolved :: "'d \<Rightarrow> component list \<Rightarrow> os_error + 'd"

definition nul_free :: "string \<Rightarrow> bool" where
  "nul_free s \<longleftrightarrow> CHR 0x00 \<notin> set s"

fun nul_free_component :: "component \<Rightarrow> bool" where
  "nul_free_component (Normal s) = nul_free s"
| "nul_free_component _ = True"

fun containment_of :: "os_error + 'd \<Rightarrow> supervisor_error + unit" where
  "containment_of (Inr _) = Inr ()"
| "containment_of (Inl ENOENT) = Inr ()"
| "containment_of (Inl (Errno _)) = Inl Denied"

definition refuse_unresolvable :: "'d resolver \<Rightarrow> string \<Rightarrow> string \<Rightarrow> supervisor_error + unit" where
  "refuse_unresolvable k root requested =
     (if \<not> nul_free root then Inl Denied
      else case path_strip_prefix requested root of
             None \<Rightarrow> Inl Denied
           | Some beneath \<Rightarrow>
               let beneath = (if beneath = [] then [CurDir] else beneath)
               in if \<not> list_all nul_free_component beneath then Inl Denied
                  else containment_of (try_then (open_directory_reference k root) (\<lambda>d. open_resolved k d beneath)))"

definition resolve_mount_source :: "'d resolver \<Rightarrow> spawn_policy \<Rightarrow> string \<Rightarrow> supervisor_error + string" where
  "resolve_mount_source k pol requested =
     try_then (plain_absolute_path requested) (\<lambda>r.
     try_then (ok_or Denied (List.find (\<lambda>root. path_starts_with r root) (allowed_mount_roots pol))) (\<lambda>root.
     try_then (refuse_unresolvable k root r) (\<lambda>_. Inr r)))"

section \<open>Limits\<close>

record limits =
  memory_max :: "u64 option"
  cpu_limit :: "string option"
  pids_max :: "u64 option"

fun clamp_scalar :: "u64 option \<Rightarrow> u64 option \<Rightarrow> u64 option" where
  "clamp_scalar (Some requested) (Some ceiling) = Some (min requested ceiling)"
| "clamp_scalar (Some requested) None = Some requested"
| "clamp_scalar None ceiling = ceiling"

definition transpose_opt :: "('e + 'a) option \<Rightarrow> 'e + 'a option" where
  "transpose_opt r = (case r of None \<Rightarrow> Inr None | Some (Inl e) \<Rightarrow> Inl e | Some (Inr a) \<Rightarrow> Inr (Some a))"

definition clamp_cpu :: "string option \<Rightarrow> string option \<Rightarrow> supervisor_error + string option" where
  "clamp_cpu requested ceiling =
     try_then (transpose_opt (map_option cpu_max_from_str requested)) (\<lambda>req.
     try_then (transpose_opt (map_option cpu_max_from_str ceiling)) (\<lambda>ceil.
       case (req, ceil) of
         (Some r, Some c) \<Rightarrow>
           if period_us r \<noteq> period_us c
           then Inl (Invalid (''cpu.max period '' @ show_nat (unat (period_us r)) @ '' does not match the policy period '' @
                              show_nat (unat (period_us c))))
           else Inr (Some (show_cpu_max \<lparr>quota_us = min (quota_us r) (quota_us c), period_us = period_us c\<rparr>))
       | (Some r, None) \<Rightarrow> Inr (Some (show_cpu_max r))
       | (None, c) \<Rightarrow> Inr (map_option show_cpu_max c)))"

definition clamp_limits :: "cgroup_policy \<Rightarrow> limits \<Rightarrow> supervisor_error + limits" where
  "clamp_limits pol requested =
     try_then (clamp_cpu (cpu_limit requested) (cpu_max_ceiling pol)) (\<lambda>cpu.
       Inr \<lparr>memory_max = clamp_scalar (memory_max requested) (memory_max_ceiling pol), cpu_limit = cpu,
            pids_max = clamp_scalar (pids_max requested) (pids_max_ceiling pol)\<rparr>)"

section \<open>Scope names\<close>

definition scope_dir :: "string \<Rightarrow> string \<Rightarrow> supervisor_error + string" where
  "scope_dir base name =
     (case components name of
        [Normal single] \<Rightarrow> if single \<noteq> name then Inl Denied else Inr (path_join base (''tddy-'' @ name @ ''.scope''))
      | _ \<Rightarrow> Inl Denied)"

section \<open>What the gates let through\<close>

lemma parse_u64_show: "parse_u64 (show_nat (unat w)) = Some w"
proof -
  have "unat w \<le> 2 ^ 64 - 1" using unat_u64_less [of w] by simp
  then show ?thesis by (simp add: parse_u64_def parse_uint_show_nat)
qed

lemma show_cpu_max_fields: "split_whitespace (show_cpu_max c) = [show_nat (unat (quota_us c)), show_nat (unat (period_us c))]"
  by (simp add: show_cpu_max_def split_whitespace_word split_whitespace_space visible_show_nat)

lemma cpu_max_show: "cpu_max_from_str (show_cpu_max c) = (if period_us c = 0 then Inl (Invalid ''cpu.max period must be greater than zero'') else Inr c)"
  by (simp add: cpu_max_from_str_def show_cpu_max_fields parse_u64_show ok_or_def)

lemma cpu_max_from_str_period: "cpu_max_from_str text = Inr c \<Longrightarrow> period_us c \<noteq> 0"
  by (auto simp: cpu_max_from_str_def try_then_Inr split: list.splits if_splits)

text \<open>An accepted cpu limit prints as a text that is accepted as the same limit, however it was spelled.\<close>

lemma cpu_max_roundtrip: "cpu_max_from_str text = Inr c \<Longrightarrow> cpu_max_from_str (show_cpu_max c) = Inr c"
  by (auto simp: cpu_max_show dest: cpu_max_from_str_period)

lemma transpose_opt_Inr: "transpose_opt r = Inr x \<longleftrightarrow> (r = None \<and> x = None) \<or> (\<exists>a. r = Some (Inr a) \<and> x = Some a)"
  by (auto simp: transpose_opt_def split: option.splits sum.splits)

lemma clamp_scalar_ceiling:
  "\<exists>m. clamp_scalar r (Some c) = Some m \<and> m \<le> c \<and> (\<forall>x. r = Some x \<longrightarrow> m = min x c) \<and> (r = None \<longrightarrow> m = c)"
  by (cases r) auto

lemma clamp_cpu_ceiling:
  assumes "clamp_cpu r (Some ct) = Inr applied"
  shows "\<exists>c q. cpu_max_from_str ct = Inr c \<and> applied = Some (show_cpu_max q) \<and> cpu_max_from_str (show_cpu_max q) = Inr q \<and>
    quota_us q \<le> quota_us c \<and> period_us q = period_us c \<and>
    (\<forall>rt. r = Some rt \<longrightarrow> (\<exists>x. cpu_max_from_str rt = Inr x \<and> quota_us q = min (quota_us x) (quota_us c) \<and> period_us x = period_us q))"
proof -
  obtain c where c: "cpu_max_from_str ct = Inr c"
    using assms by (auto simp: clamp_cpu_def try_then_Inr transpose_opt_Inr)
  have p: "period_us c \<noteq> 0" using cpu_max_from_str_period [OF c] .
  show ?thesis
  proof (cases r)
    case None
    then have "applied = Some (show_cpu_max c)" using assms c by (simp add: clamp_cpu_def transpose_opt_def)
    with None c p show ?thesis by (auto simp: cpu_max_show)
  next
    case (Some rt)
    then obtain x where x: "cpu_max_from_str rt = Inr x" using assms by (auto simp: clamp_cpu_def try_then_Inr transpose_opt_Inr)
    let ?q = "\<lparr>quota_us = min (quota_us x) (quota_us c), period_us = period_us c\<rparr>"
    have "period_us x = period_us c" "applied = Some (show_cpu_max ?q)"
      using assms Some x c by (auto simp: clamp_cpu_def transpose_opt_def split: if_splits)
    moreover have "cpu_max_from_str (show_cpu_max ?q) = Inr ?q" using p by (simp add: cpu_max_show)
    ultimately show ?thesis using Some x c by (intro exI [of _ c] exI [of _ ?q]) simp
  qed
qed



lemma plain_absolute_path_Inr: "plain_absolute_path p = Inr q \<longleftrightarrow> q = p \<and> is_absolute p \<and> ParentDir \<notin> set (components p)"
  by (auto simp: plain_absolute_path_def list_all_iff)

lemma resolve_session_user_Inr:
  "resolve_session_user pol u = Inr v \<longleftrightarrow> v = u \<and> u \<noteq> root_user \<and> u \<in> set (allowed_session_users pol)"
  by (auto simp: resolve_session_user_def list_ex_iff)

lemma resolve_tool_path_Inr:
  "resolve_tool_path pol p = Inr q \<longleftrightarrow>
     q = p \<and> is_absolute p \<and> ParentDir \<notin> set (components p) \<and> (\<exists>a\<in>set (allowed_tool_paths pol). path_eq a p)"
  by (auto simp: resolve_tool_path_def try_then_Inr plain_absolute_path_Inr list_ex_iff)

lemma resolve_relay_tool_path_Inr:
  "resolve_relay_tool_path pol p = Inr q \<longleftrightarrow>
     q = p \<and> is_absolute p \<and> ParentDir \<notin> set (components p) \<and> (\<exists>a\<in>set (allowed_relay_tool_paths pol). path_eq a p)"
  by (auto simp: resolve_relay_tool_path_def try_then_Inr plain_absolute_path_Inr list_ex_iff)

lemma check_env_keys_Inr:
  "check_env_keys pol ks = Inr u \<longleftrightarrow> (\<forall>k\<in>set ks. \<not> is_loader_env_key k \<and> k \<in> set (allowed_env_keys pol))"
  by (induction ks) (auto simp: list_ex_iff)

lemma resolve_env_Inr:
  "resolve_env pol env = Inr env' \<longleftrightarrow>
     env' = env \<and> (\<forall>k\<in>fst ` set env. \<not> is_loader_env_key k \<and> k \<in> set (allowed_env_keys pol))"
  by (auto simp: resolve_env_def try_then_Inr check_env_keys_Inr)

lemma containment_of_Inr: "containment_of r = Inr u \<longleftrightarrow> (\<exists>d. r = Inr d) \<or> r = Inl ENOENT"
  by (cases r rule: containment_of.cases) auto


definition all_plain :: "unit resolver" where
  "all_plain = \<lparr>open_directory_reference = (\<lambda>_. Inr ()), open_resolved = (\<lambda>_ cs. if cs = [Normal ''link''] then Inl (Errno 40) else Inr ())\<rparr>"


lemma scope_dir_Inr:
  "scope_dir base name = Inr p \<longleftrightarrow> names_one_directory name \<and> p = path_join base (''tddy-'' @ name @ ''.scope'')"
proof (cases "components name")
  case (Cons c cs)
  then show ?thesis by (cases c; cases cs) (auto simp: scope_dir_def names_one_directory_def)
qed (simp add: scope_dir_def names_one_directory_def)

lemma scope_file_name: "names_one_directory name \<Longrightarrow> names_one_directory (''tddy-'' @ name @ ''.scope'')"
  by (auto simp: names_one_directory_iff)

lemma scope_dir_accepts: "(\<exists>p. scope_dir base name = Inr p) \<longleftrightarrow> name \<noteq> [] \<and> name \<noteq> ''.'' \<and> name \<noteq> ''..'' \<and> CHR ''/'' \<notin> set name"
  unfolding scope_dir_Inr names_one_directory_iff by blast

lemma scope_dir_child: "scope_dir base name = Inr p \<Longrightarrow> components p = components base @ [Normal (''tddy-'' @ name @ ''.scope'')]"
  unfolding scope_dir_Inr using components_join [OF scope_file_name] by blast

lemma scope_dir_inject: "scope_dir base name = Inr p \<Longrightarrow> scope_dir base name' = Inr p \<Longrightarrow> name' = name"
  using scope_dir_child [of base name p] scope_dir_child [of base name' p] by simp

end
