(* ===== verification/Supervisor_Services.thy ===== *)
theory Supervisor_Services
  imports Supervisor_Policy
begin

text \<open>
  The services the supervisor keeps alive (\<open>tddy-supervisor\<close>, \<open>restart.rs\<close>, \<open>services.rs\<close>, \<open>service.rs\<close>,
  \<open>supervisor/service_restart.rs\<close> and the service operations of \<open>supervisor.rs\<close>): the backoff arithmetic at its
  width, the lifecycle of one service, and the interleaving of operator requests, exits, restart timers and the
  asynchronous starts they lead to. How long a service ran before an exit is chosen by the step.
\<close>

section \<open>Restart backoff\<close>

datatype restart_decision = Restart u64 | GiveUp

record backoff_state =
  backoff_policy :: restart_policy
  restarts :: u32

definition new_backoff :: "restart_policy \<Rightarrow> backoff_state" where
  "new_backoff p = \<lparr>backoff_policy = p, restarts = 0\<rparr>"

definition checked_pow :: "u64 \<Rightarrow> u32 \<Rightarrow> u64 option" where
  "checked_pow b n = (if unat b ^ unat n < 2 ^ 64 then Some (b ^ unat n) else None)"

definition saturating_mul :: "u64 \<Rightarrow> u64 \<Rightarrow> u64" where
  "saturating_mul a b = (if unat a * unat b < 2 ^ 64 then a * b else - 1)"

definition restore_budget :: "backoff_state \<Rightarrow> backoff_state" where
  "restore_budget b = b\<lparr>restarts := 0\<rparr>"

text \<open>\<open>uptime\<close> is in whole milliseconds.\<close>

definition backoff_exit :: "nat \<Rightarrow> backoff_state \<Rightarrow> restart_decision \<times> backoff_state" where
  "backoff_exit uptime b =
     (let b1 = (if uptime \<ge> unat (stability_threshold_ms (backoff_policy b)) then restore_budget b else b)
      in if restarts b1 \<ge> max_retries (backoff_policy b1) then (GiveUp, b1)
         else let b2 = b1\<lparr>restarts := restarts b1 + 1\<rparr>;
                  doubling = saturating_mul (case checked_pow 2 (restarts b2 - 1) of Some x \<Rightarrow> x | None \<Rightarrow> - 1)
                               (initial_backoff_ms (backoff_policy b2))
              in (Restart (min doubling (max_backoff_ms (backoff_policy b2))), b2))"

section \<open>One service\<close>

datatype service_state = Starting | ServiceRunning | Backoff | GaveUp | Stopped

datatype exit_outcome = RestartAfter u64 | GivenUp | StoppedOnRequest

record service_runtime =
  runtime_name :: string
  runtime_state :: service_state
  runtime_pid :: "u32 option"
  backoff :: backoff_state
  stop_requested :: bool

record service_status =
  status_name :: string
  status_service_pid :: "u32 option"
  status_state :: service_state
  status_restarts :: u32

definition new_runtime :: "managed_service \<Rightarrow> service_runtime" where
  "new_runtime s =
     \<lparr>runtime_name = service_name s, runtime_state = Starting, runtime_pid = None, backoff = new_backoff (restart s),
      stop_requested = False\<rparr>"

definition runtime_status :: "service_runtime \<Rightarrow> service_status" where
  "runtime_status r =
     \<lparr>status_name = runtime_name r, status_service_pid = runtime_pid r, status_state = runtime_state r,
      status_restarts = restarts (backoff r)\<rparr>"

definition record_started :: "u32 \<Rightarrow> service_runtime \<Rightarrow> service_runtime" where
  "record_started pid r = r\<lparr>runtime_state := Starting, runtime_pid := Some pid\<rparr>"

definition record_survived_startup :: "service_runtime \<Rightarrow> service_runtime" where
  "record_survived_startup r = (if runtime_state r = Starting then r\<lparr>runtime_state := ServiceRunning\<rparr> else r)"

definition runtime_exit :: "nat \<Rightarrow> service_runtime \<Rightarrow> exit_outcome \<times> service_runtime" where
  "runtime_exit uptime r =
     (let r1 = r\<lparr>runtime_pid := None\<rparr>
      in if stop_requested r1 then (StoppedOnRequest, r1\<lparr>stop_requested := False, runtime_state := Stopped\<rparr>)
         else case backoff_exit uptime (backoff r1) of
                (Restart after, b) \<Rightarrow> (RestartAfter after, r1\<lparr>backoff := b, runtime_state := Backoff\<rparr>)
              | (GiveUp, b) \<Rightarrow> (GivenUp, r1\<lparr>backoff := b, runtime_state := GaveUp\<rparr>))"

definition record_stop_requested :: "service_runtime \<Rightarrow> service_runtime" where
  "record_stop_requested r = r\<lparr>stop_requested := True\<rparr>"

definition record_start_requested :: "service_runtime \<Rightarrow> service_runtime" where
  "record_start_requested r = r\<lparr>stop_requested := False, backoff := restore_budget (backoff r)\<rparr>"

section \<open>All services\<close>

text \<open>
  A start is asynchronous: it is called, has passed the check for a shutdown, or is over. A restart timer that fires
  calls a start; a start arms the watch that promotes the service if the same process is still there.
\<close>

datatype start_call = Called nat | Admitted nat

record supervisor =
  slots :: "service_runtime list"
  calls :: "start_call list"
  timers :: "nat list"
  watches :: "(nat \<times> u32) list"
  shutting_down :: bool
  live :: "u32 \<rightharpoonup> nat"

definition on_slot :: "nat \<Rightarrow> (service_runtime \<Rightarrow> service_runtime) \<Rightarrow> supervisor \<Rightarrow> supervisor" where
  "on_slot i f s = s\<lparr>slots := (slots s)[i := f (slots s ! i)]\<rparr>"

text \<open>\<open>schedule_restart\<close>: only a restart has an effect beyond the log.\<close>

fun schedule_restart :: "nat \<Rightarrow> exit_outcome \<Rightarrow> supervisor \<Rightarrow> supervisor" where
  "schedule_restart i (RestartAfter _) s = s\<lparr>timers := i # timers s\<rparr>"
| "schedule_restart i GivenUp s = s"
| "schedule_restart i StoppedOnRequest s = s"

definition slot_exit :: "nat \<Rightarrow> nat \<Rightarrow> supervisor \<Rightarrow> supervisor" where
  "slot_exit i uptime s =
     (case runtime_exit uptime (slots s ! i) of (out, r) \<Rightarrow> schedule_restart i out (s\<lparr>slots := (slots s)[i := r]\<rparr>))"

text \<open>The first step of \<open>start\<close>: nothing is started during a shutdown.\<close>

definition admit :: "nat \<Rightarrow> supervisor \<Rightarrow> supervisor" where
  "admit i s =
     (let s1 = s\<lparr>calls := remove1 (Called i) (calls s)\<rparr>
      in if shutting_down s then s1 else s1\<lparr>calls := Admitted i # calls s1\<rparr>)"

text \<open>The rest of \<open>start\<close>, under the spawn gate: the fork's pid is recorded, a failed fork counts as an exit.\<close>

definition finish_start :: "nat \<Rightarrow> u32 option \<Rightarrow> supervisor \<Rightarrow> supervisor" where
  "finish_start i forked s =
     (let s1 = s\<lparr>calls := remove1 (Admitted i) (calls s)\<rparr>
      in case forked of
           Some pid \<Rightarrow> (on_slot i (record_started pid) s1)\<lparr>live := (live s1)(pid \<mapsto> i), watches := (i, pid) # watches s1\<rparr>
         | None \<Rightarrow> slot_exit i 0 s1)"

definition watch_startup :: "nat \<Rightarrow> u32 \<Rightarrow> supervisor \<Rightarrow> supervisor" where
  "watch_startup i pid s =
     (let s1 = s\<lparr>watches := remove1 (i, pid) (watches s)\<rparr>
      in if runtime_pid (slots s ! i) = Some pid then on_slot i record_survived_startup s1 else s1)"

definition index_of :: "supervisor \<Rightarrow> string \<Rightarrow> supervisor_error + nat" where
  "index_of s name = ok_or (NotFound name) (position (\<lambda>r. runtime_name r = name) (slots s))"

definition status_of :: "supervisor \<Rightarrow> string \<Rightarrow> supervisor_error + service_status" where
  "status_of s name =
     ok_or (NotFound name) (map_option runtime_status (List.find (\<lambda>r. runtime_name r = name) (slots s)))"

text \<open>\<open>start_by_name\<close> up to the call of \<open>start\<close>.\<close>

definition start_by_name :: "string \<Rightarrow> supervisor \<Rightarrow> (supervisor_error + unit) \<times> supervisor" where
  "start_by_name name s =
     (case index_of s name of
        Inl e \<Rightarrow> (Inl e, s)
      | Inr i \<Rightarrow>
          if runtime_pid (slots s ! i) \<noteq> None then (Inr (), s)
          else (Inr (), (on_slot i record_start_requested s)\<lparr>calls := Called i # calls s\<rparr>))"

definition stop_by_name :: "string \<Rightarrow> supervisor \<Rightarrow> (supervisor_error + u32 option) \<times> supervisor" where
  "stop_by_name name s =
     (case index_of s name of
        Inl e \<Rightarrow> (Inl e, s)
      | Inr i \<Rightarrow> (Inr (runtime_pid (slots s ! i)), on_slot i record_stop_requested s))"

text \<open>One child reaped; an exit that no slot owns changes no service.\<close>

definition reap_child :: "u32 \<Rightarrow> nat \<Rightarrow> supervisor \<Rightarrow> supervisor" where
  "reap_child pid uptime s =
     (let s1 = s\<lparr>live := (live s)(pid := None)\<rparr>
      in case position (\<lambda>r. runtime_pid r = Some pid) (slots s) of
           None \<Rightarrow> s1
         | Some i \<Rightarrow> slot_exit i uptime s1)"

definition begin_shutdown :: "supervisor \<Rightarrow> supervisor" where
  "begin_shutdown s = s\<lparr>shutting_down := True, slots := map record_stop_requested (slots s)\<rparr>"

definition boot_services :: "managed_service list \<Rightarrow> supervisor" where
  "boot_services ss =
     \<lparr>slots = map new_runtime ss, calls = map Called [0..<length ss], timers = [], watches = [], shutting_down = False,
      live = Map.empty\<rparr>"

inductive service_step :: "supervisor \<Rightarrow> supervisor \<Rightarrow> bool" where
  start_request: "service_step s (snd (start_by_name name s))"
| stop_request: "service_step s (snd (stop_by_name name s))"
| start_admitted: "Called i \<in> set (calls s) \<Longrightarrow> service_step s (admit i s)"
| start_forked: "Admitted i \<in> set (calls s) \<Longrightarrow> live s pid = None \<Longrightarrow> service_step s (finish_start i (Some pid) s)"
| start_failed: "Admitted i \<in> set (calls s) \<Longrightarrow> service_step s (finish_start i None s)"
| survived: "(i, pid) \<in> set (watches s) \<Longrightarrow> service_step s (watch_startup i pid s)"
| timer_fired: "i \<in> set (timers s) \<Longrightarrow>
    service_step s (s\<lparr>timers := remove1 i (timers s), calls := Called i # calls s\<rparr>)"
| child_reaped: "live s pid \<noteq> None \<Longrightarrow> service_step s (reap_child pid uptime s)"
| shutdown: "service_step s (begin_shutdown s)"

inductive service_reachable :: "managed_service list \<Rightarrow> supervisor \<Rightarrow> bool" for ss where
  booted: "service_reachable ss (boot_services ss)"
| stepped: "service_reachable ss s \<Longrightarrow> service_step s s' \<Longrightarrow> service_reachable ss s'"

section \<open>The delays\<close>

lemma unat_pow2: "k < 64 \<Longrightarrow> unat ((2 :: u64) ^ k) = 2 ^ k"
proof -
  assume "k < 64"
  then have "(2 :: nat) ^ k < 2 ^ 64" by (rule power_strict_increasing) simp
  moreover have "unat ((2 :: u64) ^ k) = unat (of_nat (2 ^ k) :: u64)" by simp
  ultimately show ?thesis by (simp only: unat_of_nat) simp
qed

lemma saturating_mul_min: "min (unat (saturating_mul a b)) m = min (unat a * unat b) m" if "m < 2 ^ 64"
proof (cases "unat a * unat b < 2 ^ 64")
  case True
  then have "unat (a * b) = unat a * unat b"
    by (simp add: unat_word_ariths)
  with True show ?thesis by (simp add: saturating_mul_def)
next
  case False
  have "unat (- 1 :: u64) = 2 ^ 64 - 1" by (simp add: unsigned_minus_1_eq_mask mask_eq_exp_minus_1)
  with False that show ?thesis by (simp add: saturating_mul_def)
qed

lemma unat_min: "unat (min a b) = min (unat a) (unat b)"
  by (simp add: min_def word_le_nat_alt)

lemma backoff_exit_Restart:
  assumes "backoff_exit uptime b = (Restart d, b')"
  shows "unat d = min (2 ^ (unat (restarts b') - 1) * unat (initial_backoff_ms (backoff_policy b))) (unat (max_backoff_ms (backoff_policy b)))"
    and "0 < unat (restarts b')" and "restarts b' \<le> max_retries (backoff_policy b)" and "backoff_policy b' = backoff_policy b"
proof -
  define b1 where "b1 = (if uptime \<ge> unat (stability_threshold_ms (backoff_policy b)) then restore_budget b else b)"
  have pol: "backoff_policy b1 = backoff_policy b" by (simp add: b1_def restore_budget_def)
  have less: "restarts b1 < max_retries (backoff_policy b)" and b': "b' = b1\<lparr>restarts := restarts b1 + 1\<rparr>"
      and d: "d = min (saturating_mul (case checked_pow 2 (restarts b1) of Some x \<Rightarrow> x | None \<Rightarrow> - 1)
                 (initial_backoff_ms (backoff_policy b))) (max_backoff_ms (backoff_policy b))"
    using assms pol unfolding backoff_exit_def b1_def [symmetric] by (auto simp: Let_def split: if_splits)
  have suc: "unat (restarts b') = Suc (unat (restarts b1))"
  proof -
    have "restarts b1 \<noteq> - 1" using less by (metis word_n1_ge leD)
    then show ?thesis using b' unat_saturating_inc [of "restarts b1"] by (simp add: saturating_inc_def)
  qed
  then show "0 < unat (restarts b')" "backoff_policy b' = backoff_policy b" using b' pol by simp_all
  show "restarts b' \<le> max_retries (backoff_policy b)"
    using less suc by (simp add: word_le_nat_alt word_less_nat_alt)
  let ?k = "unat (restarts b1)"
  let ?i = "unat (initial_backoff_ms (backoff_policy b))"
  let ?m = "unat (max_backoff_ms (backoff_policy b))"
  have m: "?m < 2 ^ 64" by (rule unat_u64_less)
  have "unat d = min (unat (case checked_pow 2 (restarts b1) of Some x \<Rightarrow> x | None \<Rightarrow> - 1) * ?i) ?m"
    unfolding d unat_min by (rule saturating_mul_min [OF m])
  also have "\<dots> = min (2 ^ ?k * ?i) ?m"
  proof (cases "?k < 64")
    case True
    then have "(2 :: nat) ^ ?k < 2 ^ 64" by (rule power_strict_increasing) simp
    then show ?thesis using True by (simp add: checked_pow_def unat_pow2)
  next
    case False
    then have big: "(2 :: nat) ^ 64 \<le> 2 ^ ?k" by (intro power_increasing) simp_all
    have max: "unat (- 1 :: u64) = 2 ^ 64 - 1" by (simp add: unsigned_minus_1_eq_mask mask_eq_exp_minus_1)
    have none: "checked_pow 2 (restarts b1) = None" using big by (simp add: checked_pow_def)
    show ?thesis
    proof (cases "?i = 0")
      case False
      then have "?m \<le> (2 ^ 64 - 1) * ?i" "?m \<le> 2 ^ ?k * ?i"
        using m big by (auto intro: order_trans [of _ "2 ^ 64 - 1"] order_trans [of _ "2 ^ ?k"])
      then show ?thesis using none max by simp
    qed simp
  qed
  finally show "unat d = min (2 ^ (unat (restarts b') - 1) * ?i) ?m" using suc by simp
qed

text \<open>
  The delay before a restart is the initial delay doubled once per earlier restart since the last stable run,
  cut off at the largest delay of the policy: the 64-bit arithmetic, which saturates, computes exactly this number.
  No more restarts than the policy's retries are granted.
\<close>

theorem restart_delay_exact:
  assumes "backoff_exit uptime b = (Restart d, b')"
  shows "unat d = min (2 ^ (unat (restarts b') - 1) * unat (initial_backoff_ms (backoff_policy b)))
           (unat (max_backoff_ms (backoff_policy b))) \<and>
         0 < restarts b' \<and> restarts b' \<le> max_retries (backoff_policy b)"
  using backoff_exit_Restart [OF assms] by (simp add: word_less_nat_alt)

theorem restart_delay_exact_witness:
  "\<exists>d b'. backoff_exit 0 \<lparr>backoff_policy = default_restart_policy\<lparr>max_retries := 100\<rparr>, restarts = 80\<rparr> = (Restart d, b') \<and> unat d = 30000"
proof -
  let ?b = "\<lparr>backoff_policy = default_restart_policy\<lparr>max_retries := 100\<rparr>, restarts = 80\<rparr>"
  obtain d b' where run: "backoff_exit 0 ?b = (Restart d, b')"
    by (simp add: backoff_exit_def default_restart_policy_def Let_def)
  then have "restarts b' = 81" by (auto simp: backoff_exit_def default_restart_policy_def Let_def)
  with restart_delay_exact [OF run] run show ?thesis by (auto simp: default_restart_policy_def)
qed

lemma backoff_exit_policy: "backoff_policy (snd (backoff_exit uptime b)) = backoff_policy b"
  by (simp add: backoff_exit_def restore_budget_def Let_def)

lemma backoff_exit_budget:
  assumes "restarts b \<le> max_retries (backoff_policy b)"
  shows "restarts (snd (backoff_exit uptime b)) \<le> max_retries (backoff_policy b)"
proof (cases "fst (backoff_exit uptime b)")
  case (Restart d)
  then show ?thesis using backoff_exit_Restart(3) [of uptime b d] by (metis prod.collapse)
next
  case GiveUp
  then show ?thesis using assms by (auto simp: backoff_exit_def restore_budget_def Let_def split: if_splits)
qed

section \<open>Giving up\<close>

text \<open>The decisions over a sequence of exits.\<close>

fun exits :: "nat list \<Rightarrow> backoff_state \<Rightarrow> restart_decision list" where
  "exits [] b = []"
| "exits (u # us) b = (case backoff_exit u b of (d, b') \<Rightarrow> d # exits us b')"

lemma unstable_exit:
  assumes "u < unat (stability_threshold_ms (backoff_policy b))"
  shows "restarts b < max_retries (backoff_policy b) \<Longrightarrow>
      \<exists>d. backoff_exit u b = (Restart d, b\<lparr>restarts := restarts b + 1\<rparr>) \<and> unat (restarts b + 1) = Suc (unat (restarts b))"
    and "\<not> restarts b < max_retries (backoff_policy b) \<Longrightarrow> backoff_exit u b = (GiveUp, b)"
proof -
  assume less: "restarts b < max_retries (backoff_policy b)"
  then have "restarts b \<noteq> - 1" by (metis word_n1_ge leD)
  then have "unat (restarts b + 1) = Suc (unat (restarts b))"
    using unat_saturating_inc [of "restarts b"] by (simp add: saturating_inc_def)
  then show "\<exists>d. backoff_exit u b = (Restart d, b\<lparr>restarts := restarts b + 1\<rparr>) \<and> unat (restarts b + 1) = Suc (unat (restarts b))"
    using less assms by (simp add: backoff_exit_def Let_def)
next
  assume "\<not> restarts b < max_retries (backoff_policy b)"
  then show "backoff_exit u b = (GiveUp, b)" using assms by (simp add: backoff_exit_def Let_def)
qed

lemma exits_unstable:
  assumes "\<forall>u\<in>set us. u < unat (stability_threshold_ms (backoff_policy b))"
  shows "map (\<lambda>d. d = GiveUp) (exits us b) =
    map (\<lambda>i. unat (max_retries (backoff_policy b)) \<le> unat (restarts b) + i) [0..<length us]"
  using assms
proof (induction us arbitrary: b)
  case (Cons u us)
  have split: "[0..<length (u # us)] = 0 # map Suc [0..<length us]" by (simp add: map_Suc_upt upt_conv_Cons del: upt_Suc)
  show ?case
  proof (cases "restarts b < max_retries (backoff_policy b)")
    case True
    obtain d where d: "backoff_exit u b = (Restart d, b\<lparr>restarts := restarts b + 1\<rparr>)" "unat (restarts b + 1) = Suc (unat (restarts b))"
      using unstable_exit(1) [OF _ True, of u] Cons.prems by auto
    have "unat (restarts b) < unat (max_retries (backoff_policy b))" using True by (simp add: word_less_nat_alt)
    then show ?thesis using Cons.IH [of "b\<lparr>restarts := restarts b + 1\<rparr>"] Cons.prems d unfolding split by simp
  next
    case False
    then have "backoff_exit u b = (GiveUp, b)" using unstable_exit(2) Cons.prems by simp
    moreover have "unat (max_retries (backoff_policy b)) \<le> unat (restarts b)" using False by (simp add: word_less_nat_alt)
    ultimately show ?thesis using Cons.IH [of b] Cons.prems unfolding split by (auto intro: le_trans)
  qed
qed simp

text \<open>
  C20. A service that keeps exiting before it counts as stable is restarted exactly as often as its policy allows
  and then given up on, whatever its first exits looked like; once given up it stays so.
\<close>

theorem unstable_service_given_up:
  assumes "\<forall>u\<in>set us. u < unat (stability_threshold_ms p)"
  shows "map (\<lambda>d. d = GiveUp) (exits us (new_backoff p)) = map (\<lambda>i. unat (max_retries p) \<le> i) [0..<length us]"
  using exits_unstable [of us "new_backoff p"] assms by (simp add: new_backoff_def)

theorem unstable_service_given_up_witness:
  "map (\<lambda>d. d = GiveUp) (exits [0, 10, 0, 9999] (new_backoff (default_restart_policy\<lparr>max_retries := 2\<rparr>))) = [False, False, True, True]"
  using unstable_service_given_up [of "[0, 10, 0, 9999]" "default_restart_policy\<lparr>max_retries := 2\<rparr>"]
  by (simp add: default_restart_policy_def upt_conv_Cons)

section \<open>What a status says\<close>

definition slot_ok :: "service_runtime \<Rightarrow> bool" where
  "slot_ok r \<longleftrightarrow>
     (runtime_pid r \<noteq> None \<longrightarrow> runtime_state r \<in> {Starting, ServiceRunning}) \<and>
     (runtime_state r = ServiceRunning \<longrightarrow> runtime_pid r \<noteq> None) \<and>
     restarts (backoff r) \<le> max_retries (backoff_policy (backoff r))"

lemma slot_ok_operations:
  assumes "slot_ok r"
  shows "slot_ok (record_started pid r)" and "slot_ok (snd (runtime_exit uptime r))"
    and "slot_ok (record_stop_requested r)" and "slot_ok (record_start_requested r)"
    and "runtime_pid r \<noteq> None \<Longrightarrow> slot_ok (record_survived_startup r)"
proof -
  show "slot_ok (snd (runtime_exit uptime r))"
    using assms backoff_exit_budget [of "backoff r" uptime] backoff_exit_policy [of uptime "backoff r"]
    by (auto simp: slot_ok_def runtime_exit_def Let_def split: prod.splits restart_decision.splits)
qed (use assms in \<open>auto simp: slot_ok_def record_started_def record_stop_requested_def record_start_requested_def
      record_survived_startup_def restore_budget_def word_le_nat_alt\<close>)

definition slots_ok :: "supervisor \<Rightarrow> bool" where
  "slots_ok s \<longleftrightarrow> (\<forall>r\<in>set (slots s). slot_ok r)"

lemma slots_ok_update: "slots_ok s \<Longrightarrow> (i < length (slots s) \<Longrightarrow> slot_ok r) \<Longrightarrow> slots_ok (s\<lparr>slots := (slots s)[i := r]\<rparr>)"
  by (cases "i < length (slots s)")
    (auto simp: slots_ok_def list_update_beyond dest: subsetD [OF set_update_subset_insert])

lemma slots_ok_exit: "slots_ok s \<Longrightarrow> slots_ok (slot_exit i uptime s)"
proof -
  assume s: "slots_ok s"
  obtain out r where out: "runtime_exit uptime (slots s ! i) = (out, r)" by fastforce
  have "slot_ok r" if "i < length (slots s)"
    using s slot_ok_operations(2) [of "slots s ! i" uptime] out that by (auto simp: slots_ok_def)
  then have "slots_ok (s\<lparr>slots := (slots s)[i := r]\<rparr>)" using slots_ok_update [OF s] by blast
  then show ?thesis using out by (cases out) (simp_all add: slot_exit_def slots_ok_def)
qed

lemma slots_ok_on_slot: "slots_ok s \<Longrightarrow> (i < length (slots s) \<Longrightarrow> slot_ok (f (slots s ! i))) \<Longrightarrow> slots_ok (on_slot i f s)"
  unfolding on_slot_def by (rule slots_ok_update)

lemma slots_ok_nth: "slots_ok s \<Longrightarrow> i < length (slots s) \<Longrightarrow> slot_ok (slots s ! i)"
  by (simp add: slots_ok_def)

lemma service_step_ok: "service_step s s' \<Longrightarrow> slots_ok s \<Longrightarrow> slots_ok s'"
proof (induction rule: service_step.induct)
  case (start_request s name)
  have "slots_ok (on_slot i record_start_requested s)" for i
    using slots_ok_on_slot [OF start_request] slot_ok_operations(4) slots_ok_nth [OF start_request] by blast
  with start_request show ?case by (auto simp: start_by_name_def slots_ok_def split: sum.splits)
next
  case (stop_request s name)
  have "slots_ok (on_slot i record_stop_requested s)" for i
    using slots_ok_on_slot [OF stop_request] slot_ok_operations(3) slots_ok_nth [OF stop_request] by blast
  with stop_request show ?case by (auto simp: stop_by_name_def slots_ok_def split: sum.splits)
next
  case (start_forked i s pid)
  have ok: "slots_ok (s\<lparr>calls := remove1 (Admitted i) (calls s)\<rparr>)" using start_forked by (simp add: slots_ok_def)
  then show ?case
    using slots_ok_on_slot [OF ok, of i "record_started pid"] slot_ok_operations(1) slots_ok_nth [OF ok]
    by (simp add: finish_start_def Let_def slots_ok_def)
next
  case (start_failed i s)
  then show ?case by (simp add: finish_start_def Let_def) (rule slots_ok_exit, simp add: slots_ok_def)
next
  case (survived i pid s)
  have ok: "slots_ok (s\<lparr>watches := remove1 (i, pid) (watches s)\<rparr>)" using survived by (simp add: slots_ok_def)
  then show ?case
    using slots_ok_on_slot [OF ok, of i record_survived_startup] slot_ok_operations(5) slots_ok_nth [OF ok]
    by (auto simp: watch_startup_def Let_def)
next
  case (child_reaped s pid uptime)
  have ok: "slots_ok (s\<lparr>live := (live s)(pid := None)\<rparr>)" using child_reaped by (simp add: slots_ok_def)
  then show ?case using slots_ok_exit [OF ok] by (simp add: reap_child_def Let_def split: option.splits)
next
  case (shutdown s)
  then show ?case using slot_ok_operations(3) by (auto simp: begin_shutdown_def slots_ok_def)
qed (auto simp: slots_ok_def admit_def Let_def)

lemma service_reachable_ok: "service_reachable ss s \<Longrightarrow> slots_ok s"
proof (induction rule: service_reachable.induct)
  case booted
  then show ?case by (auto simp: boot_services_def slots_ok_def slot_ok_def new_runtime_def new_backoff_def word_le_nat_alt)
qed (rule service_step_ok)


definition one_service :: "managed_service list" where
  "one_service = [sample_service []]"

lemmas service_eval = boot_services_def one_service_def sample_service_def new_runtime_def new_backoff_def admit_def finish_start_def
  on_slot_def record_started_def reap_child_def slot_exit_def runtime_exit_def backoff_exit_def restore_budget_def
  default_restart_policy_def

text \<open>The service was started as process 100, which exited at once: it waits for its restart timer.\<close>

definition crashed :: supervisor where
  "crashed = reap_child 100 0 (finish_start 0 (Some 100) (admit 0 (boot_services one_service)))"

lemma crashed_reachable: "service_reachable one_service crashed"
proof -
  let ?s1 = "admit 0 (boot_services one_service)"
  let ?s2 = "finish_start 0 (Some 100) ?s1"
  have "service_reachable one_service ?s1"
    by (rule stepped [OF booted start_admitted]) (simp add: boot_services_def one_service_def)
  then have "service_reachable one_service ?s2"
    by (rule stepped) (rule start_forked, simp_all add: service_eval)
  then show ?thesis unfolding crashed_def
    by (rule stepped) (rule child_reaped, simp add: service_eval)
qed

lemma crashed_state:
  "map runtime_pid (slots crashed) = [None]" "map runtime_state (slots crashed) = [Backoff]" "timers crashed = [0]"
  "shutting_down crashed = False" "live crashed = Map.empty" "index_of crashed ''daemon'' = Inr 0" "calls crashed = []"
  by (simp_all add: crashed_def index_of_def ok_or_def service_eval)

lemma crashed_slot: "length (slots crashed) = 1" "runtime_pid (slots crashed ! 0) = None"
  by (simp_all add: crashed_def service_eval)


section \<open>Requests that meet a pending restart\<close>

lemma start_run:
  assumes "service_reachable ss s" and "Called i \<in> set (calls s)" and "\<not> shutting_down s" and "live s p = None" and "i < length (slots s)"
  shows "service_reachable ss (finish_start i (Some p) (admit i s))"
proof -
  have "service_reachable ss (admit i s)" using stepped [OF assms(1) start_admitted [OF assms(2)]] .
  then show ?thesis by (rule stepped) (rule start_forked, use assms in \<open>simp_all add: admit_def Let_def\<close>)
qed

text \<open>
  An operator's start of a service that waits out its backoff is not exclusive with the pending restart: both
  fork, so two processes of the service run, and the slot knows only the second one.
\<close>

theorem start_during_backoff_forks_twice:
  assumes "service_reachable ss s" and "index_of s name = Inr i" and "i < length (slots s)"
    and "runtime_pid (slots s ! i) = None" and "i \<in> set (timers s)" and "\<not> shutting_down s"
    and "live s p = None" and "live s q = None" and "p \<noteq> q"
  shows "\<exists>s'. service_reachable ss s' \<and> live s' p = Some i \<and> live s' q = Some i \<and> runtime_pid (slots s' ! i) = Some q"
proof -
  let ?s1 = "snd (start_by_name name s)"
  let ?s2 = "finish_start i (Some p) (admit i ?s1)"
  let ?s3 = "?s2\<lparr>timers := remove1 i (timers ?s2), calls := Called i # calls ?s2\<rparr>"
  let ?s4 = "finish_start i (Some q) (admit i ?s3)"
  note ev = start_by_name_def finish_start_def admit_def on_slot_def Let_def
  have "service_reachable ss ?s1" using assms(1) start_request by (rule stepped)
  then have "service_reachable ss ?s2" by (rule start_run) (use assms in \<open>simp_all add: ev\<close>)
  then have "service_reachable ss ?s3" by (rule stepped) (rule timer_fired, use assms in \<open>simp add: ev\<close>)
  then have "service_reachable ss ?s4" by (rule start_run) (use assms in \<open>simp_all add: ev\<close>)
  moreover have "live ?s4 p = Some i" "live ?s4 q = Some i" "runtime_pid (slots ?s4 ! i) = Some q"
    using assms by (simp_all add: ev record_started_def)
  ultimately show ?thesis by blast
qed

theorem start_during_backoff_forks_twice_witness:
  "\<exists>s'. service_reachable one_service s' \<and> live s' 101 = Some 0 \<and> live s' 102 = Some 0 \<and> runtime_pid (slots s' ! 0) = Some 102"
  by (rule start_during_backoff_forks_twice [OF crashed_reachable crashed_state(6)]) (simp_all add: crashed_state crashed_slot)

text \<open>
  An operator's stop of a service that waits out its backoff does not keep it down: the pending restart runs it
  again, and the stop is spent on a later exit, which is then not followed by a restart.
\<close>

theorem stop_during_backoff_misdirected:
  assumes "service_reachable ss s" and "index_of s name = Inr i" and "i < length (slots s)"
    and "runtime_pid (slots s ! i) = None" and "i \<in> set (timers s)" and "\<not> shutting_down s" and "live s p = None"
  shows "fst (stop_by_name name s) = Inr None \<and>
    (\<exists>s'. service_reachable ss s' \<and> live s' p = Some i \<and> runtime_pid (slots s' ! i) = Some p \<and>
       (\<forall>uptime. fst (runtime_exit uptime (slots s' ! i)) = StoppedOnRequest))"
proof -
  let ?s1 = "snd (stop_by_name name s)"
  let ?s2 = "?s1\<lparr>timers := remove1 i (timers ?s1), calls := Called i # calls ?s1\<rparr>"
  let ?s3 = "finish_start i (Some p) (admit i ?s2)"
  note ev = stop_by_name_def finish_start_def admit_def on_slot_def Let_def
  have "service_reachable ss ?s1" using assms(1) stop_request by (rule stepped)
  then have "service_reachable ss ?s2" by (rule stepped) (rule timer_fired, use assms in \<open>simp add: ev\<close>)
  then have "service_reachable ss ?s3" by (rule start_run) (use assms in \<open>simp_all add: ev\<close>)
  moreover have "live ?s3 p = Some i" "runtime_pid (slots ?s3 ! i) = Some p"
      "fst (runtime_exit uptime (slots ?s3 ! i)) = StoppedOnRequest" for uptime
    using assms by (simp_all add: ev record_started_def record_stop_requested_def runtime_exit_def)
  moreover have "fst (stop_by_name name s) = Inr None" using assms(2,4) by (simp add: stop_by_name_def)
  ultimately show ?thesis by blast
qed

theorem stop_during_backoff_misdirected_witness:
  "fst (stop_by_name ''daemon'' crashed) = Inr None \<and>
    (\<exists>s'. service_reachable one_service s' \<and> live s' 101 = Some 0 \<and> runtime_pid (slots s' ! 0) = Some 101 \<and>
       (\<forall>uptime. fst (runtime_exit uptime (slots s' ! 0)) = StoppedOnRequest))"
  by (rule stop_during_backoff_misdirected [OF crashed_reachable crashed_state(6)]) (simp_all add: crashed_state crashed_slot)

end
