(* ===== verification/Supervisor_Sessions.thy ===== *)
theory Supervisor_Sessions
  imports Supervisor_Policy
begin

text \<open>
  The sessions the supervisor spawns for its callers (\<open>tddy-supervisor\<close>, \<open>supervisor/session_table.rs\<close>): the table
  of running and recently exited sessions, and the operations on it that signal processes. Pids are reused by the
  kernel, so a session is identified by a generation; the counter of generations is unbounded here (the source's
  64-bit counter would need \<open>2 ^ 64\<close> spawns to wrap). What the kernel runs under each pid is part of the system's
  state, and the steps of the system interleave spawns, exits, stop requests and the timers they arm.
\<close>

section \<open>The session table\<close>

datatype session_outcome = Running | Exited "i32 option"

record session_record =
  generation :: nat
  outcome :: session_outcome

record session_table =
  records :: "(u32 \<times> session_record) list"
  exited :: "u32 list"
  spawned :: nat
  scopes :: "(nat \<times> component list) list"

definition empty_table :: session_table where
  "empty_table = \<lparr>records = [], exited = [], spawned = 0, scopes = []\<rparr>"

definition bt_remove :: "'k \<Rightarrow> ('k \<times> 'v) list \<Rightarrow> ('k \<times> 'v) list" where
  "bt_remove k m = filter (\<lambda>e. fst e \<noteq> k) m"

definition retained_exited_sessions :: nat where
  "retained_exited_sessions = 256"

definition record_spawned :: "u32 \<Rightarrow> session_table \<Rightarrow> nat \<times> session_table" where
  "record_spawned pid t =
     (let gen = spawned t + 1
      in (gen, t\<lparr>exited := filter (\<lambda>p. p \<noteq> pid) (exited t), spawned := gen,
                 records := bt_insert pid \<lparr>generation = gen, outcome = Running\<rparr> (records t)\<rparr>))"

definition own_scope :: "nat \<Rightarrow> component list \<Rightarrow> session_table \<Rightarrow> session_table" where
  "own_scope gen scope t = t\<lparr>scopes := bt_insert gen scope (scopes t)\<rparr>"

text \<open>The loop that drops the oldest retained statuses.\<close>

fun evict :: "u32 list \<Rightarrow> (u32 \<times> session_record) list \<Rightarrow> u32 list \<times> (u32 \<times> session_record) list" where
  "evict [] rs = ([], rs)"
| "evict (p # ps) rs =
     (if length (p # ps) > retained_exited_sessions then evict ps (bt_remove p rs) else (p # ps, rs))"

definition record_exit :: "u32 \<Rightarrow> i32 option \<Rightarrow> session_table \<Rightarrow> component list option \<times> session_table" where
  "record_exit pid code t =
     (case map_of (records t) pid of
        None \<Rightarrow> (None, t)
      | Some r \<Rightarrow>
          let rs = bt_insert pid (r\<lparr>outcome := Exited code\<rparr>) (records t);
              (ex, rs') = evict (exited t @ [pid]) rs
          in (map_of (scopes t) (generation r),
              t\<lparr>records := rs', exited := ex, scopes := bt_remove (generation r) (scopes t)\<rparr>))"

datatype session_state = SessionRunning | SessionExited

record session_status =
  status_pid :: u32
  state :: session_state
  exit_code :: "i32 option"

definition table_status :: "u32 \<Rightarrow> session_table \<Rightarrow> session_status option" where
  "table_status pid t =
     map_option (\<lambda>r. case outcome r of
         Running \<Rightarrow> \<lparr>status_pid = pid, state = SessionRunning, exit_code = None\<rparr>
       | Exited code \<Rightarrow> \<lparr>status_pid = pid, state = SessionExited, exit_code = code\<rparr>) (map_of (records t) pid)"

definition snapshot :: "u32 \<Rightarrow> session_table \<Rightarrow> (nat \<times> session_status) option" where
  "snapshot pid t =
     (case map_of (records t) pid of
        None \<Rightarrow> None
      | Some r \<Rightarrow> map_option (\<lambda>st. (generation r, st)) (table_status pid t))"

definition is_running_generation :: "u32 \<Rightarrow> nat \<Rightarrow> session_table \<Rightarrow> bool" where
  "is_running_generation pid gen t \<longleftrightarrow> map_of (records t) pid = Some \<lparr>generation = gen, outcome = Running\<rparr>"

definition running_pids :: "session_table \<Rightarrow> u32 list" where
  "running_pids t = map fst (filter (\<lambda>(_, r). outcome r = Running) (records t))"

definition require_running :: "u32 \<Rightarrow> session_table \<Rightarrow> supervisor_error + unit" where
  "require_running pid t =
     (case map_option outcome (map_of (records t) pid) of
        Some Running \<Rightarrow> Inr ()
      | _ \<Rightarrow> Inl Denied)"

section \<open>The supervisor's view and the kernel's\<close>

text \<open>
  What runs under a pid until it is reaped: the session of a generation, a declared service (whose exit is
  recorded with the service and never reaches the table), or a child that belongs to neither.
\<close>

datatype proc = SessionProc nat | ServiceProc | StrayProc

datatype signal = TERMINATE | KILL

record system =
  table :: session_table
  procs :: "u32 \<rightharpoonup> proc"
  armed :: "(u32 \<times> nat) list"
  sent :: "(signal \<times> u32 \<times> nat \<times> proc option) list"

definition scope_directory_of :: "string option \<Rightarrow> component list option" where
  "scope_directory_of scope_procs = Option.bind scope_procs (\<lambda>p. parent_of (components p))"

text \<open>The fork of a session that the kernel gave \<open>pid\<close>, and what is recorded before anything can reap it.\<close>

definition fork_session :: "u32 \<Rightarrow> string option \<Rightarrow> system \<Rightarrow> system" where
  "fork_session pid scope_procs s =
     (let (gen, t) = record_spawned pid (table s);
          t' = (case scope_directory_of scope_procs of None \<Rightarrow> t | Some scope \<Rightarrow> own_scope gen scope t)
      in s\<lparr>table := t', procs := (procs s)(pid \<mapsto> SessionProc gen)\<rparr>)"

definition session_status_of :: "system \<Rightarrow> u32 \<Rightarrow> supervisor_error + session_status" where
  "session_status_of s pid = ok_or Denied (table_status pid (table s))"

definition require_running_session :: "system \<Rightarrow> u32 \<Rightarrow> supervisor_error + unit" where
  "require_running_session s pid = require_running pid (table s)"

definition stop_session :: "u32 \<Rightarrow> system \<Rightarrow> (supervisor_error + session_status) \<times> system" where
  "stop_session pid s =
     (case snapshot pid (table s) of
        None \<Rightarrow> (Inl Denied, s)
      | Some (gen, status) \<Rightarrow>
          if state status = SessionExited then (Inr status, s)
          else (Inr status, s\<lparr>armed := (pid, gen) # armed s, sent := (TERMINATE, pid, gen, procs s pid) # sent s\<rparr>))"

text \<open>The task that a stop leaves behind, when its grace period is over.\<close>

definition kill_timer :: "u32 \<Rightarrow> nat \<Rightarrow> system \<Rightarrow> system" where
  "kill_timer pid gen s =
     (let s' = s\<lparr>armed := remove1 (pid, gen) (armed s)\<rparr>
      in if is_running_generation pid gen (table s)
         then s'\<lparr>sent := (KILL, pid, gen, procs s pid) # sent s\<rparr> else s')"

text \<open>One child reaped: an exit of a service is the service's, every other one is offered to the table.\<close>

definition reap :: "u32 \<Rightarrow> i32 option \<Rightarrow> system \<Rightarrow> system" where
  "reap pid code s =
     s\<lparr>procs := (procs s)(pid := None),
       table := (if procs s pid = Some ServiceProc then table s else snd (record_exit pid code (table s)))\<rparr>"

inductive step :: "system \<Rightarrow> system \<Rightarrow> bool" where
  spawn: "procs s pid = None \<Longrightarrow> step s (fork_session pid scope s)"
| other: "procs s pid = None \<Longrightarrow> p = ServiceProc \<or> p = StrayProc \<Longrightarrow> step s (s\<lparr>procs := (procs s)(pid \<mapsto> p)\<rparr>)"
| reaped: "procs s pid \<noteq> None \<Longrightarrow> step s (reap pid code s)"
| stop: "step s (snd (stop_session pid s))"
| timer: "(pid, gen) \<in> set (armed s) \<Longrightarrow> step s (kill_timer pid gen s)"

definition boot :: system where
  "boot = \<lparr>table = empty_table, procs = Map.empty, armed = [], sent = []\<rparr>"

inductive reachable :: "system \<Rightarrow> bool" where
  start: "reachable boot"
| next_step: "reachable s \<Longrightarrow> step s s' \<Longrightarrow> reachable s'"

section \<open>The table agrees with the kernel\<close>

lemma map_of_bt_remove [simp]: "map_of (bt_remove k m) = (map_of m)(k := None)"
  by (induction m) (auto simp: bt_remove_def)

lemma bt_inv_remove: "bt_inv m \<Longrightarrow> bt_inv (bt_remove k m)"
  unfolding bt_inv_def bt_remove_def by (induction m) auto

text \<open>
  Running records are exactly the sessions the kernel runs; what waits for eviction is not running; the exited
  records wait for eviction; scopes belong to running sessions.
\<close>

definition table_inv :: "session_table \<Rightarrow> (u32 \<rightharpoonup> proc) \<Rightarrow> bool" where
  "table_inv t ps \<longleftrightarrow>
     bt_inv (records t) \<and> bt_inv (scopes t) \<and> length (exited t) \<le> retained_exited_sessions \<and>
     (\<forall>pid gen. ps pid = Some (SessionProc gen) \<longleftrightarrow> map_of (records t) pid = Some \<lparr>generation = gen, outcome = Running\<rparr>) \<and>
     (\<forall>pid r. map_of (records t) pid = Some r \<longrightarrow> generation r \<le> spawned t) \<and>
     (\<forall>p q r r'. map_of (records t) p = Some r \<and> map_of (records t) q = Some r' \<and> generation r = generation r' \<longrightarrow> p = q) \<and>
     (\<forall>pid r. map_of (records t) pid = Some r \<longrightarrow> (outcome r \<noteq> Running \<longrightarrow> pid \<in> set (exited t))) \<and>
     (\<forall>pid\<in>set (exited t). \<forall>gen. ps pid \<noteq> Some (SessionProc gen)) \<and>
     (\<forall>gen. map_of (scopes t) gen \<noteq> None \<longrightarrow> (\<exists>pid. ps pid = Some (SessionProc gen)))"

lemma table_invD:
  assumes "table_inv t ps"
  shows "bt_inv (records t)" and "bt_inv (scopes t)" and "length (exited t) \<le> retained_exited_sessions"
    and "\<And>pid gen. ps pid = Some (SessionProc gen) \<longleftrightarrow> map_of (records t) pid = Some \<lparr>generation = gen, outcome = Running\<rparr>"
    and "\<And>pid r. map_of (records t) pid = Some r \<Longrightarrow> generation r \<le> spawned t"
    and "\<And>p q r r'. map_of (records t) p = Some r \<Longrightarrow> map_of (records t) q = Some r' \<Longrightarrow> generation r = generation r' \<Longrightarrow> p = q"
    and "\<And>pid r. map_of (records t) pid = Some r \<Longrightarrow> outcome r \<noteq> Running \<Longrightarrow> pid \<in> set (exited t)"
    and "\<And>pid gen. pid \<in> set (exited t) \<Longrightarrow> ps pid \<noteq> Some (SessionProc gen)"
    and "\<And>gen. map_of (scopes t) gen \<noteq> None \<Longrightarrow> \<exists>pid. ps pid = Some (SessionProc gen)"
  using assms unfolding table_inv_def by blast+

lemma table_inv_other:
  assumes "table_inv t ps" and "ps pid = None" and "p = ServiceProc \<or> p = StrayProc"
  shows "table_inv t (ps(pid \<mapsto> p))"
proof -
  have keep: "(ps(pid \<mapsto> p)) q = Some (SessionProc g) \<longleftrightarrow> ps q = Some (SessionProc g)" for q g
    using assms(2,3) by auto
  show ?thesis using assms(1) unfolding table_inv_def keep by blast
qed

lemma table_inv_gone:
  assumes "table_inv t ps" and "\<And>gen. ps pid \<noteq> Some (SessionProc gen)"
  shows "table_inv t (ps(pid := None))"
proof -
  have keep: "(ps(pid := None)) q = Some (SessionProc g) \<longleftrightarrow> ps q = Some (SessionProc g)" for q g
    using assms(2) by auto
  show ?thesis using assms(1) unfolding table_inv_def keep by blast
qed

lemma record_inv_spawned:
  assumes inv: "table_inv t ps" and free: "ps pid = None"
  shows "table_inv (snd (record_spawned pid t)) (ps(pid \<mapsto> SessionProc (spawned t + 1)))"
proof -
  note d = table_invD [OF inv]
  let ?gen = "spawned t + 1"
  let ?ps = "ps(pid \<mapsto> SessionProc ?gen)"
  obtain t' where t': "record_spawned pid t = (?gen, t')" by (simp add: record_spawned_def Let_def)
  then have ex: "exited t' = filter (\<lambda>p. p \<noteq> pid) (exited t)" and sp: "spawned t' = ?gen" and sc: "scopes t' = scopes t"
      and bt: "bt_inv (records t')" and rs: "map_of (records t') q = (if q = pid then Some \<lparr>generation = ?gen, outcome = Running\<rparr> else map_of (records t) q)" for q
    using d(1) by (auto simp: record_spawned_def Let_def btree_simps)
  have "length (exited t') \<le> retained_exited_sessions"
    using d(3) unfolding ex by (metis length_filter_le order_trans)
  moreover have "?ps q = Some (SessionProc g) \<longleftrightarrow> map_of (records t') q = Some \<lparr>generation = g, outcome = Running\<rparr>" for q g
    using d(4) [of q g] unfolding rs by auto
  moreover have "generation r \<le> spawned t'" if "map_of (records t') q = Some r" for q r
    using that d(5) [of q r] unfolding rs sp by (auto split: if_splits)
  moreover have "p = q" if "map_of (records t') p = Some r" "map_of (records t') q = Some r'" "generation r = generation r'" for p q r r'
    using that d(5) [of p r] d(5) [of q r'] d(6) [of p r q r'] unfolding rs by (auto split: if_splits)
  moreover have "q \<in> set (exited t')" if "map_of (records t') q = Some r" "outcome r \<noteq> Running" for q r
    using that d(7) [of q r] unfolding rs ex by (auto split: if_splits)
  moreover have "?ps q \<noteq> Some (SessionProc g)" if "q \<in> set (exited t')" for q g
    using that d(8) [of q g] unfolding ex by auto
  moreover have "\<exists>q. ?ps q = Some (SessionProc g)" if "map_of (scopes t') g \<noteq> None" for g
    using that d(9) [of g] free unfolding sc by (metis fun_upd_other option.distinct(1))
  ultimately show ?thesis using bt d(2) sc t' unfolding table_inv_def by auto
qed

lemma table_inv_own_scope:
  assumes "table_inv t ps" and "ps pid = Some (SessionProc gen)"
  shows "table_inv (own_scope gen scope t) ps"
  using assms unfolding table_inv_def own_scope_def by (auto simp: btree_simps)

lemma evict_result:
  assumes "evict ps rs = (ps', rs')"
  shows "\<exists>out. ps = out @ ps' \<and> map_of rs' = map_of rs |` (- set out) \<and> (bt_inv rs \<longrightarrow> bt_inv rs') \<and>
    length ps' = min (length ps) retained_exited_sessions \<and> (ps \<noteq> [] \<longrightarrow> ps' \<noteq> [])"
  using assms
proof (induction ps arbitrary: rs)
  case Nil
  then show ?case by (auto simp: restrict_map_def)
next
  case (Cons p ps)
  show ?case
  proof (cases "length (p # ps) > retained_exited_sessions")
    case True
    with Cons.prems have "evict ps (bt_remove p rs) = (ps', rs')" by simp
    from Cons.IH [OF this] obtain out where out: "ps = out @ ps'" "map_of rs' = map_of (bt_remove p rs) |` (- set out)"
        "bt_inv (bt_remove p rs) \<longrightarrow> bt_inv rs'" "length ps' = min (length ps) retained_exited_sessions" "ps \<noteq> [] \<longrightarrow> ps' \<noteq> []" by blast
    have "ps \<noteq> []" using True by (auto simp: retained_exited_sessions_def)
    moreover have "map_of rs' = map_of rs |` (- set (p # out))"
      using out(2) by (auto simp: restrict_map_def fun_eq_iff)
    ultimately show ?thesis using out True bt_inv_remove by (intro exI [of _ "p # out"]) auto
  next
    case False
    with Cons.prems show ?thesis by (intro exI [of _ "[]"]) (auto simp: restrict_map_def)
  qed
qed

lemma record_inv_exit:
  assumes inv: "table_inv t ps"
  shows "table_inv (snd (record_exit pid code t)) (ps(pid := None))"
proof (cases "map_of (records t) pid")
  case None
  then have "ps pid \<noteq> Some (SessionProc gen)" for gen using table_invD(4) [OF inv, of pid gen] by auto
  then show ?thesis using table_inv_gone [OF inv] None by (simp add: record_exit_def)
next
  case (Some r)
  note d = table_invD [OF inv]
  let ?rs = "bt_insert pid (r\<lparr>outcome := Exited code\<rparr>) (records t)"
  let ?ps = "ps(pid := None)"
  obtain ex rs where ev: "evict (exited t @ [pid]) ?rs = (ex, rs)" by fastforce
  define t' where "t' = snd (record_exit pid code t)"
  have t': "records t' = rs" "exited t' = ex" "spawned t' = spawned t" "scopes t' = bt_remove (generation r) (scopes t)"
    using Some ev by (simp_all add: t'_def record_exit_def Let_def)
  obtain out where out: "exited t @ [pid] = out @ ex" "map_of rs = map_of ?rs |` (- set out)" "bt_inv rs"
      "length ex \<le> retained_exited_sessions" "ex \<noteq> []"
    using evict_result [OF ev] bt_inv_insert [OF d(1)] by auto
  have pid_ex: "pid \<in> set ex" using out(1,5) by (metis last_appendR last_in_set last_snoc)
  have rs: "map_of rs q = (if q \<in> set out then None else if q = pid then Some (r\<lparr>outcome := Exited code\<rparr>) else map_of (records t) q)" for q
    unfolding out(2) using bt_get_insert [OF d(1)] by (auto simp: restrict_map_def)
  have out_ex: "q = pid \<or> q \<in> set (exited t)" if "q \<in> set out \<or> q \<in> set ex" for q
    using that out(1) by (metis Un_iff in_set_conv_decomp set_append set_ConsD empty_iff list.set(1))
  have not_running: "r\<lparr>outcome := Exited code\<rparr> \<noteq> \<lparr>generation = g, outcome = Running\<rparr>" for g
    by (cases r) simp
  have sess: "?ps q = Some (SessionProc g) \<longleftrightarrow> map_of rs q = Some \<lparr>generation = g, outcome = Running\<rparr>" for q g
    using d(4) [of q g] d(8) [of q g] out_ex [of q] not_running unfolding rs by auto
  moreover have gens: "\<exists>k. map_of (records t) q = Some k \<and> generation k = generation k'" if "map_of rs q = Some k'" for q k'
    using that Some unfolding rs by (auto split: if_splits)
  moreover have "generation k \<le> spawned t'" if "map_of rs q = Some k" for q k
    using gens [OF that] d(5) unfolding t' by metis
  moreover have "p = q" if "map_of rs p = Some k" "map_of rs q = Some k'" "generation k = generation k'" for p q k k'
    using gens [OF that(1)] gens [OF that(2)] that(3) d(6) by metis
  moreover have "q \<in> set ex" if "map_of rs q = Some k" "outcome k \<noteq> Running" for q k
  proof (cases "q = pid")
    case False
    then have "q \<notin> set out" "q \<in> set (exited t)" using that d(7) [of q k] unfolding rs by (auto split: if_splits)
    then show ?thesis using out(1) by (metis Un_iff set_append)
  qed (use pid_ex in simp)
  moreover have "?ps q \<noteq> Some (SessionProc g)" if "q \<in> set ex" for q g
    using out_ex [of q] that d(8) [of q g] by auto
  moreover have "\<exists>q. ?ps q = Some (SessionProc g)" if "map_of (scopes t') g \<noteq> None" for g
  proof -
    from that have g: "g \<noteq> generation r" "map_of (scopes t) g \<noteq> None" unfolding t' by (auto split: if_splits)
    obtain q where q: "ps q = Some (SessionProc g)" using d(9) [OF g(2)] by blast
    have "q \<noteq> pid" using q d(4) [of q g] Some g(1) by auto
    with q show ?thesis by auto
  qed
  ultimately have "table_inv t' ?ps"
    using out(3,4) bt_inv_remove [OF d(2)] unfolding table_inv_def t' by blast
  then show ?thesis by (simp add: t'_def)
qed

text \<open>The invariant of the whole system: the table's, and every signal went to the session it was meant for.\<close>

definition system_inv :: "system \<Rightarrow> bool" where
  "system_inv s \<longleftrightarrow> table_inv (table s) (procs s) \<and>
     (\<forall>(sig, pid, gen, target)\<in>set (sent s). target = Some (SessionProc gen))"

lemma running_target:
  assumes "table_inv t ps" and "is_running_generation pid gen t"
  shows "ps pid = Some (SessionProc gen)"
  using table_invD(4) [OF assms(1)] assms(2) by (simp add: is_running_generation_def)

lemma fork_inv: "system_inv s \<Longrightarrow> procs s pid = None \<Longrightarrow> system_inv (fork_session pid scope s)"
proof -
  assume s: "system_inv s" "procs s pid = None"
  then have "table_inv (snd (record_spawned pid (table s))) ((procs s)(pid \<mapsto> SessionProc (spawned (table s) + 1)))"
    by (intro record_inv_spawned) (auto simp: system_inv_def)
  moreover have "record_spawned pid (table s) = (spawned (table s) + 1, snd (record_spawned pid (table s)))"
    by (simp add: record_spawned_def Let_def)
  ultimately show ?thesis
    using s table_inv_own_scope [of _ "(procs s)(pid \<mapsto> SessionProc (spawned (table s) + 1))" pid "spawned (table s) + 1"]
    by (auto simp: fork_session_def system_inv_def Let_def split: prod.splits option.splits)
qed

lemma stop_inv: "system_inv s \<Longrightarrow> system_inv (snd (stop_session pid s))"
proof (cases "map_of (records (table s)) pid")
  case (Some r)
  assume s: "system_inv s"
  show ?thesis
  proof (cases "outcome r")
    case Running
    then have "is_running_generation pid (generation r) (table s)" using Some by (simp add: is_running_generation_def)
    then have "procs s pid = Some (SessionProc (generation r))" using s running_target unfolding system_inv_def by blast
    then show ?thesis using s Some Running by (auto simp: stop_session_def snapshot_def table_status_def system_inv_def)
  next
    case (Exited c)
    then show ?thesis using s Some by (simp add: stop_session_def snapshot_def table_status_def)
  qed
qed (simp add: stop_session_def snapshot_def)

lemma timer_inv: "system_inv s \<Longrightarrow> system_inv (kill_timer pid gen s)"
  using running_target [of "table s" "procs s" pid gen] by (auto simp: kill_timer_def system_inv_def Let_def)

lemma reap_inv: "system_inv s \<Longrightarrow> system_inv (reap pid code s)"
  using record_inv_exit [of "table s" "procs s" pid code] table_inv_gone [of "table s" "procs s" pid]
  by (auto simp: reap_def system_inv_def)

lemma reachable_inv: "reachable s \<Longrightarrow> system_inv s"
proof (induction rule: reachable.induct)
  case start
  show ?case by (simp add: boot_def system_inv_def table_inv_def empty_table_def bt_inv_Nil)
next
  case (next_step s s')
  from next_step(2,3) show ?case
  proof (cases rule: step.cases)
    case (other pid p)
    then show ?thesis using next_step(3) table_inv_other by (auto simp: system_inv_def)
  qed (simp_all add: next_step(3) fork_inv stop_inv timer_inv reap_inv)
qed


text \<open>
  A run in which the pid 7 is stopped, exits and is reused before the timer fires: the new session is spared, and is
  killed by the timer of its own stop.
\<close>

definition sample_run :: system where
  "sample_run =
     kill_timer 7 2 (snd (stop_session 7 (kill_timer 7 1 (fork_session 7 None
       (reap 7 (Some 0) (snd (stop_session 7 (fork_session 7 None boot))))))))"

lemmas session_eval = fork_session_def boot_def empty_table_def record_spawned_def stop_session_def snapshot_def table_status_def
  reap_def record_exit_def kill_timer_def is_running_generation_def scope_directory_of_def retained_exited_sessions_def

lemma sample_run_reachable: "reachable sample_run"
proof -
  let ?s1 = "fork_session 7 None boot"
  let ?s2 = "snd (stop_session 7 ?s1)"
  let ?s3 = "reap 7 (Some 0) ?s2"
  let ?s4 = "fork_session 7 None ?s3"
  let ?s5 = "kill_timer 7 1 ?s4"
  let ?s6 = "snd (stop_session 7 ?s5)"
  have "reachable ?s1" by (intro next_step [OF start] spawn) (simp add: boot_def)
  then have "reachable ?s2" by (rule next_step) (rule stop)
  then have "reachable ?s3" by (rule next_step) (intro reaped, simp add: session_eval)
  then have "reachable ?s4" by (rule next_step) (intro spawn, simp add: session_eval)
  then have "reachable ?s5" by (rule next_step) (intro timer, simp add: session_eval)
  then have "reachable ?s6" by (rule next_step) (rule stop)
  then show ?thesis unfolding sample_run_def by (rule next_step) (intro timer, simp add: session_eval)
qed

lemma sample_run_sent:
  "sent sample_run = [(KILL, 7, 2, Some (SessionProc 2)), (TERMINATE, 7, 2, Some (SessionProc 2)),
     (TERMINATE, 7, 1, Some (SessionProc 1))]"
  by (simp add: sample_run_def session_eval)

lemma sample_run_procs: "procs sample_run = [7 \<mapsto> SessionProc 2]"
  by (simp add: sample_run_def session_eval numeral_2_eq_2)


lemma table_status_iff:
  "table_status pid t = Some \<lparr>status_pid = pid, state = SessionExited, exit_code = code\<rparr> \<longleftrightarrow>
     (\<exists>r. map_of (records t) pid = Some r \<and> outcome r = Exited code)"
  by (cases "map_of (records t) pid") (auto simp: table_status_def split: session_outcome.splits)



section \<open>How long an exit status is kept\<close>

text \<open>
  Steps after which the session that held \<open>pid\<close> can still be asked about: no new session takes the pid, and no
  other unattributed child with that pid is reaped. The number counts the children reaped.
\<close>

inductive quiet :: "u32 \<Rightarrow> nat \<Rightarrow> system \<Rightarrow> system \<Rightarrow> bool" for pid where
  quiet_none: "quiet pid 0 s s"
| quiet_spawn: "quiet pid k s s' \<Longrightarrow> procs s' q = None \<Longrightarrow> q \<noteq> pid \<Longrightarrow> quiet pid k s (fork_session q scope s')"
| quiet_other: "quiet pid k s s' \<Longrightarrow> procs s' q = None \<Longrightarrow> p = ServiceProc \<or> p = StrayProc \<Longrightarrow>
    quiet pid k s (s'\<lparr>procs := (procs s')(q \<mapsto> p)\<rparr>)"
| quiet_reap: "quiet pid k s s' \<Longrightarrow> procs s' q \<noteq> None \<Longrightarrow> q \<noteq> pid \<or> procs s' q = Some ServiceProc \<Longrightarrow>
    quiet pid (Suc k) s (reap q code s')"
| quiet_stop: "quiet pid k s s' \<Longrightarrow> quiet pid k s (snd (stop_session q s'))"
| quiet_timer: "quiet pid k s s' \<Longrightarrow> (q, gen) \<in> set (armed s') \<Longrightarrow> quiet pid k s (kill_timer q gen s')"

lemma quiet_reachable: "quiet pid k s s' \<Longrightarrow> reachable s \<Longrightarrow> reachable s'"
  by (induction rule: quiet.induct) (auto intro: next_step step.intros)

text \<open>The pid waits for eviction with at most \<open>k\<close> later exits behind it, and its record has the exit code.\<close>

definition kept :: "u32 \<Rightarrow> i32 option \<Rightarrow> nat \<Rightarrow> session_table \<Rightarrow> bool" where
  "kept pid code k t \<longleftrightarrow>
     (\<exists>r. map_of (records t) pid = Some r \<and> outcome r = Exited code) \<and>
     (\<exists>pre post. exited t = pre @ pid # post \<and> pid \<notin> set pre \<and> length post \<le> k)"

lemma kept_exit:
  assumes inv: "table_inv t ps" and kept: "kept pid code k t" and q: "q \<noteq> pid" and k: "Suc k < retained_exited_sessions"
  shows "kept pid code (Suc k) (snd (record_exit q c t))"
proof (cases "map_of (records t) q")
  case None
  then show ?thesis using kept by (auto simp: record_exit_def kept_def intro: le_SucI)
next
  case (Some r)
  let ?rs = "bt_insert q (r\<lparr>outcome := Exited c\<rparr>) (records t)"
  obtain ex rs where ev: "evict (exited t @ [q]) ?rs = (ex, rs)" by fastforce
  obtain out where out: "exited t @ [q] = out @ ex" "map_of rs = map_of ?rs |` (- set out)"
      "length ex = min (length (exited t @ [q])) retained_exited_sessions"
    using evict_result [OF ev] by blast
  obtain pre post where ex: "exited t = pre @ pid # post" "pid \<notin> set pre" "length post \<le> k"
    using kept by (auto simp: kept_def)
  have len: "length out + length ex = length pre + length post + 2" using arg_cong [OF out(1), of length] ex(1) by simp
  have "length out \<le> length pre"
    using len out(3) ex k by (simp add: min_def split: if_splits)
  moreover have "out @ ex = pre @ pid # post @ [q]" using out(1) ex(1) by simp
  ultimately obtain mid where mid: "pre = out @ mid" "ex = mid @ pid # post @ [q]"
    by (auto simp: append_eq_append_conv2)
  then have "pid \<notin> set out" using ex(2) by auto
  then have "map_of rs pid = map_of (records t) pid"
    using out(2) q bt_get_insert [OF table_invD(1) [OF inv]] by simp
  moreover have "pid \<notin> set mid" using ex(2) mid by auto
  moreover have "records (snd (record_exit q c t)) = rs" "exited (snd (record_exit q c t)) = mid @ pid # post @ [q]"
    using Some ev mid by (simp_all add: record_exit_def)
  moreover have "length (post @ [q]) \<le> Suc k" using ex(3) by simp
  ultimately show ?thesis using kept unfolding kept_def by metis
qed

lemma kept_spawned:
  assumes "table_inv t ps" and "kept pid code k t" and "q \<noteq> pid"
  shows "kept pid code k (snd (record_spawned q t))"
proof -
  obtain pre post where ex: "exited t = pre @ pid # post" "pid \<notin> set pre" "length post \<le> k"
    using assms(2) by (auto simp: kept_def)
  have "filter (\<lambda>p. p \<noteq> q) (exited t) = filter (\<lambda>p. p \<noteq> q) pre @ pid # filter (\<lambda>p. p \<noteq> q) post"
    using ex(1) assms(3) by auto
  moreover have "length (filter (\<lambda>p. p \<noteq> q) post) \<le> k" using ex(3) by (meson length_filter_le order_trans)
  moreover have "pid \<notin> set (filter (\<lambda>p. p \<noteq> q) pre)" using ex(2) by simp
  ultimately have "\<exists>pre post. exited (snd (record_spawned q t)) = pre @ pid # post \<and> pid \<notin> set pre \<and> length post \<le> k"
    unfolding record_spawned_def Let_def
    by (intro exI [of _ "filter (\<lambda>p. p \<noteq> q) pre"] exI [of _ "filter (\<lambda>p. p \<noteq> q) post"]) simp
  moreover have "map_of (records (snd (record_spawned q t))) pid = map_of (records t) pid"
    using assms(3) bt_get_insert [OF table_invD(1) [OF assms(1)]] by (simp add: record_spawned_def Let_def)
  ultimately show ?thesis using assms(2) by (simp add: kept_def)
qed

lemma kept_fork:
  assumes "table_inv (table s) (procs s)" and "kept pid code k (table s)" and "q \<noteq> pid"
  shows "kept pid code k (table (fork_session q scope s))"
proof -
  have "records (table (fork_session q scope s)) = records (snd (record_spawned q (table s)))"
      "exited (table (fork_session q scope s)) = exited (snd (record_spawned q (table s)))"
    by (simp_all add: fork_session_def own_scope_def Let_def split: prod.splits option.splits)
  then show ?thesis using kept_spawned [OF assms] by (simp add: kept_def)
qed

lemma quiet_kept:
  assumes "quiet pid k s s'" and "reachable s" and "kept pid code 0 (table s)" and "k < retained_exited_sessions"
  shows "kept pid code k (table s')"
  using assms
proof (induction rule: quiet.induct)
  case (quiet_spawn k s s' q scope)
  have "table_inv (table s') (procs s')"
    using reachable_inv [OF quiet_reachable [OF quiet_spawn(1)]] quiet_spawn.prems(1) by (simp add: system_inv_def)
  then show ?case using quiet_spawn kept_fork by blast
next
  case (quiet_reap k s s' q c)
  have inv: "table_inv (table s') (procs s')"
    using reachable_inv [OF quiet_reachable [OF quiet_reap(1)]] quiet_reap.prems(1) by (simp add: system_inv_def)
  have "kept pid code k (table s')" using quiet_reap by simp
  moreover from this have "kept pid code (Suc k) (table s')" by (auto simp: kept_def intro: le_SucI)
  ultimately show ?case
    using kept_exit [OF inv] quiet_reap.hyps(3) quiet_reap.prems(3) by (cases "q = pid") (auto simp: reap_def)
next
  case (quiet_stop k s s' q)
  then show ?case by (auto simp: stop_session_def split: option.splits)
next
  case (quiet_timer k s s' q gen)
  then show ?case by (auto simp: kill_timer_def Let_def)
qed simp_all

lemma kept_after_reap:
  assumes inv: "table_inv (table s) (procs s)" and live: "procs s pid = Some (SessionProc gen)"
  shows "kept pid code 0 (table (reap pid code s))"
proof -
  let ?t = "table s"
  have rec: "map_of (records ?t) pid = Some \<lparr>generation = gen, outcome = Running\<rparr>" using table_invD(4) [OF inv] live by simp
  have fresh: "pid \<notin> set (exited ?t)" using table_invD(8) [OF inv] live by blast
  obtain ex rs where ev: "evict (exited ?t @ [pid]) (bt_insert pid \<lparr>generation = gen, outcome = Exited code\<rparr> (records ?t)) = (ex, rs)" by fastforce
  obtain out where out: "exited ?t @ [pid] = out @ ex" "ex \<noteq> []"
      "map_of rs = map_of (bt_insert pid \<lparr>generation = gen, outcome = Exited code\<rparr> (records ?t)) |` (- set out)"
    using evict_result [OF ev] by auto
  obtain pre where ex: "ex = pre @ [pid]" using out(1,2) by (metis append_butlast_last_id last_appendR last_snoc)
  then have "out @ pre = exited ?t" using out(1) by simp
  then have "set out \<union> set pre = set (exited ?t)" by (metis set_append)
  then have "pid \<notin> set out" "pid \<notin> set pre" using fresh by auto
  then show ?thesis
    using rec ev ex out(3) bt_get_insert [OF table_invD(1) [OF inv]] live
    by (auto simp: kept_def reap_def record_exit_def)
qed

text \<open>
  The exit status of a session can be asked for after its exit until 256 more children have been reaped,
  unless its pid is taken over in the meantime: through any other interleaving the answer stays the code the
  session exited with.
\<close>

theorem exit_status_retained:
  assumes "reachable s" and "procs s pid = Some (SessionProc gen)" and "quiet pid k (reap pid code s) s'" and "k < 256"
  shows "session_status_of s' pid = Inr \<lparr>status_pid = pid, state = SessionExited, exit_code = code\<rparr>"
proof -
  have inv: "table_inv (table s) (procs s)" using reachable_inv [OF assms(1)] by (simp add: system_inv_def)
  have r: "reachable (reap pid code s)" using assms(1,2) by (intro next_step [OF assms(1)] reaped) simp
  have "kept pid code k (table s')"
    using quiet_kept [OF assms(3) r kept_after_reap [OF inv assms(2)]] assms(4) by (simp add: retained_exited_sessions_def)
  then show ?thesis by (simp add: kept_def session_status_of_def table_status_iff)
qed

theorem exit_status_retained_witness:
  "session_status_of (fork_session 8 None (reap 7 (Some 9) sample_run)) 7 =
     Inr \<lparr>status_pid = 7, state = SessionExited, exit_code = Some 9\<rparr>"
proof -
  have "quiet 7 0 (reap 7 (Some 9) sample_run) (fork_session 8 None (reap 7 (Some 9) sample_run))"
    by (intro quiet_spawn quiet_none) (simp_all add: reap_def sample_run_procs)
  then show ?thesis using exit_status_retained [OF sample_run_reachable] sample_run_procs by simp
qed

end
