(* ===== verification/Supervisor_Handover.thy ===== *)
theory Supervisor_Handover
  imports Supervisor_Config Effects
begin

text \<open>
  Listening sockets that the supervisor creates and hands to a service (\<open>tddy-supervisor\<close>, \<open>socket.rs\<close>,
  \<open>handover.rs\<close>, \<open>socket_handover\<close> of \<open>supervisor/service_slot.rs\<close>, and the pid printer of
  \<open>spawn_broker/child_environment.rs\<close>): the names and numbers announced in the environment, what the service
  makes of them, and the placement of the descriptors between fork and exec. The descriptor table of the
  process is a parameter, with the documented behaviour of \<open>fcntl(F_DUPFD_CLOEXEC)\<close>, \<open>dup2\<close> and \<open>close\<close> as its laws.
\<close>

section \<open>Names and numbers\<close>

definition sd_listen_fds_start :: int where
  "sd_listen_fds_start = 3"

definition service_socket_fd_name :: string where
  "service_socket_fd_name = ''connection''"

definition host_session_fd_name_prefix :: string where
  "host_session_fd_name_prefix = ''host-session.''"

definition host_session_fd_name :: "string \<Rightarrow> string" where
  "host_session_fd_name os_user = host_session_fd_name_prefix @ os_user"

definition parse_u32 :: "string \<Rightarrow> u32 option" where
  "parse_u32 s = map_option of_nat (parse_uint (2 ^ 32 - 1) s)"

definition host_session_fd :: "nat \<times> string \<Rightarrow> (string \<times> int) option" where
  "host_session_fd = (\<lambda>(index, name).
     case strip_prefix host_session_fd_name_prefix name of
       None \<Rightarrow> None
     | Some user \<Rightarrow> if user = [] then None else Some (user, sd_listen_fds_start + int index))"

definition resolve_host_session_fds ::
    "u32 \<Rightarrow> string option \<Rightarrow> string option \<Rightarrow> string option \<Rightarrow> (string \<times> int) list" where
  "resolve_host_session_fds my_pid listen_pid listen_fds listen_fdnames =
     (let handed_to_us = (Option.bind listen_pid parse_u32 = Some my_pid);
          count = Option.bind listen_fds (parse_uint (2 ^ 64 - 1))
      in case (handed_to_us, count, listen_fdnames) of
           (True, Some n, Some text) \<Rightarrow>
             (let names = split_on (CHR '':'') text
              in if length names \<noteq> n \<or> n > max_handed_over_listeners then []
                 else List.map_filter host_session_fd (enumerate 0 names))
         | _ \<Rightarrow> [])"

datatype socket_source = Activated int | SelfBind string

definition resolve_socket_source :: "u32 \<Rightarrow> string option \<Rightarrow> string option \<Rightarrow> string \<Rightarrow> socket_source" where
  "resolve_socket_source my_pid listen_pid listen_fds fallback =
     (let handed_to_us = (Option.bind listen_pid parse_u32 = Some my_pid);
          listeners = (case Option.bind listen_fds parse_u32 of Some n \<Rightarrow> if n \<ge> 1 then Some n else None | None \<Rightarrow> None)
      in case (handed_to_us, listeners) of
           (True, Some _) \<Rightarrow> Activated sd_listen_fds_start
         | _ \<Rightarrow> SelfBind fallback)"

text \<open>A handover is the list of announced names and listeners, in descriptor order.\<close>

type_synonym 'l handover = "(string \<times> 'l) list"

definition handover_of :: "'l \<Rightarrow> 'l handover" where
  "handover_of listener = [(service_socket_fd_name, listener)]"

definition with_host_session_socket :: "'l handover \<Rightarrow> string \<Rightarrow> 'l \<Rightarrow> 'l handover" where
  "with_host_session_socket h os_user listener = h @ [(host_session_fd_name os_user, listener)]"

definition fd_names :: "'l handover \<Rightarrow> string" where
  "fd_names h = join_with '':'' (map fst h)"

definition socket_handover :: "'l option \<Rightarrow> (string \<times> 'l) list \<Rightarrow> 'l handover option" where
  "socket_handover listener host_listeners =
     map_option (\<lambda>l. fold (\<lambda>(user, hl) h. with_host_session_socket h user hl) host_listeners (handover_of l)) listener"

section \<open>The child's pid, printed without an allocator\<close>

definition listen_pid_digits :: nat where
  "listen_pid_digits = 10"

text \<open>
  The digits from the least significant one, written at \<open>written\<close> and up into the buffer; writing past its
  end panics.
\<close>

function pid_digits :: "nat \<Rightarrow> nat \<Rightarrow> string option" where
  "pid_digits remaining written =
     (if written \<ge> listen_pid_digits then None
      else if remaining div 10 = 0 then Some [digit_char (remaining mod 10)]
      else map_option (Cons (digit_char (remaining mod 10))) (pid_digits (remaining div 10) (written + 1)))"
  by pat_completeness auto
termination
  by (relation "measure fst") auto

declare pid_digits.simps [simp del]

definition write_listen_pid :: "u32 \<Rightarrow> string option" where
  "write_listen_pid pid = map_option rev (pid_digits (unat pid) 0)"

lemma pid_digits_show: "n < 10 ^ k \<Longrightarrow> written + k \<le> listen_pid_digits \<Longrightarrow> 0 < k \<Longrightarrow> pid_digits n written = Some (rev (show_nat n))"
proof (induction k arbitrary: n written)
  case (Suc k)
  show ?case
  proof (cases "n < 10")
    case True
    then show ?thesis
      using Suc.prems by (subst pid_digits.simps, subst show_nat.simps) simp
  next
    case False
    then have k: "0 < k" using Suc.prems(1) by (cases k) auto
    have "n div 10 < 10 ^ k" using Suc.prems(1) by (simp add: less_mult_imp_div_less mult.commute)
    then have "pid_digits (n div 10) (written + 1) = Some (rev (show_nat (n div 10)))"
      using Suc.IH k Suc.prems(2) by simp
    then show ?thesis
      using False Suc.prems by (subst pid_digits.simps, subst show_nat.simps) simp
  qed
qed simp

lemma write_listen_pid_show: "write_listen_pid pid = Some (show_nat (unat pid))"
proof -
  have "unat pid < 10 ^ 10" using unat_u32_less [of pid] by simp
  then show ?thesis
    using pid_digits_show [of "unat pid" 10 0] by (simp add: write_listen_pid_def listen_pid_digits_def)
qed

section \<open>Reading back what was announced\<close>

lemma socket_handover_Some:
  "socket_handover (Some l) hls = Some ((service_socket_fd_name, l) # map (\<lambda>(u, hl). (host_session_fd_name u, hl)) hls)"
proof -
  have "fold (\<lambda>(user, hl) h. with_host_session_socket h user hl) hls h0 = h0 @ map (\<lambda>(u, hl). (host_session_fd_name u, hl)) hls" for h0
    by (induction hls arbitrary: h0) (auto simp: with_host_session_socket_def)
  then show ?thesis by (simp add: socket_handover_def handover_of_def)
qed

lemma safe_segment_chars:
  assumes "is_one_safe_segment u"
  shows "CHR '':'' \<notin> set u" and "u \<noteq> []"
  using assms by (auto simp: is_one_safe_segment_def list_all_iff is_ascii_alphanumeric_def)

lemma fd_names_split:
  assumes "\<forall>u\<in>fst ` set hls. is_one_safe_segment u" and "socket_handover (Some l) hls = Some h"
  shows "split_on (CHR '':'') (fd_names h) = service_socket_fd_name # map (host_session_fd_name \<circ> fst) hls"
proof -
  have "map fst h = service_socket_fd_name # map (host_session_fd_name \<circ> fst) hls"
    using assms(2) by (auto simp: socket_handover_Some)
  moreover have "CHR '':'' \<notin> set w" if "w \<in> set (service_socket_fd_name # map (host_session_fd_name \<circ> fst) hls)" for w
    using that assms(1) safe_segment_chars(1)
    by (auto simp: service_socket_fd_name_def host_session_fd_name_def host_session_fd_name_prefix_def)
  ultimately show ?thesis
    unfolding fd_names_def by (simp only:) (rule split_join, simp_all)
qed

lemma host_session_fd_own: "host_session_fd (i, service_socket_fd_name) = None"
  by (simp add: host_session_fd_def service_socket_fd_name_def host_session_fd_name_prefix_def)

lemma host_session_fd_user: "u \<noteq> [] \<Longrightarrow> host_session_fd (i, host_session_fd_name u) = Some (u, sd_listen_fds_start + int i)"
  by (simp add: host_session_fd_def host_session_fd_name_def)

lemma map_filter_hosts:
  assumes "\<forall>u\<in>set us. u \<noteq> []"
  shows "List.map_filter host_session_fd (enumerate i (map host_session_fd_name us)) =
    map (\<lambda>(j, u). (u, sd_listen_fds_start + int j)) (enumerate i us)"
  using assms by (induction us arbitrary: i) (auto simp: map_filter_simps host_session_fd_user)

lemma parse_u32_show: "n < 2 ^ 32 \<Longrightarrow> parse_u32 (show_nat n) = Some (of_nat n)"
  by (simp add: parse_u32_def parse_uint_show_nat)

lemma resolve_announced:
  assumes "\<forall>u\<in>fst ` set hls. is_one_safe_segment u" and "1 + length hls \<le> max_handed_over_listeners"
    and "socket_handover (Some l) hls = Some h"
  shows "resolve_host_session_fds pid (write_listen_pid pid) (Some (show_nat (length h))) (Some (fd_names h)) =
    map (\<lambda>(j, u). (u, sd_listen_fds_start + int j)) (enumerate 1 (map fst hls))"
proof -
  have len: "length h = 1 + length hls" using assms(3) by (auto simp: socket_handover_Some)
  have "Suc (length hls) \<le> 18446744073709551615" using assms(2) by (simp add: max_handed_over_listeners_def)
  then have count: "parse_uint 18446744073709551615 (show_nat (Suc (length hls))) = Some (Suc (length hls))"
    by (rule parse_uint_show_nat)
  have p: "parse_u32 (show_nat (unat pid)) = Some pid" using parse_u32_show [OF unat_u32_less] by simp
  have us: "\<forall>u\<in>set (map fst hls). u \<noteq> []" using assms(1) safe_segment_chars(2) by auto
  show ?thesis
    using fd_names_split [OF assms(1,3)] len assms(2) map_filter_hosts [OF us, of 1]
    by (simp add: resolve_host_session_fds_def write_listen_pid_show p count Let_def map_filter_simps host_session_fd_own)
qed

lemma activated_by_count:
  assumes "0 < n" and "n < 2 ^ 32"
  shows "resolve_socket_source pid (Some (show_nat (unat pid))) (Some (show_nat n)) fallback = Activated 3"
proof -
  have "parse_u32 (show_nat (unat pid)) = Some pid" using parse_u32_show [OF unat_u32_less] by simp
  moreover have "unat (of_nat n :: u32) = n" using assms(2) by (simp add: unat_of_nat)
  then have "1 \<le> (of_nat n :: u32)" using assms(1) by (simp add: word_le_nat_alt)
  ultimately show ?thesis
    using assms(2) by (simp add: resolve_socket_source_def parse_u32_show sd_listen_fds_start_def Let_def)
qed

section \<open>Placing the descriptors\<close>

record 'k fd_table =
  dupfd_cloexec :: "int \<Rightarrow> int \<Rightarrow> ('k, string, int) io"
  dup_to :: "int \<Rightarrow> int \<Rightarrow> ('k, string, unit) io"
  close_fd :: "int \<Rightarrow> 'k \<Rightarrow> 'k"

text \<open>Copy every listener above the slots.\<close>

fun stage :: "'k fd_table \<Rightarrow> int \<Rightarrow> int list \<Rightarrow> ('k, string, int list) io" where
  "stage t slots_end [] = ret []"
| "stage t slots_end (l # ls) =
     and_then (dupfd_cloexec t l slots_end) (\<lambda>copy.
     and_then (stage t slots_end ls) (\<lambda>copies. ret (copy # copies)))"

text \<open>Copy each staged descriptor onto its slot and close the copy.\<close>

fun place :: "'k fd_table \<Rightarrow> int \<Rightarrow> int list \<Rightarrow> ('k, string, unit) io" where
  "place t slot [] = ret ()"
| "place t slot (c # cs) =
     and_then (dup_to t c slot) (\<lambda>_ k. place t (slot + 1) cs (close_fd t c k))"

definition hand_over_listeners :: "'k fd_table \<Rightarrow> int list \<Rightarrow> ('k, string, unit) io" where
  "hand_over_listeners t listeners =
     (let slots_end = sd_listen_fds_start + int (length listeners)
      in if length listeners > max_handed_over_listeners then fail ''panic''
         else and_then (stage t slots_end listeners) (\<lambda>staged. place t sd_listen_fds_start staged))"

text \<open>
  The laws of the descriptor table, with \<open>file k fd\<close> the open file a descriptor refers to: a duplicate above a
  bound is a free descriptor not below it; \<open>dup2\<close> and \<open>close\<close> change the one slot; a failed call changes nothing.
\<close>

definition fd_laws :: "'k fd_table \<Rightarrow> ('k \<Rightarrow> int \<Rightarrow> 'f option) \<Rightarrow> bool" where
  "fd_laws t file \<longleftrightarrow>
     (\<forall>k fd bound n k'. dupfd_cloexec t fd bound k = (Inr n, k') \<longrightarrow>
        bound \<le> n \<and> file k fd \<noteq> None \<and> file k n = None \<and> file k' = (file k)(n := file k fd)) \<and>
     (\<forall>k fd bound e k'. dupfd_cloexec t fd bound k = (Inl e, k') \<longrightarrow> file k' = file k) \<and>
     (\<forall>k a b u k'. dup_to t a b k = (Inr u, k') \<longrightarrow> file k a \<noteq> None \<and> file k' = (file k)(b := file k a)) \<and>
     (\<forall>k a b e k'. dup_to t a b k = (Inl e, k') \<longrightarrow> file k' = file k) \<and>
     (\<forall>k fd. file (close_fd t fd k) = (file k)(fd := None))"

lemma dupfd_law:
  assumes "fd_laws t file" and "dupfd_cloexec t fd bound k = (Inr n, k')"
  shows "bound \<le> n" and "file k fd \<noteq> None" and "file k n = None" and "file k' = (file k)(n := file k fd)"
  using assms(1) [unfolded fd_laws_def, THEN conjunct1, rule_format, OF assms(2)] by simp_all

lemma dup_to_law:
  assumes "fd_laws t file" and "dup_to t a b k = (Inr u, k')"
  shows "file k' = (file k)(b := file k a)"
  using assms(1) [unfolded fd_laws_def, THEN conjunct2, THEN conjunct2, THEN conjunct1, rule_format, OF assms(2)] by simp

lemma close_law: "fd_laws t file \<Longrightarrow> file (close_fd t fd k) = (file k)(fd := None)"
  unfolding fd_laws_def by blast

lemma stage_result:
  assumes "fd_laws t file" and "stage t bound ls k = (Inr copies, k')" and "\<forall>l\<in>set ls. file k l \<noteq> None"
  shows "length copies = length ls \<and> distinct copies \<and> (\<forall>c\<in>set copies. bound \<le> c \<and> file k c = None) \<and>
    map (file k') copies = map (file k) ls \<and> (\<forall>fd. fd \<notin> set copies \<longrightarrow> file k' fd = file k fd)"
  using assms(2,3)
proof (induction ls arbitrary: k copies)
  case Nil
  then show ?case by (simp add: io_simps)
next
  case (Cons l ls)
  from Cons.prems obtain c k1 cs where d: "dupfd_cloexec t l bound k = (Inr c, k1)"
      and r: "stage t bound ls k1 = (Inr cs, k')" and copies: "copies = c # cs"
    by (auto simp: io_simps)
  note law = dupfd_law [OF assms(1) d]
  have open1: "\<forall>l\<in>set ls. file k1 l \<noteq> None" and same: "map (file k1) ls = map (file k) ls"
    using Cons.prems(2) law(3,4) by auto
  note ih = Cons.IH [OF r open1]
  have c: "file k1 c = file k l" "file k1 c \<noteq> None" using law by auto
  then have "c \<notin> set cs" using ih by auto
  then show ?case using ih law same copies c by (auto split: if_splits)
qed

text \<open>Placing reads each staged copy before anything can have replaced it.\<close>

lemma place_result:
  assumes "fd_laws t file" and "place t slot cs k = (Inr (), k')" and "distinct cs"
    and "\<forall>c\<in>set cs. slot + int (length cs) \<le> c"
  shows "(\<forall>i < length cs. file k' (slot + int i) = file k (cs ! i)) \<and>
    (\<forall>fd. fd \<notin> set cs \<and> \<not> (slot \<le> fd \<and> fd < slot + int (length cs)) \<longrightarrow> file k' fd = file k fd)"
  using assms(2-)
proof (induction cs arbitrary: slot k)
  case Nil
  then show ?case by (simp add: io_simps)
next
  case (Cons c cs)
  from Cons.prems(1) obtain k1 where d: "dup_to t c slot k = (Inr (), k1)"
      and r: "place t (slot + 1) cs (close_fd t c k1) = (Inr (), k')"
    by (auto simp: io_simps)
  let ?k2 = "close_fd t c k1"
  have k2: "file ?k2 = ((file k)(slot := file k c))(c := None)"
    by (simp add: close_law [OF assms(1)] dup_to_law [OF assms(1) d])
  have above: "\<forall>d\<in>set cs. slot + 1 + int (length cs) \<le> d" and slot: "slot < c" using Cons.prems(3) by auto
  from Cons.IH [OF r _ above] Cons.prems(2)
  have ih: "\<forall>i < length cs. file k' (slot + 1 + int i) = file ?k2 (cs ! i)"
      and other: "\<And>fd. fd \<notin> set cs \<Longrightarrow> \<not> (slot + 1 \<le> fd \<and> fd < slot + 1 + int (length cs)) \<Longrightarrow> file k' fd = file ?k2 fd"
    by auto
  have staged: "file ?k2 d = file k d" if "d \<in> set cs" for d
    using that k2 above Cons.prems(2) by auto
  have first: "file k' slot = file k c"
  proof -
    have "slot \<notin> set cs" using above by auto
    then show ?thesis using other [of slot] k2 slot by simp
  qed
  show ?case
  proof (intro conjI allI impI)
    fix i assume "i < length (c # cs)"
    then show "file k' (slot + int i) = file k ((c # cs) ! i)"
      using ih first staged by (cases i) (simp_all add: algebra_simps)
  next
    fix fd assume "fd \<notin> set (c # cs) \<and> \<not> (slot \<le> fd \<and> fd < slot + int (length (c # cs)))"
    then show "file k' fd = file k fd" using other [of fd] k2 by auto
  qed
qed

text \<open>
  C21. When the listeners handed over are open and the placement reports success, descriptor \<open>3 + i\<close> refers to
  the listener that was at the \<open>i\<close>-th given descriptor, even when some of those descriptors are themselves slots;
  and every other descriptor that was open still refers to what it did.
\<close>

theorem listeners_reach_their_slots:
  assumes "fd_laws t file" and "\<forall>l\<in>set ls. file k l \<noteq> None" and "hand_over_listeners t ls k = (Inr (), k')"
  shows "(\<forall>i < length ls. file k' (3 + int i) = file k (ls ! i)) \<and>
    (\<forall>fd. file k fd \<noteq> None \<and> \<not> (3 \<le> fd \<and> fd < 3 + int (length ls)) \<longrightarrow> file k' fd = file k fd)"
proof -
  let ?limit = "3 + int (length ls)"
  obtain copies k1 where s: "stage t ?limit ls k = (Inr copies, k1)" and p: "place t 3 copies k1 = (Inr (), k')"
    using assms(3) by (auto simp: hand_over_listeners_def sd_listen_fds_start_def Let_def io_simps split: if_splits)
  note st = stage_result [OF assms(1) s assms(2)]
  have "\<forall>c\<in>set copies. 3 + int (length copies) \<le> c" using st by auto
  note pl = place_result [OF assms(1) p _ this]
  have "file k1 (copies ! i) = file k (ls ! i)" if "i < length ls" for i
    using st that by (metis nth_map)
  moreover have "file k1 fd = file k fd" "fd \<notin> set copies" if "file k fd \<noteq> None" for fd
    using st that by metis+
  ultimately show ?thesis using pl st by auto
qed

text \<open>A table of three listeners, two of which sit on slots of one another.\<close>

definition lowest_free :: "(int \<times> 'f) list \<Rightarrow> int \<Rightarrow> int" where
  "lowest_free k bound = hd (filter (\<lambda>n. n \<notin> fst ` set k) (map (\<lambda>i. bound + int i) [0..<Suc (length k)]))"

definition listed_table :: "(int \<times> string) list fd_table" where
  "listed_table =
     \<lparr>dupfd_cloexec = (\<lambda>fd bound k.
        case map_of k fd of
          None \<Rightarrow> (Inl ''EBADF'', k)
        | Some f \<Rightarrow> (let n = lowest_free k bound
                    in if bound \<le> n \<and> map_of k n = None then (Inr n, (n, f) # k) else (Inl ''EMFILE'', k))),
      dup_to = (\<lambda>a b k. case map_of k a of None \<Rightarrow> (Inl ''EBADF'', k) | Some f \<Rightarrow> (Inr (), (b, f) # k)),
      close_fd = (\<lambda>fd k. filter (\<lambda>(n, _). n \<noteq> fd) k)\<rparr>"

lemma map_of_filter_key: "map_of (filter (\<lambda>(n, _). n \<noteq> fd) k) = (map_of k)(fd := None)"
  by (induction k) auto

lemma listed_table_laws: "fd_laws listed_table map_of"
  by (auto simp: fd_laws_def listed_table_def map_of_filter_key Let_def split: option.splits if_splits)

theorem listeners_reach_their_slots_witness:
  "let k = [(4, ''own''), (3, ''alice''), (9, ''bob'')]; r = hand_over_listeners listed_table [4, 3, 9] k
   in fst r = Inr () \<and> map_of (snd r) 3 = Some ''own'' \<and> map_of (snd r) 4 = Some ''alice'' \<and> map_of (snd r) 5 = Some ''bob''"
proof -
  let ?k = "[(4, ''own''), (3, ''alice''), (9, ''bob'')]"
  let ?r = "hand_over_listeners listed_table [4, 3, 9] ?k"
  have ok: "fst ?r = Inr ()" by code_simp
  then have r: "?r = (Inr (), snd ?r)" by (cases ?r) simp
  have "\<forall>l\<in>set [4, 3, 9]. map_of ?k l \<noteq> None" by simp
  note t = listeners_reach_their_slots [OF listed_table_laws this r, THEN conjunct1]
  have "map_of (snd ?r) 3 = Some ''own''" using spec [OF t, of 0] by simp
  moreover have "map_of (snd ?r) 4 = Some ''alice''" using spec [OF t, of 1] by simp
  moreover have "map_of (snd ?r) 5 = Some ''bob''" using spec [OF t, of 2] by simp
  ultimately show ?thesis using ok by (simp add: Let_def)
qed

end
