(* ===== verification/Supervisor_Child.thy ===== *)
theory Supervisor_Child
  imports Supervisor_Sessions Supervisor_Handover
begin

text \<open>
  A child before it execs (\<open>tddy-supervisor\<close>, \<open>spawn_broker.rs\<close>, \<open>spawn_broker/accounts.rs\<close>,
  \<open>spawn_broker/child_environment.rs\<close>): the account it becomes, its environment, and the order of the steps between
  \<open>fork\<close> and \<open>exec\<close>. The passwd and group databases are parameters.
\<close>

section \<open>Accounts\<close>

record passwd =
  pw_uid :: u32
  pw_gid :: u32
  pw_name :: "string option"
  pw_dir :: "string option"

text \<open>
  A call of \<open>getgrouplist\<close> with a buffer for \<open>room\<close> groups answers whether they fitted, the count it wrote back, and the
  buffer.
\<close>

record accounts =
  getpwnam :: "string \<Rightarrow> passwd option"
  getgrouplist :: "string \<Rightarrow> u32 \<Rightarrow> nat \<Rightarrow> bool \<times> i32 \<times> u32 list"

record target_user =
  target_uid :: u32
  target_gid :: u32
  target_name :: string
  target_home :: string
  target_groups :: "u32 list"

text \<open>
  The retry loop: a count that asks for no more room is a failure, and a negative one is a request for more memory
  than there is.
\<close>

function group_loop :: "accounts \<Rightarrow> string \<Rightarrow> u32 \<Rightarrow> nat \<Rightarrow> string + u32 list" where
  "group_loop db name gid room =
     (case getgrouplist db name gid room of
        (found, ngroups, groups) \<Rightarrow>
          if found then Inr (if 0 \<le> sint ngroups then take (nat (sint ngroups)) groups else groups)
          else if sint ngroups < 0 then Inl ''panic: capacity overflow''
          else if sint ngroups \<le> int room
               then Inl (''could not resolve the groups of OS user '' @ tick @ name @ tick)
          else group_loop db name gid (nat (sint ngroups)))"
  by pat_completeness auto
termination
proof (relation "measure (\<lambda>(db, name, gid, room). 2 ^ 31 - room)")
  fix db name gid room p found ngroups groups and q :: "i32 \<times> u32 list"
  assume "\<not> sint (ngroups :: i32) \<le> int room" "\<not> sint ngroups < 0"
  moreover have "sint ngroups < 2 ^ 31" using sint_lt [of ngroups] by simp
  ultimately have "room < nat (sint ngroups)" "nat (sint ngroups) < 2 ^ 31" by simp_all
  then show "((db, name, gid, nat (sint ngroups)), db, name, gid, room) \<in> measure (\<lambda>(db, name, gid, room). 2 ^ 31 - room)"
    by simp
qed simp

declare group_loop.simps [simp del]

definition resolve_supplementary_groups :: "accounts \<Rightarrow> string \<Rightarrow> u32 \<Rightarrow> string + u32 list" where
  "resolve_supplementary_groups db name gid = group_loop db name gid 32"

definition refuse_root_credentials :: "string \<Rightarrow> u32 \<Rightarrow> u32 \<Rightarrow> string + unit" where
  "refuse_root_credentials account uid gid =
     (if uid = 0 then Inl (''account '' @ tick @ account @ tick @ '' resolves to uid 0; the supervisor is the only privileged process on the host'')
      else if gid = 0 then Inl (''account '' @ tick @ account @ tick @ '' resolves to gid 0; the supervisor is the only privileged process on the host'')
      else Inr ())"

definition resolve_target_user :: "accounts \<Rightarrow> string \<Rightarrow> string + target_user" where
  "resolve_target_user db name =
     (if \<not> nul_free name then Inl (''user name '' @ tick @ name @ tick @ '' contains a nul byte'')
      else case getpwnam db name of
             None \<Rightarrow> Inl (''no OS user '' @ tick @ name @ tick @ '' on this host'')
           | Some entry \<Rightarrow>
               (case (pw_dir entry, pw_name entry) of
                  (Some dir, Some nm) \<Rightarrow>
                    try_then (refuse_root_credentials name (pw_uid entry) (pw_gid entry)) (\<lambda>_.
                    try_then (resolve_supplementary_groups db nm (pw_gid entry)) (\<lambda>gs.
                      Inr \<lparr>target_uid = pw_uid entry, target_gid = pw_gid entry, target_name = nm, target_home = dir, target_groups = gs\<rparr>))
                | _ \<Rightarrow> Inl (''OS user '' @ tick @ name @ tick @ '' has an incomplete passwd entry'')))"

section \<open>Plans\<close>

datatype child_output = Inherit | Discard | CaptureStderr

datatype environment_base = Inherited string | Minimal

record jail_mount =
  mount_source :: string
  mount_target :: string
  mount_readonly :: bool

record sandbox_jail =
  jail_mounts :: "jail_mount list"
  isolate_network :: bool

record spawn_plan =
  plan_program :: string
  plan_args :: "string list"
  plan_env :: "(string \<times> string) list"
  plan_dir :: string
  plan_target :: target_user
  scope_procs :: "string option"
  plan_output :: child_output
  plan_base :: environment_base
  plan_sandbox :: "sandbox_jail option"

text \<open>The plan of a declared service, \<open>Slot::spawn_plan\<close>.\<close>

definition service_plan :: "managed_service \<Rightarrow> target_user \<Rightarrow> string \<Rightarrow> spawn_plan" where
  "service_plan sv target supervisor_socket =
     \<lparr>plan_program = exec_start sv, plan_args = service_args sv, plan_env = service_env sv,
      plan_dir = (case service_dir sv of Some d \<Rightarrow> d | None \<Rightarrow> target_home target), plan_target = target,
      scope_procs = None, plan_output = Inherit, plan_base = Inherited supervisor_socket, plan_sandbox = None\<rparr>"

section \<open>The environment\<close>

definition session_path :: string where
  "session_path = ''/usr/local/bin:/usr/bin:/bin''"

definition forwarded_variables :: "string list" where
  "forwarded_variables = [''LANG'', ''TZ'']"

definition supervisor_socket_env :: string where
  "supervisor_socket_env = ''TDDY_SUPERVISOR_SOCKET''"

definition activation_variables :: "string list" where
  "activation_variables = [''LISTEN_FDS'', ''LISTEN_PID'', ''LISTEN_FDNAMES'']"

type_synonym variables = "(string \<times> string) list"

definition bt_inserts :: "variables \<Rightarrow> variables \<Rightarrow> variables" where
  "bt_inserts kvs m = fold (\<lambda>(k, v). bt_insert k v) kvs m"

definition minimal_environment :: "variables \<Rightarrow> variables" where
  "minimal_environment own =
     fold (\<lambda>variable m. case map_of own variable of None \<Rightarrow> m | Some v \<Rightarrow> bt_insert variable v m) forwarded_variables
       (bt_insert ''PATH'' session_path [])"

text \<open>The table of variables, in the order the code fills it. \<open>own\<close> is the environment of the supervisor.\<close>

definition child_values :: "variables \<Rightarrow> spawn_plan \<Rightarrow> 'l handover option \<Rightarrow> variables" where
  "child_values own plan handover =
     (let values = (case plan_base plan of Inherited _ \<Rightarrow> bt_inserts own [] | Minimal \<Rightarrow> minimal_environment own);
          values = bt_inserts (plan_env plan) values;
          values = bt_insert ''HOME'' (target_home (plan_target plan)) values;
          values = bt_insert ''USER'' (target_name (plan_target plan)) values;
          values = bt_insert ''LOGNAME'' (target_name (plan_target plan)) values;
          values = fold bt_remove activation_variables values;
          values = bt_remove supervisor_socket_env values;
          values = (case plan_base plan of Inherited sock \<Rightarrow> bt_insert supervisor_socket_env sock values | Minimal \<Rightarrow> values)
      in case handover of
           None \<Rightarrow> values
         | Some h \<Rightarrow> bt_insert ''LISTEN_FDNAMES'' (fd_names h) (bt_insert ''LISTEN_FDS'' (show_nat (length h)) values))"

definition environment_entry :: "string \<times> string \<Rightarrow> string + string" where
  "environment_entry = (\<lambda>(key, val).
     let entry = key @ ''='' @ val
     in if nul_free entry then Inr entry else Inl (''environment variable '' @ key @ '' contains a nul byte''))"

fun environment_entries :: "variables \<Rightarrow> string + string list" where
  "environment_entries [] = Inr []"
| "environment_entries (kv # kvs) =
     try_then (environment_entry kv) (\<lambda>e. try_then (environment_entries kvs) (\<lambda>es. Inr (e # es)))"

text \<open>
  What the child execs with: the entries built before the fork, and for a child that is handed listeners the entry
  whose digits the child itself writes (\<open>build\<close> and \<open>install\<close>).
\<close>

definition child_environ :: "variables \<Rightarrow> spawn_plan \<Rightarrow> 'l handover option \<Rightarrow> u32 \<Rightarrow> string + string list" where
  "child_environ own plan handover pid =
     try_then (environment_entries (child_values own plan handover)) (\<lambda>es.
       if handover = None then Inr es
       else case write_listen_pid pid of
              None \<Rightarrow> Inl ''panic''
            | Some digits \<Rightarrow> Inr (es @ [''LISTEN_PID='' @ digits]))"

text \<open>\<open>getenv\<close>: the first entry for the name.\<close>

definition getenv :: "string list \<Rightarrow> string \<Rightarrow> string option" where
  "getenv env name =
     (case List.map_filter (strip_prefix (name @ ''='')) env of [] \<Rightarrow> None | v # _ \<Rightarrow> Some v)"

section \<open>Between fork and exec\<close>

datatype pre_exec_step =
    SetParentDeathSignal
  | LeadOwnProcessGroup
  | JoinCgroupScope string
  | DropPrivilege u32 u32
  | EnterUserNamespace
  | EnterMountNamespace
  | EnterNetworkNamespace
  | MakeRootMountPrivate
  | BindMount string string bool
  | BringLoopbackUp
  | ChangeDirectory string

text \<open>\<open>euid\<close> and \<open>egid\<close> are the effective ids of the supervisor.\<close>

definition privilege_to_drop :: "u32 \<Rightarrow> u32 \<Rightarrow> target_user \<Rightarrow> (u32 \<times> u32) option" where
  "privilege_to_drop euid egid target =
     (if euid = target_uid target \<and> egid = target_gid target then None else Some (target_uid target, target_gid target))"

definition jail_steps :: "sandbox_jail \<Rightarrow> pre_exec_step list" where
  "jail_steps jail =
     [EnterUserNamespace, SetParentDeathSignal, EnterMountNamespace] @
     (if isolate_network jail then [EnterNetworkNamespace] else []) @
     [MakeRootMountPrivate] @
     map (\<lambda>m. BindMount (mount_source m) (mount_target m) (mount_readonly m)) (jail_mounts jail) @
     (if isolate_network jail then [BringLoopbackUp] else [])"

definition pre_exec_plan :: "u32 \<Rightarrow> u32 \<Rightarrow> spawn_plan \<Rightarrow> pre_exec_step list" where
  "pre_exec_plan euid egid plan =
     [SetParentDeathSignal, LeadOwnProcessGroup] @
     (case scope_procs plan of None \<Rightarrow> [] | Some path \<Rightarrow> [JoinCgroupScope path]) @
     (case privilege_to_drop euid egid (plan_target plan) of
        None \<Rightarrow> [] | Some (uid, gid) \<Rightarrow> [DropPrivilege uid gid, SetParentDeathSignal]) @
     [ChangeDirectory (plan_dir plan)] @
     (case plan_sandbox plan of None \<Rightarrow> [] | Some jail \<Rightarrow> jail_steps jail)"

definition single_id_map :: "u32 \<Rightarrow> string" where
  "single_id_map uid = ''0 '' @ show_nat (unat uid) @ '' 1'' @ [CHR 0x0A]"

section \<open>Properties of the group list\<close>

lemma group_loop_complete:
  assumes "\<And>room. getgrouplist db name gid room = (length gs \<le> room, of_nat (length gs), take room gs @ replicate (room - length gs) 0)"
    and "length gs < 2 ^ 31"
  shows "group_loop db name gid room = Inr gs"
proof -
  have count: "sint (of_nat (length gs) :: i32) = int (length gs)"
    using assms(2) int_word_sint [of "int (length gs)", where 'a = 32] by simp
  show ?thesis
  proof (cases "length gs \<le> room")
    case True
    then show ?thesis by (subst group_loop.simps) (simp add: assms(1) count)
  next
    case False
    then have "group_loop db name gid room = group_loop db name gid (length gs)"
      by (subst group_loop.simps) (simp add: assms(1) count)
    also have "\<dots> = Inr gs" by (subst group_loop.simps) (simp add: assms(1) count)
    finally show ?thesis .
  qed
qed

lemma resolve_target_user_Inr:
  assumes "resolve_target_user db name = Inr t"
  shows "target_uid t \<noteq> 0" and "target_gid t \<noteq> 0"
  using assms
  by (auto simp: resolve_target_user_def refuse_root_credentials_def try_then_Inr split: if_splits option.splits)

section \<open>Properties of the environment\<close>

lemma bt_inv_inserts: "bt_inv m \<Longrightarrow> bt_inv (bt_inserts kvs m)"
  by (induction kvs arbitrary: m) (auto simp: bt_inserts_def bt_inv_insert)

lemma map_of_bt_inserts: "bt_inv m \<Longrightarrow> map_of (bt_inserts kvs m) = map_of m ++ map_of (rev kvs)"
proof (induction kvs arbitrary: m)
  case (Cons kv kvs)
  obtain k v where kv: "kv = (k, v)" by (cases kv)
  have "map_of (bt_inserts (kv # kvs) m) = map_of (bt_insert k v m) ++ map_of (rev kvs)"
    using Cons by (simp add: bt_inserts_def kv bt_inv_insert)
  also have "\<dots> = map_of m ++ map_of (rev (kv # kvs))"
    using Cons.prems by (auto simp: kv bt_get_insert map_add_def fun_eq_iff split: option.splits)
  finally show ?case .
qed (simp add: bt_inserts_def)

lemma bt_minimal_environment:
  "bt_inv (minimal_environment own) \<and>
   map_of (minimal_environment own) k =
     (if k = ''PATH'' then Some session_path else if k \<in> set forwarded_variables then map_of own k else None)"
  by (auto simp: minimal_environment_def forwarded_variables_def btree_simps bt_inv_def split: option.splits)

definition base_values :: "variables \<Rightarrow> environment_base \<Rightarrow> variables" where
  "base_values own base = (case base of Inherited _ \<Rightarrow> bt_inserts own [] | Minimal \<Rightarrow> minimal_environment own)"

lemma bt_inv_base_values: "bt_inv (base_values own base)"
  by (cases base) (simp_all add: base_values_def bt_minimal_environment bt_inv_inserts btree_simps)

text \<open>What a variable of the child is, by its name.\<close>

lemma child_values_lookup:
  "bt_inv (child_values own plan h) \<and>
   map_of (child_values own plan h) k =
     (if k = ''LISTEN_FDNAMES'' then map_option fd_names h
      else if k = ''LISTEN_FDS'' then map_option (show_nat \<circ> length) h
      else if k = supervisor_socket_env then (case plan_base plan of Inherited sock \<Rightarrow> Some sock | Minimal \<Rightarrow> None)
      else if k = ''LISTEN_PID'' then None
      else if k \<in> {''USER'', ''LOGNAME''} then Some (target_name (plan_target plan))
      else if k = ''HOME'' then Some (target_home (plan_target plan))
      else (map_of (base_values own (plan_base plan)) ++ map_of (rev (plan_env plan))) k)"
  using bt_inv_base_values [of own "plan_base plan"]
  by (cases h; cases "plan_base plan")
    (auto simp: child_values_def Let_def base_values_def [symmetric] activation_variables_def supervisor_socket_env_def
      bt_get_insert bt_inv_insert bt_inv_remove bt_inv_inserts map_of_bt_inserts base_values_def)

lemma child_values_activation:
  "map_of (child_values own plan (None :: unit handover option)) ''LISTEN_FDS'' = None" "map_of (child_values own plan (None :: unit handover option)) ''LISTEN_FDNAMES'' = None"
  "plan_base plan = Minimal \<Longrightarrow> map_of (child_values own plan (None :: unit handover option)) supervisor_socket_env = None"
  by (simp_all add: child_values_lookup supervisor_socket_env_def)

lemma child_values_account:
  "map_of (child_values own plan h) ''HOME'' = Some (target_home (plan_target plan))"
  "map_of (child_values own plan h) ''USER'' = Some (target_name (plan_target plan))"
  "map_of (child_values own plan h) ''LOGNAME'' = Some (target_name (plan_target plan))"
  by (simp_all add: child_values_lookup supervisor_socket_env_def)

lemma child_values_other:
  assumes "k \<notin> {''LISTEN_PID'', ''LISTEN_FDS'', ''LISTEN_FDNAMES'', supervisor_socket_env}" and "k \<notin> {''HOME'', ''USER'', ''LOGNAME''}"
  shows "map_of (child_values own plan h) k = (map_of (base_values own (plan_base plan)) ++ map_of (rev (plan_env plan))) k"
  using assms child_values_lookup [of own plan h k] by simp

lemma strip_entry:
  assumes "CHR ''='' \<notin> set k" and "CHR ''='' \<notin> set name"
  shows "strip_prefix (name @ ''='') (k @ CHR ''='' # v) = (if k = name then Some v else None)"
  using assms
proof (induction name arbitrary: k)
  case Nil
  then show ?case by (cases k) auto
next
  case (Cons c name)
  then show ?case by (cases k) auto
qed

lemma environment_entries_Inr:
  "environment_entries kvs = Inr es \<longleftrightarrow> es = map (\<lambda>(k, v). k @ ''='' @ v) kvs \<and> (\<forall>(k, v)\<in>set kvs. nul_free (k @ ''='' @ v))"
  by (induction kvs arbitrary: es) (auto simp: environment_entry_def try_then_Inr Let_def split: if_splits)

lemma getenv_entries:
  assumes "\<forall>k\<in>fst ` set kvs. CHR ''='' \<notin> set k" and "CHR ''='' \<notin> set name"
  shows "getenv (map (\<lambda>(k, v). k @ ''='' @ v) kvs @ es) name = (case map_of kvs name of Some v \<Rightarrow> Some v | None \<Rightarrow> getenv es name)"
  using assms by (induction kvs) (auto simp: getenv_def map_filter_simps strip_entry split: prod.splits)

definition plain_names :: "variables \<Rightarrow> bool" where
  "plain_names kvs \<longleftrightarrow> (\<forall>k\<in>fst ` set kvs. CHR ''='' \<notin> set k)"

lemma map_of_rev_key: "map_of (rev kvs) k = Some v \<Longrightarrow> k \<in> fst ` set kvs"
  by (metis domI dom_map_of_conv_image_fst set_rev)

lemma child_values_plain:
  assumes "plain_names (plan_env plan)" and "plan_base plan \<noteq> Minimal \<Longrightarrow> plain_names own"
  shows "plain_names (child_values own plan h)"
  unfolding plain_names_def
proof
  fix k assume k: "k \<in> fst ` set (child_values own plan h)"
  have "CHR ''='' \<notin> set x" if "x \<in> fst ` set (base_values own (plan_base plan))" for x
  proof (cases "plan_base plan")
    case Minimal
    have "map_of (minimal_environment own) x \<noteq> None" using that Minimal by (simp add: base_values_def map_of_eq_None_iff)
    then show ?thesis using bt_minimal_environment [of own x] by (auto simp: forwarded_variables_def split: if_splits)
  next
    case (Inherited sock)
    have "map_of (bt_inserts own []) x \<noteq> None" using that Inherited by (simp add: base_values_def map_of_eq_None_iff)
    then have "x \<in> fst ` set own"
      by (auto simp: map_of_bt_inserts btree_simps map_of_eq_None_iff weak_map_of_SomeI dest!: map_of_SomeD intro: rev_image_eqI)
    then show ?thesis using assms(2) Inherited by (auto simp: plain_names_def)
  qed
  moreover have "map_of (child_values own plan h) k \<noteq> None" using k by (simp add: map_of_eq_None_iff)
  then have "k \<in> {''LISTEN_FDNAMES'', ''LISTEN_FDS'', supervisor_socket_env, ''USER'', ''LOGNAME'', ''HOME''} \<or>
      k \<in> fst ` set (base_values own (plan_base plan)) \<or> k \<in> fst ` set (plan_env plan)"
    using child_values_lookup [of own plan h k]
    by (auto simp: map_add_None map_of_eq_None_iff dest: map_of_SomeD map_of_rev_key intro: rev_image_eqI split: if_splits)
  ultimately show "CHR ''='' \<notin> set k" using assms(1) by (auto simp: plain_names_def supervisor_socket_env_def)
qed

lemma getenv_child:
  assumes "child_environ own plan h pid = Inr env"
    and "plain_names (plan_env plan)" and "plan_base plan \<noteq> Minimal \<Longrightarrow> plain_names own" and "CHR ''='' \<notin> set name"
  shows "getenv env name =
    (if name = ''LISTEN_PID'' then if h = None then None else Some (show_nat (unat pid))
     else map_of (child_values own plan h) name)"
proof -
  let ?es = "map (\<lambda>(k, v). k @ ''='' @ v) (child_values own plan h)"
  let ?rest = "if h = None then [] else [''LISTEN_PID'' @ CHR ''='' # show_nat (unat pid)]"
  have "env = ?es @ ?rest"
    using assms(1) by (auto simp: child_environ_def try_then_Inr environment_entries_Inr write_listen_pid_show split: if_splits)
  moreover have "getenv ?rest name = (if h \<noteq> None \<and> name = ''LISTEN_PID'' then Some (show_nat (unat pid)) else None)"
    using strip_entry [of "''LISTEN_PID''" name "show_nat (unat pid)"] assms(4) by (simp add: getenv_def map_filter_simps)
  moreover have "\<forall>k\<in>fst ` set (child_values own plan h). CHR ''='' \<notin> set k"
    using child_values_plain assms(2,3) unfolding plain_names_def by blast
  moreover have "map_of (child_values own plan h) ''LISTEN_PID'' = None"
    using child_values_lookup [of own plan h "''LISTEN_PID''"] by (simp add: supervisor_socket_env_def)
  ultimately show ?thesis using getenv_entries [OF _ assms(4)] by (auto split: option.splits)
qed

lemma enumerate_map: "enumerate n (map f xs) = map (\<lambda>(j, x). (j, f x)) (enumerate n xs)"
  by (induction xs arbitrary: n) auto

text \<open>
  C14. A service of an accepted configuration that is started with its listeners finds exactly them: from the
  environment it execs with, and its own pid, it takes descriptor 3 as its socket and the descriptors from 4 on as the
  host sockets of its users, in the order of their declaration.
\<close>

theorem started_service_finds_its_listeners:
  assumes "validate config = Inr ()" and "sv \<in> set (services config)" and "host_sockets sv \<noteq> []"
    and "socket_handover (Some listener) hls = Some h" and "map fst hls = map host_user (host_sockets sv)"
    and "plain_names (service_env sv)" and "plain_names own"
    and "child_environ own (service_plan sv target (sock_path (socket config))) (Some h) pid = Inr env"
  shows "resolve_socket_source pid (getenv env ''LISTEN_PID'') (getenv env ''LISTEN_FDS'') fallback = Activated 3 \<and>
    resolve_host_session_fds pid (getenv env ''LISTEN_PID'') (getenv env ''LISTEN_FDS'') (getenv env ''LISTEN_FDNAMES'') =
      map (\<lambda>(j, hs). (host_user hs, 3 + int j)) (enumerate 1 (host_sockets sv))"
proof -
  let ?plan = "service_plan sv target (sock_path (socket config))"
  have "host_services_ok (policy config) (services config)"
    using validate_Inr(2) [OF assms(1)] validate_host_services_Inr by (force simp: validate_host_sockets_def Let_def)
  then have safe: "\<forall>x\<in>set (host_sockets sv). is_one_safe_segment (host_user x)"
      and few: "1 + length (host_sockets sv) \<le> max_handed_over_listeners"
    using assms(2,3) by (auto simp: host_services_ok_def host_granted_def)
  have users: "fst ` set hls = host_user ` set (host_sockets sv)" using arg_cong [OF assms(5), of set] by simp
  have len: "length hls = length (host_sockets sv)" using arg_cong [OF assms(5), of length] by simp
  note env = getenv_child [OF assms(8)]
  have vars: "getenv env ''LISTEN_PID'' = Some (show_nat (unat pid))" "getenv env ''LISTEN_FDS'' = Some (show_nat (length h))"
      "getenv env ''LISTEN_FDNAMES'' = Some (fd_names h)"
    using assms(6,7) env child_values_lookup [of own ?plan "Some h"] by (simp_all add: service_plan_def supervisor_socket_env_def)
  have "resolve_host_session_fds pid (write_listen_pid pid) (Some (show_nat (length h))) (Some (fd_names h)) =
      map (\<lambda>(j, u). (u, sd_listen_fds_start + int j)) (enumerate 1 (map fst hls))"
    using resolve_announced [OF _ _ assms(4)] safe few users len by auto
  moreover have "resolve_socket_source pid (getenv env ''LISTEN_PID'') (getenv env ''LISTEN_FDS'') fallback = Activated 3"
    using vars len few assms(4)
    by (auto simp: socket_handover_Some max_handed_over_listeners_def intro!: activated_by_count)
  ultimately show ?thesis
    by (auto simp: vars write_listen_pid_show assms(5) enumerate_map sd_listen_fds_start_def)
qed

definition sample_target :: target_user where
  "sample_target = \<lparr>target_uid = 1000, target_gid = 1000, target_name = ''tddy'', target_home = ''/home/tddy'', target_groups = [1000]\<rparr>"

definition sample_handover :: "string handover" where
  "sample_handover = the (socket_handover (Some ''own'') [(''alice'', ''a''), (''bob'', ''b'')])"

definition sample_own :: variables where
  "sample_own = [(''LANG'', ''C''), (''LISTEN_FDS'', ''9'')]"

definition sample_environ :: "string + string list" where
  "sample_environ = child_environ sample_own
     (service_plan (sample_service [alice_socket, bob_socket]) sample_target ''/run/tddy-supervisor.sock'') (Some sample_handover) 4242"

lemma not_isl_iff: "\<not> isl r \<longleftrightarrow> (\<exists>a. r = Inr a)"
  by (cases r) auto

lemma sample_environ_Inr: "sample_environ = Inr (projr sample_environ)"
proof -
  have "\<not> isl (environment_entries (child_values sample_own
     (service_plan (sample_service [alice_socket, bob_socket]) sample_target ''/run/tddy-supervisor.sock'') (Some sample_handover)))"
    by code_simp
  then show ?thesis by (auto simp: sample_environ_def child_environ_def write_listen_pid_show not_isl_iff)
qed

theorem started_service_finds_its_listeners_witness:
  "resolve_host_session_fds 4242 (getenv (projr sample_environ) ''LISTEN_PID'') (getenv (projr sample_environ) ''LISTEN_FDS'')
     (getenv (projr sample_environ) ''LISTEN_FDNAMES'') = [(''alice'', 4), (''bob'', 5)]"
proof -
  have "socket_handover (Some ''own'') [(''alice'', ''a''), (''bob'', ''b'')] = Some sample_handover"
    by (simp add: sample_handover_def socket_handover_Some)
  from started_service_finds_its_listeners [OF sample_config_valid _ _ this, of "sample_service [alice_socket, bob_socket]"
      sample_own sample_target 4242 "projr sample_environ"] sample_environ_Inr
  show ?thesis
    by (simp add: sample_environ_def sample_config_def sample_service_def alice_socket_def bob_socket_def plain_names_def sample_own_def)
qed

section \<open>Properties of the order\<close>

fun phase :: "pre_exec_step \<Rightarrow> nat" where
  "phase SetParentDeathSignal = 0"
| "phase LeadOwnProcessGroup = 0"
| "phase (JoinCgroupScope _) = 1"
| "phase (DropPrivilege _ _) = 2"
| "phase (ChangeDirectory _) = 3"
| "phase EnterUserNamespace = 4"
| "phase EnterMountNamespace = 5"
| "phase EnterNetworkNamespace = 6"
| "phase MakeRootMountPrivate = 7"
| "phase (BindMount _ _ _) = 8"
| "phase BringLoopbackUp = 9"

text \<open>The steps after which the kernel has cleared the parent-death signal.\<close>

fun changes_credentials :: "pre_exec_step \<Rightarrow> bool" where
  "changes_credentials (DropPrivilege _ _) = True"
| "changes_credentials EnterUserNamespace = True"
| "changes_credentials _ = False"

fun rearmed :: "pre_exec_step list \<Rightarrow> bool" where
  "rearmed [] = True"
| "rearmed [s] = (\<not> changes_credentials s)"
| "rearmed (s # t # ss) = ((changes_credentials s \<longrightarrow> t = SetParentDeathSignal) \<and> rearmed (t # ss))"

abbreviation (input) working_steps :: "pre_exec_step list \<Rightarrow> pre_exec_step list" where
  "working_steps steps \<equiv> filter (\<lambda>s. s \<noteq> SetParentDeathSignal) steps"

lemma rearmed_harmless: "\<forall>s\<in>set ss. \<not> changes_credentials s \<Longrightarrow> rearmed ss"
  by (induction ss rule: rearmed.induct) auto

lemma jail_steps_cons:
  "jail_steps jail = EnterUserNamespace # SetParentDeathSignal # tl (tl (jail_steps jail))"
  "\<forall>s\<in>set (SetParentDeathSignal # tl (tl (jail_steps jail))). \<not> changes_credentials s"
  by (auto simp: jail_steps_def)

lemma rearmed_jail: "rearmed (ChangeDirectory d # jail_steps jail)"
  using rearmed_harmless [OF jail_steps_cons(2)] by (subst jail_steps_cons(1)) simp

lemma sorted_jail: "sorted (map phase (working_steps (jail_steps jail))) \<and> (\<forall>s\<in>set (working_steps (jail_steps jail)). 4 \<le> phase s)"
proof -
  have binds: "working_steps (map (\<lambda>m. BindMount (mount_source m) (mount_target m) (mount_readonly m)) ms) =
      map (\<lambda>m. BindMount (mount_source m) (mount_target m) (mount_readonly m)) ms" for ms :: "jail_mount list"
    by (induction ms) auto
  have eights: "sorted (map (\<lambda>m. 8 :: nat) ms)" for ms :: "jail_mount list" by (induction ms) auto
  show ?thesis by (auto simp: jail_steps_def binds sorted_append comp_def eights)
qed

lemma jail_phase: "s \<in> set (jail_steps jail) \<Longrightarrow> s \<noteq> SetParentDeathSignal \<Longrightarrow> n \<le> 4 \<Longrightarrow> n \<le> phase s"
  using sorted_jail [of jail] by auto

text \<open>
  C12. Between fork and exec the child leads its own group, joins its scope, gives up its privileges, and only then
  changes directory, enters its namespaces, makes its root private and mounts: whatever the plan, the steps come in this
  order, with the mounts in the order of the request and the network namespace exactly when it was asked for. The
  parent-death signal is armed first and again right after every step that clears it.
\<close>

theorem pre_exec_order:
  "sorted (map phase (working_steps (pre_exec_plan euid egid plan))) \<and>
   hd (pre_exec_plan euid egid plan) = SetParentDeathSignal \<and> rearmed (pre_exec_plan euid egid plan) \<and>
   (\<forall>uid gid. DropPrivilege uid gid \<in> set (pre_exec_plan euid egid plan) \<longleftrightarrow>
      uid = target_uid (plan_target plan) \<and> gid = target_gid (plan_target plan) \<and> (uid, gid) \<noteq> (euid, egid)) \<and>
   (\<forall>path. JoinCgroupScope path \<in> set (pre_exec_plan euid egid plan) \<longleftrightarrow> scope_procs plan = Some path) \<and>
   (EnterNetworkNamespace \<in> set (pre_exec_plan euid egid plan) \<longleftrightarrow>
      (case plan_sandbox plan of None \<Rightarrow> False | Some jail \<Rightarrow> isolate_network jail)) \<and>
   filter (\<lambda>s. phase s = 8) (pre_exec_plan euid egid plan) =
     (case plan_sandbox plan of
        None \<Rightarrow> []
      | Some jail \<Rightarrow> map (\<lambda>m. BindMount (mount_source m) (mount_target m) (mount_readonly m)) (jail_mounts jail))"
proof -
  have binds: "filter (\<lambda>s. phase s = 8) (map (\<lambda>m. BindMount (mount_source m) (mount_target m) (mount_readonly m)) ms) =
      map (\<lambda>m. BindMount (mount_source m) (mount_target m) (mount_readonly m)) ms" for ms :: "jail_mount list"
    by (induction ms) auto
  show ?thesis
  proof (intro conjI)
    show "sorted (map phase (working_steps (pre_exec_plan euid egid plan)))"
      using sorted_jail by (auto simp: pre_exec_plan_def sorted_append intro: jail_phase split: option.splits)
    show "rearmed (pre_exec_plan euid egid plan)"
      using rearmed_jail by (auto simp: pre_exec_plan_def split: option.splits)
  qed (auto simp: pre_exec_plan_def jail_steps_def privilege_to_drop_def binds split: option.splits)
qed

end
