(* ===== verification/Supervisor_Cgroups.thy ===== *)
theory Supervisor_Cgroups
  imports Supervisor_Policy Effects
begin

text \<open>
  The supervisor's cgroup subtree (\<open>tddy-supervisor\<close>, \<open>cgroup_broker.rs\<close>): preparing it, and creating, joining and
  removing the scopes below it. The file system is a parameter, the record \<open>cgroup_fs\<close>; \<open>traced\<close> is the same file
  system with a list of the operations performed on it.
\<close>

record 'f cgroup_fs =
  make_dirs :: "string \<Rightarrow> ('f, os_error, unit) io"
  write_file :: "string \<Rightarrow> string \<Rightarrow> ('f, os_error, unit) io"
  append_file :: "string \<Rightarrow> string \<Rightarrow> ('f, os_error, unit) io"
  remove_dir :: "string \<Rightarrow> ('f, os_error, unit) io"
  is_dir :: "string \<Rightarrow> 'f \<Rightarrow> bool"
  show_os_error :: "os_error \<Rightarrow> string"

record cgroup_broker =
  broker_base :: string
  broker_policy :: cgroup_policy

record scope_handle =
  scope_name :: string
  scope_path :: string
  applied_limits :: limits

abbreviation (input) newline :: string where
  "newline \<equiv> [CHR 0x0A]"

definition failure :: "'f cgroup_fs \<Rightarrow> cgroup_broker \<Rightarrow> string \<Rightarrow> os_error \<Rightarrow> supervisor_error" where
  "failure fs b what err = OperationFailed (what @ '' under '' @ broker_base b @ '': '' @ show_os_error fs err)"

definition unprepared_subtree :: "string \<Rightarrow> supervisor_error" where
  "unprepared_subtree what =
     OperationFailed (what @ ''. The supervisor will not run with a cgroup subtree it cannot limit: start it in a slice with '' @
       tick @ ''Delegate=yes'' @ tick @ '', or name an already-prepared subtree with '' @ tick @ ''cgroup.base_override'' @ tick)"

section \<open>Files of a scope\<close>

definition write_control :: "'f cgroup_fs \<Rightarrow> cgroup_broker \<Rightarrow> string \<Rightarrow> string \<Rightarrow> string \<Rightarrow> ('f, supervisor_error, unit) io" where
  "write_control fs b scope file contents =
     on_err (failure fs b (''write '' @ file)) (write_file fs (path_join scope file) (contents @ newline))"

text \<open>\<open>write_one_pid\<close>: the digits and the newline are one append.\<close>

definition write_pid :: "'f cgroup_fs \<Rightarrow> string \<Rightarrow> u32 \<Rightarrow> ('f, os_error, unit) io" where
  "write_pid fs procs pid = append_file fs procs (show_nat (unat pid) @ newline)"

definition existing_scope_dir :: "'f cgroup_fs \<Rightarrow> cgroup_broker \<Rightarrow> string \<Rightarrow> ('f, supervisor_error, string) io" where
  "existing_scope_dir fs b scope =
     and_then (of_result (scope_dir (broker_base b) scope)) (\<lambda>path f.
       if is_dir fs path f then (Inr path, f) else (Inl (NotFound scope), f))"

definition scope_procs_path :: "'f cgroup_fs \<Rightarrow> cgroup_broker \<Rightarrow> string \<Rightarrow> ('f, supervisor_error, string) io" where
  "scope_procs_path fs b scope = and_then (existing_scope_dir fs b scope) (\<lambda>path. ret (path_join path ''cgroup.procs''))"

definition when_some :: "'a option \<Rightarrow> ('a \<Rightarrow> ('f, 'e, unit) io) \<Rightarrow> ('f, 'e, unit) io" where
  "when_some x f = (case x of None \<Rightarrow> ret () | Some a \<Rightarrow> f a)"

definition create_scope :: "'f cgroup_fs \<Rightarrow> cgroup_broker \<Rightarrow> string \<Rightarrow> limits \<Rightarrow> ('f, supervisor_error, scope_handle) io" where
  "create_scope fs b name requested =
     and_then (of_result (scope_dir (broker_base b) name)) (\<lambda>path.
     and_then (of_result (clamp_limits (broker_policy b) requested)) (\<lambda>applied.
     and_then (on_err (failure fs b ''create scope directory'') (make_dirs fs path)) (\<lambda>_.
     and_then (when_some (memory_max applied) (\<lambda>m. write_control fs b path ''memory.max'' (show_nat (unat m)))) (\<lambda>_.
     and_then (when_some (cpu_limit applied) (\<lambda>c. write_control fs b path ''cpu.max'' c)) (\<lambda>_.
     and_then (when_some (pids_max applied) (\<lambda>p. write_control fs b path ''pids.max'' (show_nat (unat p)))) (\<lambda>_.
       ret \<lparr>scope_name = name, scope_path = path, applied_limits = applied\<rparr>))))))"

definition attach_pid :: "'f cgroup_fs \<Rightarrow> cgroup_broker \<Rightarrow> string \<Rightarrow> u32 \<Rightarrow> ('f, supervisor_error, unit) io" where
  "attach_pid fs b scope pid =
     and_then (scope_procs_path fs b scope) (\<lambda>procs. on_err (failure fs b ''write cgroup.procs'') (write_pid fs procs pid))"

definition destroy_scope :: "'f cgroup_fs \<Rightarrow> cgroup_broker \<Rightarrow> string \<Rightarrow> ('f, supervisor_error, unit) io" where
  "destroy_scope fs b scope =
     and_then (existing_scope_dir fs b scope) (\<lambda>path. on_err (failure fs b ''remove scope directory'') (remove_dir fs path))"

section \<open>Removing the scope of a session that has exited\<close>

datatype removal_failure = AlreadyGone | FailedPopulated | Permanent

definition ebusy :: os_error where
  "ebusy = Errno 16"

definition classify_removal_failure :: "os_error \<Rightarrow> removal_failure" where
  "classify_removal_failure err = (if err = ENOENT then AlreadyGone else if err = ebusy then FailedPopulated else Permanent)"

datatype scope_removal = Removed | StillPopulated | RemovalFailed string

definition remove_scope_dir :: "'f cgroup_fs \<Rightarrow> string \<Rightarrow> 'f \<Rightarrow> scope_removal \<times> 'f" where
  "remove_scope_dir fs scope f =
     (case remove_dir fs scope f of
        (Inr _, f') \<Rightarrow> (Removed, f')
      | (Inl err, f') \<Rightarrow>
          ((case classify_removal_failure err of
              AlreadyGone \<Rightarrow> Removed
            | FailedPopulated \<Rightarrow> StillPopulated
            | Permanent \<Rightarrow> RemovalFailed (''remove scope directory '' @ scope @ '': '' @ show_os_error fs err)), f'))"

section \<open>Preparing the subtree\<close>

definition leaf_dir :: "cgroup_broker \<Rightarrow> supervisor_error + string" where
  "leaf_dir b =
     (let leaf = supervisor_leaf (broker_policy b)
      in if \<not> names_one_directory leaf
         then Inl (Invalid (''cgroup.supervisor_leaf '' @ tick @ leaf @ tick @
           '' must name one directory immediately under the delegated base''))
         else Inr (path_join (broker_base b) leaf))"

definition subtree_control_line :: "string list \<Rightarrow> string option" where
  "subtree_control_line cs = (if cs = [] then None else Some (join_with '' '' (map (\<lambda>c. ''+'' @ c) cs)))"

definition prepare_delegated_subtree :: "'f cgroup_fs \<Rightarrow> cgroup_broker \<Rightarrow> u32 \<Rightarrow> ('f, supervisor_error, unit) io" where
  "prepare_delegated_subtree fs b self_pid =
     and_then (of_result (leaf_dir b)) (\<lambda>leaf.
     and_then (on_err (\<lambda>err. unprepared_subtree (''create the supervisor leaf '' @ leaf @ '': '' @ show_os_error fs err)) (make_dirs fs leaf)) (\<lambda>_.
     and_then (on_err (\<lambda>err. unprepared_subtree (''move the supervisor into '' @ leaf @ '': '' @ show_os_error fs err @
           ''. cgroup v2 refuses to delegate controllers from a cgroup that still holds processes, so the supervisor has to '' @
           ''leave the base before it can carve a scope out of it''))
         (write_pid fs (path_join leaf ''cgroup.procs'') self_pid)) (\<lambda>_.
       when_some (subtree_control_line (controllers (broker_policy b))) (\<lambda>line.
         let control = path_join (broker_base b) ''cgroup.subtree_control''
         in on_err (\<lambda>err. unprepared_subtree (''enable controllers '' @ tick @ line @ tick @ '' in '' @ control @ '': '' @
              show_os_error fs err @ ''. A scope cannot carry the limits this policy declares without them''))
            (write_file fs control (line @ newline))))))"

definition cgroup_v2_path :: "string \<Rightarrow> string option" where
  "cgroup_v2_path proc_cgroup =
     map_option trim (List.find (\<lambda>_. True) (List.map_filter (strip_prefix ''0::'') (str_lines proc_cgroup)))"

text \<open>The contents of \<open>/proc/self/cgroup\<close>, or the error of reading it, are an argument.\<close>

definition resolve_cgroup_base :: "cgroup_policy \<Rightarrow> string + string \<Rightarrow> string + string" where
  "resolve_cgroup_base pol proc_self =
     (case base_override pol of
        Some b \<Rightarrow> Inr b
      | None \<Rightarrow>
          try_then (map_err (\<lambda>err. ''read /proc/self/cgroup: '' @ err) proc_self) (\<lambda>own.
          try_then (ok_or (''no cgroup v2 ('' @ tick @ ''0::'' @ tick @
              '') line in /proc/self/cgroup; set cgroup.base_override instead'') (cgroup_v2_path own)) (\<lambda>relative.
            Inr (path_join (mount_root pol) (trim_start_char CHR ''/'' relative)))))"

section \<open>What requests do to the subtree\<close>

datatype fs_op = MakeDir string | WriteFile string string | AppendFile string string | RemoveDir string

definition traced :: "'f cgroup_fs \<Rightarrow> ('f \<times> fs_op list) cgroup_fs" where
  "traced fs =
     \<lparr>make_dirs = (\<lambda>p (f, log). case make_dirs fs p f of (r, f') \<Rightarrow> (r, (f', log @ [MakeDir p]))),
      write_file = (\<lambda>p c (f, log). case write_file fs p c f of (r, f') \<Rightarrow> (r, (f', log @ [WriteFile p c]))),
      append_file = (\<lambda>p c (f, log). case append_file fs p c f of (r, f') \<Rightarrow> (r, (f', log @ [AppendFile p c]))),
      remove_dir = (\<lambda>p (f, log). case remove_dir fs p f of (r, f') \<Rightarrow> (r, (f', log @ [RemoveDir p]))),
      is_dir = (\<lambda>p (f, log). is_dir fs p f),
      show_os_error = show_os_error fs\<rparr>"

text \<open>The operations that stay within the scope directory \<open>dir\<close> and within the ceilings.\<close>

definition within :: "u64 option \<Rightarrow> u64 \<Rightarrow> bool" where
  "within ceiling v \<longleftrightarrow> (case ceiling of None \<Rightarrow> True | Some c \<Rightarrow> v \<le> c)"

definition cpu_within :: "string option \<Rightarrow> string \<Rightarrow> bool" where
  "cpu_within ceiling text \<longleftrightarrow>
     (case ceiling of
        None \<Rightarrow> True
      | Some ct \<Rightarrow> \<exists>c q. cpu_max_from_str ct = Inr c \<and> cpu_max_from_str text = Inr q \<and>
          quota_us q \<le> quota_us c \<and> period_us q = period_us c)"

fun scope_op :: "cgroup_policy \<Rightarrow> string \<Rightarrow> fs_op \<Rightarrow> bool" where
  "scope_op pol dir (MakeDir p) \<longleftrightarrow> p = dir"
| "scope_op pol dir (RemoveDir p) \<longleftrightarrow> p = dir"
| "scope_op pol dir (AppendFile p c) \<longleftrightarrow> p = path_join dir ''cgroup.procs'' \<and> (\<exists>pid :: u32. c = show_nat (unat pid) @ newline)"
| "scope_op pol dir (WriteFile p c) \<longleftrightarrow>
     (\<exists>v. p = path_join dir ''memory.max'' \<and> c = show_nat (unat v) @ newline \<and> within (memory_max_ceiling pol) v) \<or>
     (\<exists>v. p = path_join dir ''pids.max'' \<and> c = show_nat (unat v) @ newline \<and> within (pids_max_ceiling pol) v) \<or>
     (\<exists>text. p = path_join dir ''cpu.max'' \<and> c = text @ newline \<and> cpu_within (cpu_max_ceiling pol) text)"

lemma only_traced [only_intros]:
  "Q (MakeDir p) \<Longrightarrow> only Q (make_dirs (traced fs) p)"
  "Q (WriteFile p c) \<Longrightarrow> only Q (write_file (traced fs) p c)"
  "Q (AppendFile p c) \<Longrightarrow> only Q (append_file (traced fs) p c)"
  "Q (RemoveDir p) \<Longrightarrow> only Q (remove_dir (traced fs) p)"
  by (auto simp: only_def traced_def split: prod.splits)

lemma only_of_result_then: "(\<And>a. r = Inr a \<Longrightarrow> only Q (f a)) \<Longrightarrow> only Q (and_then (of_result r) f)"
  by (cases r) (auto simp: only_def and_then_def of_result_def)

lemma only_when_some: "(\<And>a. x = Some a \<Longrightarrow> only Q (f a)) \<Longrightarrow> only Q (when_some x f)"
  by (cases x) (auto simp: when_some_def intro: only_ret)

lemma only_existing_scope_dir:
  assumes "\<And>dir. scope_dir (broker_base b) scope = Inr dir \<Longrightarrow> only Q (k dir)"
  shows "only Q (and_then (existing_scope_dir fs b scope) k)"
proof (cases "scope_dir (broker_base b) scope")
  case (Inl e)
  then show ?thesis by (simp add: only_def and_then_def existing_scope_dir_def of_result_def)
next
  case (Inr dir)
  have "only Q (\<lambda>f. if is_dir fs dir f then k dir f else (Inl (NotFound scope), f))"
    using assms [OF Inr] unfolding only_def by simp
  moreover have "and_then (existing_scope_dir fs b scope) k = (\<lambda>f. if is_dir fs dir f then k dir f else (Inl (NotFound scope), f))"
    by (rule ext) (simp add: and_then_def existing_scope_dir_def of_result_def Inr)
  ultimately show ?thesis by simp
qed

lemma clamped_within:
  assumes "clamp_limits pol requested = Inr applied"
  shows "memory_max applied = Some m \<Longrightarrow> within (memory_max_ceiling pol) m"
    and "pids_max applied = Some p \<Longrightarrow> within (pids_max_ceiling pol) p"
    and "cpu_limit applied = Some c \<Longrightarrow> cpu_within (cpu_max_ceiling pol) c"
proof -
  obtain cpu where cpu: "clamp_cpu (cpu_limit requested) (cpu_max_ceiling pol) = Inr cpu"
      and applied: "applied = \<lparr>memory_max = clamp_scalar (memory_max requested) (memory_max_ceiling pol), cpu_limit = cpu,
            pids_max = clamp_scalar (pids_max requested) (pids_max_ceiling pol)\<rparr>"
    using assms by (auto simp: clamp_limits_def try_then_Inr)
  have scalar: "clamp_scalar r ceiling = Some v \<Longrightarrow> within ceiling v" for r ceiling v
    by (cases r; cases ceiling) (auto simp: within_def)
  show "memory_max applied = Some m \<Longrightarrow> within (memory_max_ceiling pol) m"
    and "pids_max applied = Some p \<Longrightarrow> within (pids_max_ceiling pol) p"
    by (auto simp: applied dest: scalar)
  show "cpu_limit applied = Some c \<Longrightarrow> cpu_within (cpu_max_ceiling pol) c"
    using cpu clamp_cpu_ceiling by (cases "cpu_max_ceiling pol") (fastforce simp: applied cpu_within_def)+
qed

lemma create_scope_only:
  assumes "\<And>dir op. scope_dir (broker_base b) name = Inr dir \<Longrightarrow> scope_op (broker_policy b) dir op \<Longrightarrow> Q op"
  shows "only Q (create_scope (traced fs) b name requested)"
  unfolding create_scope_def
proof (rule only_of_result_then, rule only_of_result_then)
  fix dir applied assume dir: "scope_dir (broker_base b) name = Inr dir" and "clamp_limits (broker_policy b) requested = Inr applied"
  note within = clamped_within [OF this(2)]
  note Q = assms [OF dir]
  show "only Q
     (and_then (on_err (failure (traced fs) b ''create scope directory'') (make_dirs (traced fs) dir)) (\<lambda>_.
      and_then (when_some (memory_max applied) (\<lambda>m. write_control (traced fs) b dir ''memory.max'' (show_nat (unat m)))) (\<lambda>_.
      and_then (when_some (cpu_limit applied) (\<lambda>c. write_control (traced fs) b dir ''cpu.max'' c)) (\<lambda>_.
      and_then (when_some (pids_max applied) (\<lambda>p. write_control (traced fs) b dir ''pids.max'' (show_nat (unat p)))) (\<lambda>_.
        ret \<lparr>scope_name = name, scope_path = dir, applied_limits = applied\<rparr>)))))"
    unfolding write_control_def by (intro only_intros only_when_some Q) (auto dest: within)
qed

lemma attach_pid_only:
  assumes "\<And>dir op. scope_dir (broker_base b) name = Inr dir \<Longrightarrow> scope_op (broker_policy b) dir op \<Longrightarrow> Q op"
  shows "only Q (attach_pid (traced fs) b name pid)"
proof -
  have "attach_pid (traced fs) b name pid = and_then (existing_scope_dir (traced fs) b name) (\<lambda>dir.
      on_err (failure (traced fs) b ''write cgroup.procs'') (write_pid (traced fs) (path_join dir ''cgroup.procs'') pid))"
    by (rule ext) (auto simp: attach_pid_def scope_procs_path_def and_then_def ret_def split: prod.splits sum.splits)
  moreover have "Q (AppendFile (path_join dir ''cgroup.procs'') (show_nat (unat pid) @ newline))"
    if "scope_dir (broker_base b) name = Inr dir" for dir
    by (rule assms [OF that]) auto
  ultimately show ?thesis unfolding write_pid_def by (auto intro!: only_existing_scope_dir only_intros)
qed

lemma destroy_scope_only:
  assumes "\<And>dir op. scope_dir (broker_base b) name = Inr dir \<Longrightarrow> scope_op (broker_policy b) dir op \<Longrightarrow> Q op"
  shows "only Q (destroy_scope (traced fs) b name)"
  unfolding destroy_scope_def by (intro only_existing_scope_dir only_intros) (auto intro: assms)

definition stays_in_scope :: "cgroup_broker \<Rightarrow> string \<Rightarrow> fs_op \<Rightarrow> bool" where
  "stays_in_scope b name op \<longleftrightarrow>
     (\<exists>dir. components dir = components (broker_base b) @ [Normal (''tddy-'' @ name @ ''.scope'')] \<and> scope_op (broker_policy b) dir op)"

lemma stays_in_scopeI: "scope_dir (broker_base b) name = Inr dir \<Longrightarrow> scope_op (broker_policy b) dir op \<Longrightarrow> stays_in_scope b name op"
  unfolding stays_in_scope_def using scope_dir_child by blast

text \<open>
  Whatever the file system answers, a request on a scope touches nothing but one immediate child of the delegated
  base, named after the scope, and that directory's control files: it creates or removes the directory, appends one
  process id in a single write, and writes limits that are within the ceilings of the policy.
\<close>

theorem requests_stay_in_scope:
  "only (stays_in_scope b name) (create_scope (traced fs) b name requested) \<and>
   only (stays_in_scope b name) (attach_pid (traced fs) b name pid) \<and>
   only (stays_in_scope b name) (destroy_scope (traced fs) b name)"
  by (intro conjI create_scope_only attach_pid_only destroy_scope_only stays_in_scopeI)

end
