(* ===== verification/Supervisor_Server.thy ===== *)
theory Supervisor_Server
  imports Supervisor_Child Supervisor_Cgroups
begin

text \<open>
  The privileged surface (\<open>tddy-supervisor\<close>, \<open>server.rs\<close>, \<open>server/rpc.rs\<close>, \<open>relay.rs\<close>, the errors of \<open>protocol.rs\<close>):
  every request passes the gate of peers, then the gates of policy, and only then reaches the fork, the session table
  or the cgroup subtree. What the host answers is a parameter: its accounts, its path resolution, its cgroup files, its
  sockets, and the outcome of a fork.
\<close>

section \<open>Errors on the wire\<close>

datatype code =
    CodeOk | Cancelled | Unknown | InvalidArgument | DeadlineExceeded | CodeNotFound | AlreadyExists | PermissionDenied
  | ResourceExhausted | FailedPrecondition | Aborted | OutOfRange | Unimplemented | Internal | CodeUnavailable | DataLoss
  | Unauthenticated

record status =
  status_code :: code
  status_message :: string

definition denied_message :: string where
  "denied_message = ''request denied''"

fun status_from_error :: "supervisor_error \<Rightarrow> status" where
  "status_from_error Denied = \<lparr>status_code = PermissionDenied, status_message = denied_message\<rparr>"
| "status_from_error (NotFound name) = \<lparr>status_code = CodeNotFound, status_message = name\<rparr>"
| "status_from_error (Invalid message) = \<lparr>status_code = InvalidArgument, status_message = message\<rparr>"
| "status_from_error (Unavailable message) = \<lparr>status_code = CodeUnavailable, status_message = message\<rparr>"
| "status_from_error (OperationFailed message) = \<lparr>status_code = Internal, status_message = message\<rparr>"

definition error_from_status :: "status \<Rightarrow> supervisor_error" where
  "error_from_status st =
     (case status_code st of
        PermissionDenied \<Rightarrow> Denied
      | CodeNotFound \<Rightarrow> NotFound (status_message st)
      | InvalidArgument \<Rightarrow> Invalid (status_message st)
      | CodeUnavailable \<Rightarrow> Unavailable (status_message st)
      | _ \<Rightarrow> OperationFailed (status_message st))"

lemma error_roundtrip: "error_from_status (status_from_error err) = err"
  by (cases err) (simp_all add: error_from_status_def)

section \<open>Requests and the surface\<close>

record spawn_session_request =
  request_user :: string
  request_tool :: string
  request_args :: "string list"
  request_env :: variables
  request_dir :: "string option"
  request_scope :: "string option"

record spawn_relayed_request =
  relayed_user :: string
  relayed_tool :: string
  relayed_args :: "string list"
  relayed_env :: variables
  relayed_dir :: "string option"
  relay_socket :: string

record spawn_sandbox_request = spawn_session_request +
  request_mounts :: "jail_mount list"
  request_isolate :: bool

record surface =
  surface_config :: supervisor_config
  authorized_uids :: "u32 set"
  surface_broker :: cgroup_broker

text \<open>
  The answers of the host. \<open>socket_metadata\<close> says of a path whether it is a socket and who owns it; \<open>connect_peer\<close>
  connects to it and names the uid of the listener, if that can be told; \<open>fork_child\<close> is the fork broker.
\<close>

record ('d, 'f) host =
  accounts_db :: accounts
  kernel :: "'d resolver"
  cgroup_files :: "'f cgroup_fs"
  socket_metadata :: "string \<Rightarrow> (bool \<times> u32) option"
  connect_peer :: "string \<Rightarrow> u32 option option"
  fork_child :: "spawn_plan \<Rightarrow> string + u32"

record 'f served =
  files :: 'f
  sessions :: system

record resolved_spawn =
  resolved_user :: string
  resolved_program :: string
  resolved_env :: variables
  resolved_dir :: string
  resolved_target :: target_user
  resolved_procs :: "string option"

definition plan_of :: "resolved_spawn \<Rightarrow> string list \<Rightarrow> sandbox_jail option \<Rightarrow> spawn_plan" where
  "plan_of r args sandbox =
     \<lparr>plan_program = resolved_program r, plan_args = args, plan_env = resolved_env r, plan_dir = resolved_dir r,
      plan_target = resolved_target r, scope_procs = resolved_procs r, plan_output = Discard, plan_base = Minimal,
      plan_sandbox = sandbox\<rparr>"

section \<open>Resolving a spawn\<close>

definition resolve_spawn_of ::
    "('d, 'f) host \<Rightarrow> surface \<Rightarrow> 'f \<Rightarrow> string \<Rightarrow> string \<Rightarrow> string option \<Rightarrow> string option \<Rightarrow> variables \<Rightarrow> supervisor_error + resolved_spawn" where
  "resolve_spawn_of h su f os_user program working_dir scope env =
     (let pol = policy (surface_config su)
      in try_then (resolve_session_user pol os_user) (\<lambda>user.
         try_then (resolve_env pol env) (\<lambda>vars.
         try_then (case scope of
                     None \<Rightarrow> Inr None
                   | Some name \<Rightarrow> try_then (fst (scope_procs_path (cgroup_files h) (surface_broker su) name f)) (\<lambda>p. Inr (Some p))) (\<lambda>joins.
         try_then (map_err (\<lambda>_. Denied) (resolve_target_user (accounts_db h) user)) (\<lambda>target.
           Inr \<lparr>resolved_user = user, resolved_program = program, resolved_env = vars,
                resolved_dir = (case working_dir of Some d \<Rightarrow> d | None \<Rightarrow> target_home target),
                resolved_target = target, resolved_procs = joins\<rparr>)))))"

definition resolve_spawn ::
    "('d, 'f) host \<Rightarrow> surface \<Rightarrow> 'f \<Rightarrow> string \<Rightarrow> string \<Rightarrow> string option \<Rightarrow> string option \<Rightarrow> variables \<Rightarrow> supervisor_error + resolved_spawn" where
  "resolve_spawn h su f os_user tool working_dir scope env =
     try_then (resolve_tool_path (policy (surface_config su)) tool) (\<lambda>program.
       resolve_spawn_of h su f os_user program working_dir scope env)"

fun resolve_mounts :: "'d resolver \<Rightarrow> spawn_policy \<Rightarrow> jail_mount list \<Rightarrow> supervisor_error + jail_mount list" where
  "resolve_mounts k pol [] = Inr []"
| "resolve_mounts k pol (m # ms) =
     try_then (resolve_mount_source k pol (mount_source m)) (\<lambda>src.
     try_then (resolve_mounts k pol ms) (\<lambda>ms'. Inr (m\<lparr>mount_source := src\<rparr> # ms')))"

definition connect_to_callers_socket :: "('d, 'f) host \<Rightarrow> string \<Rightarrow> u32 \<Rightarrow> supervisor_error + unit" where
  "connect_to_callers_socket h path caller_uid =
     try_then (plain_absolute_path path) (\<lambda>_.
       case socket_metadata h path of
         None \<Rightarrow> Inl Denied
       | Some (is_socket, owner) \<Rightarrow>
           if \<not> is_socket \<or> owner \<noteq> caller_uid then Inl Denied
           else case connect_peer h path of
                  None \<Rightarrow> Inl Denied
                | Some peer \<Rightarrow> if peer = Some caller_uid then Inr () else Inl Denied)"

section \<open>The operations behind the gate\<close>

text \<open>\<open>spawn_outcome\<close> over the supervisor's own \<open>spawn_session\<close>: fork, then account for the child.\<close>

definition spawn :: "('d, 'f) host \<Rightarrow> spawn_plan \<Rightarrow> string \<Rightarrow> 'f served \<Rightarrow> (supervisor_error + u32) \<times> 'f served" where
  "spawn h plan kind s =
     (case fork_child h plan of
        Inl err \<Rightarrow> (Inl (OperationFailed (''spawn '' @ kind @ '': '' @ err)), s)
      | Inr pid \<Rightarrow> (Inr pid, s\<lparr>sessions := fork_session pid (scope_procs plan) (sessions s)\<rparr>))"

definition or_fail :: "'e + 'a \<Rightarrow> ('a \<Rightarrow> 's \<Rightarrow> ('e + 'b) \<times> 's) \<Rightarrow> 's \<Rightarrow> ('e + 'b) \<times> 's" where
  "or_fail r f = and_then (of_result r) f"

definition spawn_session :: "('d, 'f) host \<Rightarrow> surface \<Rightarrow> spawn_session_request \<Rightarrow> 'f served \<Rightarrow> (supervisor_error + u32) \<times> 'f served" where
  "spawn_session h su rq s =
     or_fail (resolve_spawn h su (files s) (request_user rq) (request_tool rq) (request_dir rq) (request_scope rq) (request_env rq)) (\<lambda>r.
       spawn h (plan_of r (request_args rq) None) ''session'') s"

definition spawn_relayed ::
    "('d, 'f) host \<Rightarrow> surface \<Rightarrow> spawn_relayed_request \<Rightarrow> u32 \<Rightarrow> 'f served \<Rightarrow> (supervisor_error + u32) \<times> 'f served" where
  "spawn_relayed h su rq caller_uid s =
     or_fail (resolve_relay_tool_path (policy (surface_config su)) (relayed_tool rq)) (\<lambda>program.
     or_fail (resolve_spawn_of h su (files s) (relayed_user rq) program (relayed_dir rq) None (relayed_env rq)) (\<lambda>r.
     or_fail (connect_to_callers_socket h (relay_socket rq) caller_uid) (\<lambda>_.
       spawn h (plan_of r (relayed_args rq) None) ''relayed session''))) s"

definition spawn_sandbox :: "('d, 'f) host \<Rightarrow> surface \<Rightarrow> spawn_sandbox_request \<Rightarrow> 'f served \<Rightarrow> (supervisor_error + u32) \<times> 'f served" where
  "spawn_sandbox h su rq s =
     or_fail (resolve_spawn h su (files s) (request_user rq) (request_tool rq) (request_dir rq) (request_scope rq) (request_env rq)) (\<lambda>r.
     or_fail (resolve_mounts (kernel h) (policy (surface_config su)) (request_mounts rq)) (\<lambda>ms.
       spawn h (plan_of r (request_args rq) (Some \<lparr>jail_mounts = ms, isolate_network = request_isolate rq\<rparr>)) ''sandbox'')) s"

text \<open>The operations on scopes run on the files, those on sessions on the table.\<close>

definition on_files :: "('f, 'e, 'a) io \<Rightarrow> 'f served \<Rightarrow> ('e + 'a) \<times> 'f served" where
  "on_files m s = (case m (files s) of (r, f) \<Rightarrow> (r, s\<lparr>files := f\<rparr>))"

definition attach_session ::
    "('d, 'f) host \<Rightarrow> surface \<Rightarrow> string \<Rightarrow> u32 \<Rightarrow> 'f served \<Rightarrow> (supervisor_error + unit) \<times> 'f served" where
  "attach_session h su scope pid s =
     or_fail (require_running_session (sessions s) pid) (\<lambda>_. on_files (attach_pid (cgroup_files h) (surface_broker su) scope pid)) s"

definition stop_session_request :: "u32 \<Rightarrow> 'f served \<Rightarrow> (supervisor_error + session_status) \<times> 'f served" where
  "stop_session_request pid s = (case stop_session pid (sessions s) of (r, ss) \<Rightarrow> (r, s\<lparr>sessions := ss\<rparr>))"

section \<open>The handlers\<close>

definition authorize_peer :: "surface \<Rightarrow> peer_identity \<Rightarrow> status + unit" where
  "authorize_peer su peer = map_err status_from_error (authorize (authorized_uids su) peer)"

text \<open>The shape of every handler: the gate first, then the operation, its error rendered for the wire.\<close>

definition gated :: "surface \<Rightarrow> peer_identity \<Rightarrow> ('s \<Rightarrow> (supervisor_error + 'a) \<times> 's) \<Rightarrow> 's \<Rightarrow> (status + 'a) \<times> 's" where
  "gated su peer m = or_fail (authorize_peer su peer) (\<lambda>_. on_err status_from_error m)"

definition rpc_spawn_session where
  "rpc_spawn_session h su peer rq = gated su peer (spawn_session h su rq)"

definition rpc_spawn_relayed where
  "rpc_spawn_relayed h su peer rq = gated su peer (spawn_relayed h su rq (peer_uid peer))"

definition rpc_spawn_sandbox where
  "rpc_spawn_sandbox h su peer rq = gated su peer (spawn_sandbox h su rq)"

definition rpc_session_status where
  "rpc_session_status su peer pid = gated su peer (\<lambda>s :: 'f served. (session_status_of (sessions s) pid, s))"

definition rpc_stop_session where
  "rpc_stop_session su peer pid = gated su peer (stop_session_request pid)"

definition rpc_create_scope where
  "rpc_create_scope h su peer name requested =
     gated su peer (on_files (create_scope (cgroup_files h) (surface_broker su) name requested))"

definition rpc_attach_pid where
  "rpc_attach_pid h su peer scope pid = gated su peer (attach_session h su scope pid)"

definition rpc_destroy_scope where
  "rpc_destroy_scope h su peer scope = gated su peer (on_files (destroy_scope (cgroup_files h) (surface_broker su) scope))"

section \<open>What is spawned\<close>

definition granted :: "accounts \<Rightarrow> 'd resolver \<Rightarrow> spawn_policy \<Rightarrow> string list \<Rightarrow> spawn_plan \<Rightarrow> bool" where
  "granted db k pol tools plan \<longleftrightarrow>
     (\<exists>u\<in>set (allowed_session_users pol). u \<noteq> root_user \<and> resolve_target_user db u = Inr (plan_target plan)) \<and>
     target_uid (plan_target plan) \<noteq> 0 \<and> target_gid (plan_target plan) \<noteq> 0 \<and>
     is_absolute (plan_program plan) \<and> ParentDir \<notin> set (components (plan_program plan)) \<and>
     (\<exists>a\<in>set tools. path_eq a (plan_program plan)) \<and>
     (\<forall>key\<in>fst ` set (plan_env plan). key \<in> set (allowed_env_keys pol) \<and> \<not> is_loader_env_key key) \<and>
     plan_base plan = Minimal \<and> plan_output plan = Discard \<and>
     (case plan_sandbox plan of
        None \<Rightarrow> True
      | Some jail \<Rightarrow> \<forall>m\<in>set (jail_mounts jail). resolve_mount_source k pol (mount_source m) = Inr (mount_source m))"

text \<open>A successful spawn: an authorized peer, a granted plan, and the forked child in the table of sessions.\<close>

definition spawned_for ::
    "('d, 'f) host \<Rightarrow> surface \<Rightarrow> peer_identity \<Rightarrow> string list \<Rightarrow> u32 \<Rightarrow> 'f served \<Rightarrow> 'f served \<Rightarrow> bool" where
  "spawned_for h su peer tools pid s s' \<longleftrightarrow>
     peer_uid peer \<in> authorized_uids su \<and>
     (\<exists>plan. granted (accounts_db h) (kernel h) (policy (surface_config su)) tools plan \<and> fork_child h plan = Inr pid \<and>
        s' = s\<lparr>sessions := fork_session pid (scope_procs plan) (sessions s)\<rparr>)"

lemma or_fail_simps [io_simps]:
  "or_fail r f s = (Inr b, s') \<longleftrightarrow> (\<exists>a. r = Inr a \<and> f a s = (Inr b, s'))"
  "or_fail r f s = (Inl e, s') \<longleftrightarrow> (r = Inl e \<and> s' = s) \<or> (\<exists>a. r = Inr a \<and> f a s = (Inl e, s'))"
  by (auto simp: or_fail_def io_simps)

lemma gated_simps [io_simps]:
  "gated su peer m s = (Inr a, s') \<longleftrightarrow> peer_uid peer \<in> authorized_uids su \<and> m s = (Inr a, s')"
  "gated su peer m s = (Inl st, s') \<longleftrightarrow>
     (if peer_uid peer \<in> authorized_uids su then \<exists>err. m s = (Inl err, s') \<and> st = status_from_error err
      else st = \<lparr>status_code = PermissionDenied, status_message = denied_message\<rparr> \<and> s' = s)"
  by (auto simp: gated_def authorize_peer_def authorize_def io_simps map_err_Inr map_err_Inl split: if_splits)

lemma spawn_simps [io_simps]:
  "spawn h plan kind s = (Inr pid, s') \<longleftrightarrow>
     fork_child h plan = Inr pid \<and> s' = s\<lparr>sessions := fork_session pid (scope_procs plan) (sessions s)\<rparr>"
  "spawn h plan kind s = (Inl e, s') \<longleftrightarrow> (\<exists>err. fork_child h plan = Inl err \<and> e = OperationFailed (''spawn '' @ kind @ '': '' @ err) \<and> s' = s)"
  by (auto simp: spawn_def split: sum.splits)

lemma resolve_mounts_Inr:
  "resolve_mounts k pol ms = Inr ms' \<Longrightarrow> \<forall>m\<in>set ms'. resolve_mount_source k pol (mount_source m) = Inr (mount_source m)"
proof (induction ms arbitrary: ms')
  case (Cons m ms)
  then obtain src rest where src: "resolve_mount_source k pol (mount_source m) = Inr src" and rest: "resolve_mounts k pol ms = Inr rest"
      and ms': "ms' = m\<lparr>mount_source := src\<rparr> # rest"
    by (auto simp: try_then_Inr)
  have "src = mount_source m" using src by (auto simp: resolve_mount_source_def try_then_Inr plain_absolute_path_Inr)
  with src Cons.IH [OF rest] ms' show ?case by simp
qed simp

lemma resolve_spawn_of_granted:
  assumes "resolve_spawn_of h su f user program dir scope env = Inr r"
    and "is_absolute program" "ParentDir \<notin> set (components program)" "\<exists>a\<in>set tools. path_eq a program"
    and "case jail of None \<Rightarrow> True | Some j \<Rightarrow> \<forall>m\<in>set (jail_mounts j).
      resolve_mount_source (kernel h) (policy (surface_config su)) (mount_source m) = Inr (mount_source m)"
  shows "granted (accounts_db h) (kernel h) (policy (surface_config su)) tools (plan_of r args jail)"
proof -
  let ?pol = "policy (surface_config su)"
  obtain target where r: "resolved_program r = program" "resolved_env r = env" "resolved_target r = target"
      and user: "user \<in> set (allowed_session_users ?pol)" "user \<noteq> root_user"
      and target: "resolve_target_user (accounts_db h) user = Inr target"
      and env: "\<forall>key\<in>fst ` set env. \<not> is_loader_env_key key \<and> key \<in> set (allowed_env_keys ?pol)"
    using assms(1)
    by (auto simp: resolve_spawn_of_def Let_def try_then_Inr resolve_session_user_Inr resolve_env_Inr map_err_Inr)
  show ?thesis
    using r user target env assms(2-5) resolve_target_user_Inr [OF target] by (auto simp: granted_def plan_of_def)
qed

lemma spawn_session_granted:
  assumes "spawn_session h su rq s = (Inr pid, s')" and "peer_uid peer \<in> authorized_uids su"
  shows "spawned_for h su peer (allowed_tool_paths (policy (surface_config su))) pid s s'"
  using assms resolve_spawn_of_granted [where jail = None]
  by (fastforce simp: spawn_session_def resolve_spawn_def spawned_for_def io_simps try_then_Inr resolve_tool_path_Inr)

lemma spawn_relayed_granted:
  assumes "spawn_relayed h su rq caller s = (Inr pid, s')" and "peer_uid peer \<in> authorized_uids su"
  shows "spawned_for h su peer (allowed_relay_tool_paths (policy (surface_config su))) pid s s'"
  using assms resolve_spawn_of_granted [where jail = None]
  by (fastforce simp: spawn_relayed_def spawned_for_def io_simps resolve_relay_tool_path_Inr)

lemma spawn_sandbox_granted:
  assumes "spawn_sandbox h su rq s = (Inr pid, s')" and "peer_uid peer \<in> authorized_uids su"
  shows "spawned_for h su peer (allowed_tool_paths (policy (surface_config su))) pid s s'"
proof -
  obtain r ms where r: "resolve_spawn h su (files s) (request_user rq) (request_tool rq) (request_dir rq) (request_scope rq) (request_env rq) = Inr r"
      and ms: "resolve_mounts (kernel h) (policy (surface_config su)) (request_mounts rq) = Inr ms"
      and run: "spawn h (plan_of r (request_args rq) (Some \<lparr>jail_mounts = ms, isolate_network = request_isolate rq\<rparr>)) ''sandbox'' s = (Inr pid, s')"
    using assms(1) by (auto simp: spawn_sandbox_def io_simps)
  have "granted (accounts_db h) (kernel h) (policy (surface_config su)) (allowed_tool_paths (policy (surface_config su)))
      (plan_of r (request_args rq) (Some \<lparr>jail_mounts = ms, isolate_network = request_isolate rq\<rparr>))"
    using r resolve_mounts_Inr [OF ms]
    by (intro resolve_spawn_of_granted) (auto simp: resolve_spawn_def try_then_Inr resolve_tool_path_Inr)
  with run assms(2) show ?thesis unfolding spawned_for_def by (auto simp: io_simps)
qed

lemma failed_spawn_unchanged:
  "spawn_session h su rq s = (Inl e, s') \<Longrightarrow> s' = s"
  "spawn_sandbox h su sb s = (Inl e, s') \<Longrightarrow> s' = s"
  "spawn_relayed h su rl caller s = (Inl e, s') \<Longrightarrow> s' = s"
  by (auto simp: spawn_session_def spawn_sandbox_def spawn_relayed_def io_simps)

text \<open>
  C11. Whatever a caller sends and whatever the host answers, a child is forked only for a peer that owns a declared
  service, and only as a listed user other than root whose account is neither uid 0 nor gid 0, running a listed program
  (a relayed one from the list of relayed programs), with listed variables that choose no code to load, on a minimal
  environment, with mounts below the granted roots; and that child is entered in the table of sessions. A request that
  is answered with an error changes nothing.
\<close>

theorem spawned_sessions_are_granted:
  "(rpc_spawn_session h su peer rq s = (r, s') \<longrightarrow>
      (case r of Inl _ \<Rightarrow> s' = s | Inr pid \<Rightarrow> spawned_for h su peer (allowed_tool_paths (policy (surface_config su))) pid s s')) \<and>
   (rpc_spawn_sandbox h su peer sb s = (r, s') \<longrightarrow>
      (case r of Inl _ \<Rightarrow> s' = s | Inr pid \<Rightarrow> spawned_for h su peer (allowed_tool_paths (policy (surface_config su))) pid s s')) \<and>
   (rpc_spawn_relayed h su peer rl s = (r, s') \<longrightarrow>
      (case r of Inl _ \<Rightarrow> s' = s | Inr pid \<Rightarrow> spawned_for h su peer (allowed_relay_tool_paths (policy (surface_config su))) pid s s'))"
  by (cases r)
    (auto simp: rpc_spawn_session_def rpc_spawn_sandbox_def rpc_spawn_relayed_def io_simps split: if_splits
      dest: failed_spawn_unchanged spawn_session_granted spawn_sandbox_granted spawn_relayed_granted)

text \<open>A host on which every listed account exists, with one group each, and every fork succeeds.\<close>

definition sample_accounts :: accounts where
  "sample_accounts =
     \<lparr>getpwnam = (\<lambda>name. Some \<lparr>pw_uid = 1000, pw_gid = 1000, pw_name = Some name, pw_dir = Some (''/home/'' @ name)\<rparr>),
      getgrouplist = (\<lambda>name gid room. (True, 1, [gid]))\<rparr>"

definition sample_host :: "(unit, unit) host" where
  "sample_host =
     \<lparr>accounts_db = sample_accounts, kernel = all_plain,
      cgroup_files = \<lparr>make_dirs = (\<lambda>_. ret ()), write_file = (\<lambda>_ _. ret ()), append_file = (\<lambda>_ _. ret ()), remove_dir = (\<lambda>_. ret ()),
        is_dir = (\<lambda>_ _. True), show_os_error = (\<lambda>_. [])\<rparr>,
      socket_metadata = (\<lambda>_. None), connect_peer = (\<lambda>_. None), fork_child = (\<lambda>_. Inr 77)\<rparr>"

definition sample_surface :: surface where
  "sample_surface = \<lparr>surface_config = sample_config [], authorized_uids = {900}, surface_broker = \<lparr>broker_base = ''/sys/fs/cgroup/tddy'', broker_policy = default_cgroup_policy\<rparr>\<rparr>"

definition sample_request :: spawn_session_request where
  "sample_request = \<lparr>request_user = ''alice'', request_tool = ''/usr/bin/git'', request_args = [''status''], request_env = [(''TERM'', ''xterm'')],
     request_dir = None, request_scope = Some ''s1''\<rparr>"

definition sample_peer :: peer_identity where
  "sample_peer = \<lparr>peer_uid = 900, peer_gid = 900, peer_pid = 5\<rparr>"

theorem spawned_sessions_are_granted_witness:
  "\<exists>s'. rpc_spawn_session sample_host sample_surface sample_peer sample_request \<lparr>files = (), sessions = boot\<rparr> = (Inr 77, s') \<and>
     spawned_for sample_host sample_surface sample_peer [''/usr/bin/tddy-tools'', ''/usr/bin/git''] 77 \<lparr>files = (), sessions = boot\<rparr> s'"
proof -
  let ?run = "rpc_spawn_session sample_host sample_surface sample_peer sample_request \<lparr>files = (), sessions = boot\<rparr>"
  have "fst ?run = Inr 77" by code_simp
  then obtain s' where run: "?run = (Inr 77, s')" by (metis prod.collapse)
  have "allowed_tool_paths (policy (surface_config sample_surface)) = [''/usr/bin/tddy-tools'', ''/usr/bin/git'']"
    by (simp add: sample_surface_def sample_config_def)
  with spawned_sessions_are_granted [THEN conjunct1, rule_format, OF run] run show ?thesis by auto
qed

section \<open>What a session finds in its environment\<close>

text \<open>
  C13. In the environment of a session every variable is one of four kinds: the home and name of its own account, a
  variable of the request that the policy lists and that chooses no code to load, the fixed search path, or the locale
  and time zone of the supervisor. It is never told of an activation or of the supervisor's socket.
\<close>

theorem session_environment:
  assumes "granted db k pol tools plan" and "child_environ own plan (None :: unit handover option) pid = Inr env"
    and "\<forall>key\<in>set (allowed_env_keys pol). CHR ''='' \<notin> set key" and "CHR ''='' \<notin> set name" and "getenv env name = Some v"
  shows "name \<notin> {''LISTEN_PID'', ''LISTEN_FDS'', ''LISTEN_FDNAMES'', supervisor_socket_env} \<and>
    ((name = ''HOME'' \<and> v = target_home (plan_target plan) \<or>
      name \<in> {''USER'', ''LOGNAME''} \<and> v = target_name (plan_target plan)) \<or>
     ((name, v) \<in> set (plan_env plan) \<and> name \<in> set (allowed_env_keys pol) \<and> \<not> is_loader_env_key name) \<or>
     (name = ''PATH'' \<and> v = session_path \<or> name \<in> set forwarded_variables \<and> map_of own name = Some v))"
  (is "_ \<and> (?account \<or> ?requested \<or> ?fixed)")
proof -
  have base: "plan_base plan = Minimal"
      and keys: "\<forall>key\<in>fst ` set (plan_env plan). key \<in> set (allowed_env_keys pol) \<and> \<not> is_loader_env_key key"
    using assms(1) by (auto simp: granted_def)
  have "plain_names (plan_env plan)" using keys assms(3) by (auto simp: plain_names_def)
  then have val: "map_of (child_values own plan (None :: unit handover option)) name = Some v" and pid: "name \<noteq> ''LISTEN_PID''"
    using getenv_child [OF assms(2) _ _ assms(4)] base assms(5) by (auto split: if_splits)
  have special: "name \<notin> {''LISTEN_PID'', ''LISTEN_FDS'', ''LISTEN_FDNAMES'', supervisor_socket_env}"
    using val pid child_values_activation(1,2) [of own plan] child_values_activation(3) [OF base, of own] by auto
  have "?account \<or> ?requested \<or> ?fixed"
  proof (cases "name \<in> {''HOME'', ''USER'', ''LOGNAME''}")
    case True
    then have "name = ''HOME'' \<or> name = ''USER'' \<or> name = ''LOGNAME''" by (simp only: insert_iff empty_iff simp_thms)
    then have ?account
      using val child_values_account [of own plan, where 'a = unit] by (elim disjE) (simp_all only: option.inject insert_iff simp_thms)
    then show ?thesis ..
  next
    case False
    then have "(map_of (minimal_environment own) ++ map_of (rev (plan_env plan))) name = Some v"
      using val child_values_other [OF special, of own plan "None :: unit handover option"] by (simp only: base base_values_def environment_base.case simp_thms)
    then consider "map_of (rev (plan_env plan)) name = Some v" | "map_of (minimal_environment own) name = Some v"
      unfolding map_add_Some_iff by metis
    then show ?thesis
    proof cases
      case 1
      from map_of_SomeD [OF this] have "(name, v) \<in> set (plan_env plan)" by (simp only: set_rev)
      then have ?requested using keys by (metis fst_conv image_eqI)
      then show ?thesis by (rule disjI2 [OF disjI1])
    next
      case 2
      then have ?fixed using bt_minimal_environment [THEN conjunct2, of own name] by (metis option.distinct(1) option.inject)
      then show ?thesis by (rule disjI2 [OF disjI2])
    qed
  qed
  with special show ?thesis by (intro conjI)
qed

definition sample_plan :: spawn_plan where
  "sample_plan = plan_of \<lparr>resolved_user = ''alice'', resolved_program = ''/usr/bin/git'', resolved_env = [(''TERM'', ''xterm'')], resolved_dir = ''/home/alice'',
     resolved_target = \<lparr>target_uid = 1000, target_gid = 1000, target_name = ''alice'', target_home = ''/home/alice'', target_groups = [1000]\<rparr>,
     resolved_procs = None\<rparr> [''status''] None"

lemma sample_plan_granted: "granted sample_accounts all_plain (policy (sample_config [])) [''/usr/bin/git''] sample_plan"
proof -
  have "is_absolute ''/usr/bin/git''" "ParentDir \<notin> set (components ''/usr/bin/git'')" "path_eq ''/usr/bin/git'' ''/usr/bin/git''"
      "\<not> is_loader_env_key ''TERM''"
    by code_simp+
  moreover have "resolve_target_user sample_accounts ''alice'' = Inr (plan_target sample_plan)" by code_simp
  ultimately show ?thesis
    by (auto simp: granted_def sample_plan_def plan_of_def sample_config_def root_user_def)
qed

theorem session_environment_witness:
  "\<exists>env v. child_environ sample_own sample_plan (None :: unit handover option) 77 = Inr env \<and> getenv env ''USER'' = Some v \<and> v = ''alice''"
proof -
  have "\<not> isl (child_environ sample_own sample_plan (None :: unit handover option) 77)" by code_simp
  then obtain env where env: "child_environ sample_own sample_plan (None :: unit handover option) 77 = Inr env" by (auto simp: not_isl_iff)
  have "getenv (projr (child_environ sample_own sample_plan (None :: unit handover option) 77)) ''USER'' \<noteq> None" by code_simp
  then obtain v where v: "getenv env ''USER'' = Some v" by (auto simp: env)
  have "\<forall>key\<in>set (allowed_env_keys (policy (sample_config []))). CHR ''='' \<notin> set key" by code_simp
  from session_environment [OF sample_plan_granted env this _ v] env v show ?thesis
    by (auto simp: sample_plan_def plan_of_def forwarded_variables_def)
qed

end
