(* ===== verification/Tool_Network.thy ===== *)
theory Tool_Network
  imports Rust_Str
begin

text \<open>
  Which hosts a jail may reach, from the tool file to the two points that enforce it: the \<open>network\<close> section of a tool
  (\<open>tddy-actions\<close>, \<open>tool/network.rs\<close>), the union of the sections of a tool set (\<open>tddy-sandbox-recipes\<close>,
  \<open>tool_grants.rs\<close>), the policy of a jail and its spelling on the command line of the runner (\<open>tddy-sandbox\<close>,
  \<open>network.rs\<close>), and the guard that the shim inside the jail and the relay outside both ask (\<open>tddy-sandbox-runner\<close>,
  \<open>egress_policy.rs\<close>).
\<close>

section \<open>Patterns of a tool file\<close>

definition default_egress_port :: u16 where
  "default_egress_port = 443"

record declared_pattern =
  declared_host :: string
  declared_port :: u16

record pattern_error =
  refused_pattern :: string
  refused_reason :: string

abbreviation (input) tick :: string where
  "tick \<equiv> [CHR 0x60]"

fun check_labels :: "(string \<Rightarrow> 'e) \<Rightarrow> string list \<Rightarrow> 'e + unit" where
  "check_labels refuse [] = Inr ()"
| "check_labels refuse (label # labels) =
     (if label = [] then Inl (refuse ''empty label'')
      else if \<not> list_all (\<lambda>b. is_ascii_alphanumeric b \<or> b = CHR ''-'') label then Inl (refuse ''not a valid host name'')
      else check_labels refuse labels)"

definition parse_pattern :: "string \<Rightarrow> pattern_error + declared_pattern" where
  "parse_pattern pat =
     (let refuse = (\<lambda>reason. \<lparr>refused_pattern = pat, refused_reason = reason\<rparr>)
      in if contains ''://'' pat then Inl (refuse ''a scheme is not a host'')
         else try_then
           (case rsplit_once '':'' pat of
              Some (name, port) \<Rightarrow>
                try_then (ok_or (refuse ''port must be 1..=65535'')
                           (case parse_uint 65535 port of Some n \<Rightarrow> if n \<noteq> 0 then Some (of_nat n) else None | None \<Rightarrow> None))
                  (\<lambda>port. Inr (name, port))
            | None \<Rightarrow> Inr (pat, default_egress_port)) (\<lambda>(name, port).
           if CHR ''/'' \<in> set name then Inl (refuse ''a path is not part of a host'')
           else let domain = (case strip_prefix ''*.'' name of Some d \<Rightarrow> d | None \<Rightarrow> name)
                in if CHR ''*'' \<in> set domain
                   then Inl (refuse (tick @ ''*'' @ tick @ '' is only allowed as a leading '' @ tick @ ''*.'' @ tick))
                   else try_then (check_labels refuse (split_on CHR ''.'' domain)) (\<lambda>_.
                          Inr \<lparr>declared_host = map ascii_lower name, declared_port = port\<rparr>)))"

definition show_declared :: "declared_pattern \<Rightarrow> string" where
  "show_declared p = declared_host p @ '':'' @ show_nat (unat (declared_port p))"

section \<open>The section of a tool file\<close>

datatype egress = NoEgress | AnyEgress | HostsEgress "declared_pattern list"

record network_section =
  tool_egress :: egress
  oauth_inbound :: bool

text \<open>The YAML value of \<open>egress\<close>: a string, a mapping with the texts under each key, or anything else.\<close>

datatype egress_yaml = YamlText string | YamlMap "(string \<times> string list) list" | YamlOther

datatype egress_error = InvalidValue string | DuplicateHosts | UnknownField string | MissingHosts | BadPattern pattern_error | InvalidType

fun write_egress :: "egress \<Rightarrow> egress_yaml" where
  "write_egress NoEgress = YamlText ''none''"
| "write_egress AnyEgress = YamlText ''any''"
| "write_egress (HostsEgress hosts) = YamlMap [(''hosts'', map show_declared hosts)]"

fun parse_patterns :: "string list \<Rightarrow> pattern_error + declared_pattern list" where
  "parse_patterns [] = Inr []"
| "parse_patterns (t # ts) = try_then (parse_pattern t) (\<lambda>p. try_then (parse_patterns ts) (\<lambda>ps. Inr (p # ps)))"

fun read_map :: "(string \<times> string list) list \<Rightarrow> declared_pattern list option \<Rightarrow> egress_error + egress" where
  "read_map [] hosts = ok_or MissingHosts (map_option HostsEgress hosts)"
| "read_map ((key, texts) # rest) hosts =
     (if key \<noteq> ''hosts'' then Inl (UnknownField key)
      else if hosts \<noteq> None then Inl DuplicateHosts
      else try_then (map_err BadPattern (parse_patterns texts)) (\<lambda>ps. read_map rest (Some ps)))"

fun read_egress :: "egress_yaml \<Rightarrow> egress_error + egress" where
  "read_egress (YamlText t) =
     (if t = ''none'' then Inr NoEgress else if t = ''any'' then Inr AnyEgress else Inl (InvalidValue t))"
| "read_egress (YamlMap entries) = read_map entries None"
| "read_egress YamlOther = Inl InvalidType"

text \<open>A tool as the host satisfies it, with the section it was declared with.\<close>

record resolved_tool =
  resolved_id :: string
  resolved_command :: string
  resolved_binary :: string
  resolved_reads :: "string list"
  resolved_network :: network_section

section \<open>The policy of a jail\<close>

record host_pattern =
  pattern_host :: string
  pattern_port :: u16

definition eq_ignore_ascii_case :: "string \<Rightarrow> string \<Rightarrow> bool" where
  "eq_ignore_ascii_case a b \<longleftrightarrow> map ascii_lower a = map ascii_lower b"

text \<open>
  \<open>host.get(dot..)\<close> answers \<open>None\<close> off a character boundary; a byte string that starts with a dot is always on one, so
  the test of the dot decides both.
\<close>

definition is_subdomain_of :: "string \<Rightarrow> string \<Rightarrow> bool" where
  "is_subdomain_of host domain \<longleftrightarrow>
     length domain + 1 \<le> length host \<and>
     (let dot = length host - (length domain + 1)
      in domain \<noteq> [] \<and> dot > 0 \<and>
         (case strip_prefix ''.'' (drop dot host) of Some rest \<Rightarrow> eq_ignore_ascii_case rest domain | None \<Rightarrow> False))"

definition pattern_matches :: "host_pattern \<Rightarrow> string \<Rightarrow> u16 \<Rightarrow> bool" where
  "pattern_matches p host port \<longleftrightarrow>
     port = pattern_port p \<and>
     (case strip_prefix ''*.'' (pattern_host p) of
        Some domain \<Rightarrow> is_subdomain_of host domain
      | None \<Rightarrow> eq_ignore_ascii_case host (pattern_host p))"

definition show_pattern :: "host_pattern \<Rightarrow> string" where
  "show_pattern p = pattern_host p @ '':'' @ show_nat (unat (pattern_port p))"

definition host_port_from_runner_arg :: "string \<Rightarrow> host_pattern option" where
  "host_port_from_runner_arg pat =
     (case rsplit_once '':'' pat of
        None \<Rightarrow> None
      | Some (host, port) \<Rightarrow>
          if host = [] then None
          else map_option (\<lambda>n. \<lparr>pattern_host = host, pattern_port = of_nat n\<rparr>) (parse_uint 65535 port))"

datatype egress_policy = PolicyNone | PolicyAny | PolicyHosts "host_pattern list"

record policy_arg_error =
  refused_arg :: string
  arg_reason :: string

fun admits :: "egress_policy \<Rightarrow> string \<Rightarrow> u16 \<Rightarrow> bool" where
  "admits PolicyNone host port = False"
| "admits PolicyAny host port = True"
| "admits (PolicyHosts patterns) host port = list_ex (\<lambda>p. pattern_matches p host port) patterns"

fun to_runner_arg :: "egress_policy \<Rightarrow> string" where
  "to_runner_arg PolicyNone = ''none''"
| "to_runner_arg PolicyAny = ''any''"
| "to_runner_arg (PolicyHosts patterns) = ''hosts:'' @ join_with '','' (map show_pattern patterns)"

fun read_patterns :: "(string \<Rightarrow> 'e) \<Rightarrow> string list \<Rightarrow> 'e + host_pattern list" where
  "read_patterns refuse [] = Inr []"
| "read_patterns refuse (t # ts) =
     try_then (ok_or (refuse (tick @ t @ tick @ '' is not '' @ tick @ ''host:port'' @ tick)) (host_port_from_runner_arg t)) (\<lambda>p.
     try_then (read_patterns refuse ts) (\<lambda>ps. Inr (p # ps)))"

definition from_runner_arg :: "string \<Rightarrow> policy_arg_error + egress_policy" where
  "from_runner_arg arg =
     (let refuse = (\<lambda>reason. \<lparr>refused_arg = arg, arg_reason = reason\<rparr>)
      in if arg = ''none'' then Inr PolicyNone
         else if arg = ''any'' then Inr PolicyAny
         else case strip_prefix ''hosts:'' arg of
                None \<Rightarrow> Inl (refuse (''expected '' @ tick @ ''none'' @ tick @ '', '' @ tick @ ''any'' @ tick @ '' or '' @ tick @
                               ''hosts:<host:port>,'' @ [CHR 0xE2, CHR 0x80, CHR 0xA6] @ tick))
              | Some list \<Rightarrow>
                  if list = [] then Inr (PolicyHosts [])
                  else try_then (read_patterns refuse (split_on CHR '','' list)) (\<lambda>ps. Inr (PolicyHosts ps)))"

section \<open>The union of a tool set\<close>

definition add_pattern :: "declared_pattern \<Rightarrow> host_pattern list \<Rightarrow> host_pattern list" where
  "add_pattern d lowered =
     (let p = \<lparr>pattern_host = declared_host d, pattern_port = declared_port d\<rparr>
      in if p \<in> set lowered then lowered else lowered @ [p])"

fun lower_sections :: "resolved_tool list \<Rightarrow> host_pattern list option \<Rightarrow> egress_policy" where
  "lower_sections [] hosts = (case hosts of Some hs \<Rightarrow> PolicyHosts hs | None \<Rightarrow> PolicyNone)"
| "lower_sections (tool # tools) hosts =
     (case tool_egress (resolved_network tool) of
        NoEgress \<Rightarrow> lower_sections tools hosts
      | AnyEgress \<Rightarrow> PolicyAny
      | HostsEgress declared \<Rightarrow>
          lower_sections tools (Some (fold add_pattern declared (case hosts of Some hs \<Rightarrow> hs | None \<Rightarrow> []))))"

definition lower_network :: "resolved_tool list \<Rightarrow> egress_policy \<times> bool" where
  "lower_network tools = (lower_sections tools None, list_ex (\<lambda>tool. oauth_inbound (resolved_network tool)) tools)"

section \<open>The guard\<close>

record egress_guard =
  guard_policy :: egress_policy
  guard_session :: string
  guard_tools :: "string list"

record egress_refusal =
  refusal_session :: string
  refusal_host :: string
  refusal_port :: u32
  refusal_tools :: "string list"

definition refusal :: "egress_guard \<Rightarrow> string \<Rightarrow> u32 \<Rightarrow> egress_refusal" where
  "refusal g host port =
     \<lparr>refusal_session = guard_session g, refusal_host = host, refusal_port = port, refusal_tools = guard_tools g\<rparr>"

definition guard_check :: "egress_guard \<Rightarrow> string \<Rightarrow> u16 \<Rightarrow> egress_refusal + unit" where
  "guard_check g host port =
     (if admits (guard_policy g) host port then Inr () else Inl (refusal g host (ucast port)))"

definition check_wire_port :: "egress_guard \<Rightarrow> string \<Rightarrow> u32 \<Rightarrow> egress_refusal + unit" where
  "check_wire_port g host port =
     (if unat port \<le> 65535 then guard_check g host (ucast port) else Inl (refusal g host port))"

definition show_refusal :: "egress_refusal \<Rightarrow> string" where
  "show_refusal r =
     ''egress to '' @ refusal_host r @ '':'' @ show_nat (unat (refusal_port r)) @ '' refused for session '' @ refusal_session r @
     '': not declared by tool set ['' @ join_with '', '' (refusal_tools r) @ '']''"

abbreviation (input) crlf :: string where
  "crlf \<equiv> [CHR 0x0D, CHR 0x0A]"

definition forbidden_response :: "egress_refusal \<Rightarrow> string" where
  "forbidden_response r =
     (let body = show_refusal r
      in ''HTTP/1.1 403 Forbidden'' @ crlf @ ''Content-Type: text/plain'' @ crlf @ ''Content-Length: '' @ show_nat (length body) @
         crlf @ ''Connection: close'' @ crlf @ crlf @ body)"

section \<open>Accepted patterns\<close>

text \<open>Labels of lower-case letters, digits and dashes, separated by dots.\<close>

definition host_name :: "string \<Rightarrow> bool" where
  "host_name d \<longleftrightarrow> list_all (\<lambda>l. l \<noteq> [] \<and> list_all (\<lambda>b. is_ascii_lower_or_digit b \<or> b = CHR ''-'') l) (split_on CHR ''.'' d)"

definition declared_ok :: "declared_pattern \<Rightarrow> bool" where
  "declared_ok p \<longleftrightarrow> declared_port p \<noteq> 0 \<and> (\<exists>d. host_name d \<and> (declared_host p = d \<or> declared_host p = ''*.'' @ d))"

lemma host_name_chars: "host_name d \<Longrightarrow> c \<in> set d \<Longrightarrow> is_ascii_lower_or_digit c \<or> c = CHR ''-'' \<or> c = CHR ''.''"
  using split_on_covers [of c d "CHR ''.''"] by (auto simp: host_name_def list_all_iff)

lemma host_name_special:
  assumes "host_name d"
  shows "CHR ''*'' \<notin> set d" "CHR ''/'' \<notin> set d" "CHR '':'' \<notin> set d" "CHR '','' \<notin> set d"
  using host_name_chars [OF assms, of "CHR ''*''"] host_name_chars [OF assms, of "CHR ''/''"]
    host_name_chars [OF assms, of "CHR '':''"] host_name_chars [OF assms, of "CHR '',''"]
  by (auto simp: is_ascii_lower_or_digit_def)

lemma host_name_not_Nil: "host_name d \<Longrightarrow> d \<noteq> []"
  by (auto simp: host_name_def)

lemma ascii_lower_not_letter:
  assumes "(of_char c :: nat) \<notin> {65..90} \<union> {97..122}"
  shows "ascii_lower x = c \<longleftrightarrow> x = c"
proof (cases "(of_char x :: nat) \<in> {65..90}")
  case True
  then have "(of_char (ascii_lower x) :: nat) = of_char x + 32" by (auto simp: ascii_lower_def)
  then show ?thesis using assms True by auto
qed (auto simp: ascii_lower_def Let_def)

lemma ascii_lower_fixes:
  "ascii_lower x = CHR ''.'' \<longleftrightarrow> x = CHR ''.''" "ascii_lower x = CHR ''-'' \<longleftrightarrow> x = CHR ''-''"
  "ascii_lower x = CHR ''*'' \<longleftrightarrow> x = CHR ''*''"
  by (rule ascii_lower_not_letter, simp)+

lemma ascii_lower_kept: "ascii_lower (CHR ''.'') = CHR ''.''" "ascii_lower (CHR ''-'') = CHR ''-''" "ascii_lower (CHR ''*'') = CHR ''*''"
  by (simp_all add: ascii_lower_fixes)

lemma host_name_lower: "host_name d \<Longrightarrow> map ascii_lower d = d"
proof (intro map_idI)
  fix c assume "host_name d" and "c \<in> set d"
  then show "ascii_lower c = c"
    using host_name_chars [of d c] by (auto simp: lower_or_digit_lower ascii_lower_kept)
qed

lemma check_labels_ok: "check_labels refuse ls = Inr () \<longleftrightarrow>
    list_all (\<lambda>l. l \<noteq> [] \<and> list_all (\<lambda>b. is_ascii_alphanumeric b \<or> b = CHR ''-'') l) ls"
  by (induction ls) auto

lemma host_name_of_labels: "check_labels refuse (split_on CHR ''.'' d) = Inr () \<Longrightarrow> host_name (map ascii_lower d)"
  unfolding host_name_def check_labels_ok
  by (auto simp: split_on_map ascii_lower_fixes list_all_iff dest: alphanumeric_lower)

lemma labels_of_host_name: "host_name d \<Longrightarrow> check_labels refuse (split_on CHR ''.'' d) = Inr ()"
  unfolding host_name_def check_labels_ok
  by (auto simp: list_all_iff is_ascii_lower_or_digit_def is_ascii_alphanumeric_def Let_def)

lemma parse_port_nonzero: "parse_uint 65535 t = Some n \<Longrightarrow> n \<noteq> 0 \<Longrightarrow> (of_nat n :: u16) \<noteq> 0"
  by (auto simp: parse_uint_def Let_def word_of_nat_eq_0_iff dest: nat_dvd_not_less split: option.splits if_splits)

lemma parse_pattern_ok:
  assumes "parse_pattern pat = Inr p"
  shows "declared_ok p"
proof -
  let ?refuse = "\<lambda>reason. \<lparr>refused_pattern = pat, refused_reason = reason\<rparr>"
  obtain name port where split: "(case rsplit_once '':'' pat of
        Some (name, port) \<Rightarrow> try_then (ok_or (?refuse ''port must be 1..=65535'')
          (case parse_uint 65535 port of Some n \<Rightarrow> if n \<noteq> 0 then Some (of_nat n) else None | None \<Rightarrow> None)) (\<lambda>port. Inr (name, port))
      | None \<Rightarrow> Inr (pat, default_egress_port)) = Inr (name, port)"
    and p: "p = \<lparr>declared_host = map ascii_lower name, declared_port = port\<rparr>"
    and labels: "check_labels ?refuse (split_on CHR ''.'' (case strip_prefix ''*.'' name of Some d \<Rightarrow> d | None \<Rightarrow> name)) = Inr ()"
    using assms unfolding parse_pattern_def Let_def by (simp add: try_then_Inr split: if_splits) blast
  have port: "port \<noteq> 0"
    using split parse_port_nonzero
    by (auto simp: try_then_Inr default_egress_port_def split: option.splits if_splits)
  show ?thesis
  proof (cases "strip_prefix ''*.'' name")
    case None
    then show ?thesis using labels port p by (auto simp: declared_ok_def intro!: exI [of _ "map ascii_lower name"] host_name_of_labels)
  next
    case (Some d)
    then have "map ascii_lower name = ''*.'' @ map ascii_lower d" by (auto simp: strip_prefix_iff ascii_lower_kept)
    then show ?thesis
      using Some labels port p by (auto simp: declared_ok_def intro!: exI [of _ "map ascii_lower d"] host_name_of_labels)
  qed
qed

lemma digit_special: "CHR '':'' \<notin> set (show_nat n)" "CHR ''/'' \<notin> set (show_nat n)" "CHR '','' \<notin> set (show_nat n)"
  using show_nat_digits [of "CHR '':''" n] show_nat_digits [of "CHR ''/''" n] show_nat_digits [of "CHR '',''" n]
  by (auto simp: is_digit_def)

lemma parse_port: "parse_uint 65535 (show_nat (unat (port :: u16))) = Some (unat port)"
  using unsigned_less [of port, where 'a = nat] by (intro parse_uint_show_nat) simp

lemma parse_show_declared:
  assumes "declared_ok p"
  shows "parse_pattern (show_declared p) = Inr p"
proof -
  obtain d where d: "host_name d" "declared_host p = d \<or> declared_host p = ''*.'' @ d" and port: "declared_port p \<noteq> 0"
    using assms by (auto simp: declared_ok_def)
  have free: "CHR ''/'' \<notin> set (declared_host p)" "CHR ''*'' \<notin> set d"
    using d(2) host_name_special [OF d(1)] by auto
  have "\<not> contains ''://'' (show_declared p)"
    using free(1) digit_special by (auto simp: show_declared_def dest: contains_subset)
  moreover have "rsplit_once '':'' (show_declared p) = Some (declared_host p, show_nat (unat (declared_port p)))"
    using rsplit_once_last [of "CHR '':''" "show_nat (unat (declared_port p))" "declared_host p"] digit_special
    by (simp add: show_declared_def)
  moreover have "(case strip_prefix ''*.'' (declared_host p) of Some d \<Rightarrow> d | None \<Rightarrow> declared_host p) = d"
    using d(2) free(2) strip_prefix_append [of "''*.''" d] by (cases d) auto
  moreover have "map ascii_lower (declared_host p) = declared_host p"
    using d host_name_lower by (auto simp: ascii_lower_kept)
  ultimately show ?thesis
    using free port d(1) by (simp add: parse_pattern_def parse_port labels_of_host_name unat_eq_zero ok_or_def)
qed

lemma parse_patterns_ok: "parse_patterns ts = Inr ps \<Longrightarrow> list_all declared_ok ps"
  by (induction ts arbitrary: ps) (auto simp: try_then_Inr dest: parse_pattern_ok)

lemma parse_patterns_show: "list_all declared_ok ps \<Longrightarrow> parse_patterns (map show_declared ps) = Inr ps"
  by (induction ps) (simp_all add: parse_show_declared)

fun egress_ok :: "egress \<Rightarrow> bool" where
  "egress_ok (HostsEgress ps) = list_all declared_ok ps"
| "egress_ok _ = True"

lemma read_map_ok: "read_map es hosts = Inr e \<Longrightarrow> pred_option (list_all declared_ok) hosts \<Longrightarrow> egress_ok e"
  by (induction es hosts rule: read_map.induct) (auto simp: try_then_Inr dest: parse_patterns_ok split: if_splits)

lemma read_egress_ok: "read_egress y = Inr e \<Longrightarrow> egress_ok e"
  by (cases y) (auto dest: read_map_ok split: if_splits)

lemma read_write_egress: "egress_ok e \<Longrightarrow> read_egress (write_egress e) = Inr e"
  by (cases e) (simp_all add: parse_patterns_show ok_or_def)

section \<open>Matching\<close>

text \<open>What a declaration means: the name itself, or any name with a non-empty prefix and a dot before the domain.\<close>

definition reaches :: "string \<Rightarrow> string \<Rightarrow> bool" where
  "reaches declared host \<longleftrightarrow>
     (case strip_prefix ''*.'' declared of
        None \<Rightarrow> map ascii_lower host = declared
      | Some domain \<Rightarrow> (\<exists>sub. sub \<noteq> [] \<and> map ascii_lower host = sub @ ''.'' @ domain))"

lemma reaches_wildcard: "reaches (CHR ''*'' # CHR ''.'' # d) host \<longleftrightarrow> (\<exists>sub. sub \<noteq> [] \<and> map ascii_lower host = sub @ ''.'' @ d)"
  by (simp add: reaches_def)

fun declares :: "egress \<Rightarrow> string \<Rightarrow> u16 \<Rightarrow> bool" where
  "declares NoEgress host port = False"
| "declares AnyEgress host port = True"
| "declares (HostsEgress ps) host port \<longleftrightarrow> (\<exists>p\<in>set ps. declared_port p = port \<and> reaches (declared_host p) host)"

lemma subdomain_iff:
  assumes "map ascii_lower domain = domain" and "domain \<noteq> []"
  shows "is_subdomain_of host domain \<longleftrightarrow> (\<exists>sub. sub \<noteq> [] \<and> map ascii_lower host = sub @ ''.'' @ domain)"
proof
  assume sub: "is_subdomain_of host domain"
  define dot where "dot = length host - (length domain + 1)"
  have dot: "dot > 0" "dot \<le> length host" using sub by (auto simp: is_subdomain_of_def dot_def)
  obtain rest where rest: "drop dot host = ''.'' @ rest" "map ascii_lower rest = domain"
    using sub assms(1) by (auto simp: is_subdomain_of_def dot_def Let_def eq_ignore_ascii_case_def strip_prefix_iff split: option.splits)
  have "map ascii_lower host = map ascii_lower (take dot host) @ map ascii_lower (drop dot host)"
    by (simp flip: map_append)
  also have "\<dots> = map ascii_lower (take dot host) @ ''.'' @ domain" using rest by (simp add: ascii_lower_kept)
  finally show "\<exists>sub. sub \<noteq> [] \<and> map ascii_lower host = sub @ ''.'' @ domain"
    using dot by (intro exI [of _ "map ascii_lower (take dot host)"]) auto
next
  assume "\<exists>sub. sub \<noteq> [] \<and> map ascii_lower host = sub @ ''.'' @ domain"
  then obtain sub where sub: "sub \<noteq> []" "map ascii_lower host = sub @ ''.'' @ domain" by blast
  have len: "length host = length sub + (length domain + 1)" using arg_cong [OF sub(2), where f = length] by simp
  have "map ascii_lower (drop (length sub) host) = ''.'' @ domain" using sub(2) by (simp add: drop_map [symmetric])
  then obtain c rest where "drop (length sub) host = c # rest" "ascii_lower c = CHR ''.''" "map ascii_lower rest = domain"
    by (auto simp: map_eq_Cons_conv)
  then show "is_subdomain_of host domain"
    using sub(1) len assms by (auto simp: is_subdomain_of_def eq_ignore_ascii_case_def ascii_lower_fixes)
qed

lemma pattern_matches_iff:
  assumes "declared_ok d"
  shows "pattern_matches \<lparr>pattern_host = declared_host d, pattern_port = declared_port d\<rparr> host port \<longleftrightarrow>
    declared_port d = port \<and> reaches (declared_host d) host"
proof -
  obtain dom where dom: "host_name dom" "declared_host d = dom \<or> declared_host d = ''*.'' @ dom"
    using assms by (auto simp: declared_ok_def)
  note low = host_name_lower [OF dom(1)] host_name_not_Nil [OF dom(1)]
  show ?thesis
  proof (cases "declared_host d = dom")
    case True
    then have "strip_prefix ''*.'' (declared_host d) = None" using host_name_special(1) [OF dom(1)] by (cases dom) auto
    then show ?thesis using True low(1) by (auto simp: pattern_matches_def reaches_def eq_ignore_ascii_case_def)
  next
    case False
    then have "strip_prefix ''*.'' (declared_host d) = Some dom" using dom(2) by simp
    then show ?thesis using subdomain_iff [OF low] by (auto simp: pattern_matches_def reaches_def)
  qed
qed

section \<open>The union is what the tools declare\<close>

definition from_declared :: "declared_pattern list \<Rightarrow> host_pattern list \<Rightarrow> bool" where
  "from_declared ds ps \<longleftrightarrow> set ps = (\<lambda>d. \<lparr>pattern_host = declared_host d, pattern_port = declared_port d\<rparr>) ` set ds"

lemma fold_add_pattern: "from_declared ds ps \<Longrightarrow> from_declared (ds @ es) (fold add_pattern es ps)"
proof (induction es arbitrary: ds ps)
  case (Cons e es)
  have "from_declared (ds @ [e]) (add_pattern e ps)"
    using Cons.prems by (auto simp: from_declared_def add_pattern_def Let_def)
  from Cons.IH [OF this] show ?case by simp
qed simp

lemma admits_from_declared:
  assumes "from_declared ds ps" and "list_all declared_ok ds"
  shows "admits (PolicyHosts ps) host port \<longleftrightarrow> declares (HostsEgress ds) host port"
  using assms by (auto simp: from_declared_def list_ex_iff list_all_iff pattern_matches_iff)

definition lowered :: "declared_pattern list \<Rightarrow> host_pattern list option \<Rightarrow> bool" where
  "lowered ds hosts \<longleftrightarrow> list_all declared_ok ds \<and> (case hosts of None \<Rightarrow> ds = [] | Some ps \<Rightarrow> from_declared ds ps)"

lemma lowered_more:
  assumes "lowered ds hosts" and "list_all declared_ok es"
  shows "lowered (ds @ es) (Some (fold add_pattern es (case hosts of Some hs \<Rightarrow> hs | None \<Rightarrow> [])))"
  using assms fold_add_pattern [of ds _ es] fold_add_pattern [of "[]" "[]" es]
  by (auto simp: lowered_def from_declared_def split: option.splits)

lemma lower_sections_declares:
  assumes "list_all (\<lambda>tool. egress_ok (tool_egress (resolved_network tool))) tools" and "lowered ds hosts"
  shows "admits (lower_sections tools hosts) host port \<longleftrightarrow>
    declares (HostsEgress ds) host port \<or> (\<exists>tool\<in>set tools. declares (tool_egress (resolved_network tool)) host port)"
  using assms
proof (induction tools arbitrary: ds hosts)
  case Nil
  then show ?case using admits_from_declared [of ds] by (cases hosts) (auto simp: lowered_def)
next
  case (Cons tool tools)
  show ?case
  proof (cases "tool_egress (resolved_network tool)")
    case (HostsEgress es)
    then have "lowered (ds @ es) (Some (fold add_pattern es (case hosts of Some hs \<Rightarrow> hs | None \<Rightarrow> [])))"
      using Cons.prems by (intro lowered_more) simp_all
    with HostsEgress Cons show ?thesis by auto
  qed (use Cons in auto)
qed

text \<open>A pattern that can be spelled on the command line of the runner.\<close>

definition spellable :: "host_pattern \<Rightarrow> bool" where
  "spellable p \<longleftrightarrow> pattern_host p \<noteq> [] \<and> CHR '','' \<notin> set (pattern_host p)"

fun policy_spellable :: "egress_policy \<Rightarrow> bool" where
  "policy_spellable (PolicyHosts ps) = list_all spellable ps"
| "policy_spellable _ = True"

lemma lowered_spellable: "lowered ds (Some ps) \<Longrightarrow> list_all spellable ps"
  using host_name_special(4) host_name_not_Nil
  by (fastforce simp: lowered_def from_declared_def list_all_iff spellable_def declared_ok_def)

lemma lower_sections_spellable:
  assumes "list_all (\<lambda>tool. egress_ok (tool_egress (resolved_network tool))) tools" and "lowered ds hosts"
  shows "policy_spellable (lower_sections tools hosts)"
  using assms
proof (induction tools arbitrary: ds hosts)
  case Nil
  then show ?case using lowered_spellable by (cases hosts) auto
next
  case (Cons tool tools)
  show ?case
  proof (cases "tool_egress (resolved_network tool)")
    case (HostsEgress es)
    then have "lowered (ds @ es) (Some (fold add_pattern es (case hosts of Some hs \<Rightarrow> hs | None \<Rightarrow> [])))"
      using Cons.prems by (intro lowered_more) simp_all
    with HostsEgress Cons show ?thesis by auto
  qed (use Cons in auto)
qed

lemma read_show_pattern: "spellable p \<Longrightarrow> host_port_from_runner_arg (show_pattern p) = Some p"
  using rsplit_once_last [of "CHR '':''" "show_nat (unat (pattern_port p))" "pattern_host p"] digit_special(1)
  by (simp add: spellable_def host_port_from_runner_arg_def show_pattern_def parse_port)

lemma read_show_patterns: "list_all spellable ps \<Longrightarrow> read_patterns refuse (map show_pattern ps) = Inr ps"
  by (induction ps) (simp_all add: read_show_pattern ok_or_def)

lemma runner_arg_roundtrip:
  assumes "policy_spellable policy"
  shows "from_runner_arg (to_runner_arg policy) = Inr policy"
proof (cases policy)
  case (PolicyHosts ps)
  show ?thesis
  proof (cases ps)
    case (Cons p qs)
    have "CHR '','' \<notin> set t" if "t \<in> set (map show_pattern ps)" for t
      using that assms PolicyHosts digit_special(3) by (auto simp: show_pattern_def spellable_def list_all_iff)
    then have "split_on CHR '','' (join_with '','' (map show_pattern ps)) = map show_pattern ps"
      using Cons by (intro split_join) auto
    moreover have "join_with '','' (map show_pattern ps) \<noteq> []"
      using calculation Cons by (auto simp: show_pattern_def split: list.splits)
    ultimately show ?thesis
      using PolicyHosts assms by (simp add: from_runner_arg_def read_show_patterns)
  qed (use PolicyHosts in \<open>simp add: from_runner_arg_def\<close>)
qed (simp_all add: from_runner_arg_def)

text \<open>
  C29. The egress of a jail is exactly what its tools declare. For every set of resolved tools whose \<open>network\<close> sections were
  read from tool files, the policy lowered from them survives the command line of the runner, and a guard holding what
  was read back lets a connection through, at the port the wire carries, exactly when the port is one of the 16-bit
  ports and one of the tools declares \<open>any\<close>, the host itself, or a wildcard of which the host is a proper subdomain, in
  either case at that port and without regard to case.
\<close>

theorem jail_reaches_declared_hosts:
  assumes "\<forall>tool\<in>set tools. \<exists>y. read_egress y = Inr (tool_egress (resolved_network tool))"
  shows "\<exists>policy. from_runner_arg (to_runner_arg (fst (lower_network tools))) = Inr policy \<and>
    (\<forall>session ids host port.
       check_wire_port \<lparr>guard_policy = policy, guard_session = session, guard_tools = ids\<rparr> host port = Inr () \<longleftrightarrow>
       unat port < 2 ^ 16 \<and> (\<exists>tool\<in>set tools. declares (tool_egress (resolved_network tool)) host (ucast port)))"
proof -
  have ok: "list_all (\<lambda>tool. egress_ok (tool_egress (resolved_network tool))) tools"
    using assms by (auto simp: list_all_iff dest: read_egress_ok)
  have none: "lowered [] None" by (simp add: lowered_def)
  show ?thesis
    using runner_arg_roundtrip [OF lower_sections_spellable [OF ok none]] lower_sections_declares [OF ok none]
    by (auto simp: lower_network_def check_wire_port_def guard_check_def)
qed

definition sample_tools :: "resolved_tool list" where
  "sample_tools =
     [\<lparr>resolved_id = ''rg'', resolved_command = ''rg'', resolved_binary = ''/usr/bin/rg'', resolved_reads = [],
       resolved_network = \<lparr>tool_egress = NoEgress, oauth_inbound = False\<rparr>\<rparr>,
      \<lparr>resolved_id = ''agent'', resolved_command = ''agent'', resolved_binary = ''/opt/agent'', resolved_reads = [],
       resolved_network = \<lparr>tool_egress = HostsEgress [\<lparr>declared_host = ''*.example.com'', declared_port = 8443\<rparr>], oauth_inbound = False\<rparr>\<rparr>]"

theorem jail_reaches_declared_hosts_witness:
  "\<exists>policy. from_runner_arg (to_runner_arg (fst (lower_network sample_tools))) = Inr policy \<and>
     check_wire_port \<lparr>guard_policy = policy, guard_session = ''s'', guard_tools = []\<rparr> ''API.example.com'' 8443 = Inr () \<and>
     check_wire_port \<lparr>guard_policy = policy, guard_session = ''s'', guard_tools = []\<rparr> ''example.com'' 8443 \<noteq> Inr ()"
proof -
  have "host_name ''example.com''" by code_simp
  then have "egress_ok (HostsEgress [\<lparr>declared_host = ''*.example.com'', declared_port = 8443\<rparr>])"
    by (auto simp: declared_ok_def)
  then have "\<forall>tool\<in>set sample_tools. egress_ok (tool_egress (resolved_network tool))"
    by (simp add: sample_tools_def)
  then have "\<forall>tool\<in>set sample_tools. \<exists>y. read_egress y = Inr (tool_egress (resolved_network tool))"
    using read_write_egress by blast
  from jail_reaches_declared_hosts [OF this] obtain policy where
      read: "from_runner_arg (to_runner_arg (fst (lower_network sample_tools))) = Inr policy" and
      iff: "\<And>session ids host port. check_wire_port \<lparr>guard_policy = policy, guard_session = session, guard_tools = ids\<rparr> host port = Inr () \<longleftrightarrow>
       unat port < 2 ^ 16 \<and> (\<exists>tool\<in>set sample_tools. declares (tool_egress (resolved_network tool)) host (ucast port))"
    by blast
  have "map ascii_lower ''API.example.com'' = ''api'' @ ''.'' @ ''example.com''" by code_simp
  then have "reaches ''*.example.com'' ''API.example.com''"
    unfolding reaches_wildcard by blast
  moreover have "length (map ascii_lower ''example.com'') \<noteq> length (sub @ ''.'' @ ''example.com'')" for sub by simp
  then have "\<not> reaches ''*.example.com'' ''example.com''"
    unfolding reaches_wildcard by metis
  ultimately show ?thesis
    using read by (intro exI [of _ policy]) (simp add: iff sample_tools_def)
qed

end
