(* ===== verification/Dfs.thy ===== *)
theory Dfs
  imports Dag
begin

text \<open>
  Depth-first visits that refuse cycles. A visit keeps the finished vertices, in the order in which they were finished,
  and the stack of vertices being visited; meeting a vertex of the stack again is a cycle. The locale states how one
  visit and the visits of a list of vertices unfold, and gives what every such pair of functions computes: the finished
  vertices stand in dependency order, and a reported cycle is one. The build graph and the tool registry interpret it.
\<close>

section \<open>Dependency order\<close>

text \<open>Every dependency of a member stands before it.\<close>

definition built_first :: "('a \<times> 'a) set \<Rightarrow> 'a list \<Rightarrow> bool" where
  "built_first E xs \<longleftrightarrow> distinct xs \<and> (\<forall>k < length xs. E `` {xs ! k} \<subseteq> set (take k xs))"

lemma built_first_Nil [simp]: "built_first E []"
  by (simp add: built_first_def)

lemma built_first_snoc: "built_first E (xs @ [x]) \<longleftrightarrow> built_first E xs \<and> x \<notin> set xs \<and> E `` {x} \<subseteq> set xs"
  by (auto simp: built_first_def nth_append less_Suc_eq)

lemma built_first_closed: "built_first E xs \<Longrightarrow> x \<in> set xs \<Longrightarrow> (x, y) \<in> E\<^sup>* \<Longrightarrow> y \<in> set xs"
proof (rotate_tac 2, induction rule: rtrancl_induct)
  case (step y z)
  then obtain k where "k < length xs" "xs ! k = y" by (auto simp: in_set_conv_nth)
  with step show ?case unfolding built_first_def by (blast dest: in_set_takeD)
qed

lemma built_first_acyclic:
  assumes "built_first E xs" and "x \<in> set xs"
  shows "(x, x) \<notin> E\<^sup>+"
proof -
  have "topo_sorted (E\<inverse> \<inter> set xs \<times> set xs) xs"
    unfolding topo_sorted_def
  proof (intro conjI ballI)
    show "sorted_wrt (\<lambda>x y. (y, x) \<notin> E\<inverse> \<inter> set xs \<times> set xs) xs"
      unfolding sorted_wrt_iff_nth_less
    proof (intro allI impI notI)
      fix i j assume ij: "i < j" "j < length xs" and "(xs ! j, xs ! i) \<in> E\<inverse> \<inter> set xs \<times> set xs"
      have "E `` {xs ! i} \<subseteq> set (take i xs)" using assms(1) ij by (simp add: built_first_def)
      with \<open>(xs ! j, xs ! i) \<in> _\<close> have "xs ! j \<in> set (take i xs)" by auto
      then obtain k where "k < i" "xs ! k = xs ! j" using ij by (auto simp: in_set_conv_nth)
      then show False using ij assms(1) by (auto simp: built_first_def nth_eq_iff_index_eq)
    qed
    fix x assume "x \<in> set xs"
    then obtain k where k: "k < length xs" "xs ! k = x" by (auto simp: in_set_conv_nth)
    show "(x, x) \<notin> E\<inverse> \<inter> set xs \<times> set xs"
    proof
      assume "(x, x) \<in> E\<inverse> \<inter> set xs \<times> set xs"
      then have "x \<in> set (take k xs)" using assms(1) k unfolding built_first_def by auto
      then obtain m where "m < k" "xs ! m = xs ! k" using k by (auto simp: in_set_conv_nth)
      then show False using k assms(1) by (auto simp: built_first_def nth_eq_iff_index_eq)
    qed
  qed
  then have "acyclic (E\<inverse> \<inter> set xs \<times> set xs)" by (rule topo_sorted_acyclic) auto
  moreover have "E \<inter> set xs \<times> set xs = (E\<inverse> \<inter> set xs \<times> set xs)\<inverse>" by auto
  ultimately have acyc: "acyclic (E \<inter> set xs \<times> set xs)" by (simp only: acyclic_converse)
  have "(x, z) \<in> E\<^sup>+ \<Longrightarrow> (x, z) \<in> (E \<inter> set xs \<times> set xs)\<^sup>+" for z
  proof (induction rule: trancl_induct)
    case (base z)
    then have "z \<in> set xs" using built_first_closed [OF assms] by blast
    with base assms(2) show ?case by blast
  next
    case (step y z)
    have "y \<in> set xs" "z \<in> set xs"
      using built_first_closed [OF assms] step.hyps by (meson trancl_into_rtrancl rtrancl_into_rtrancl)+
    with step show ?case by (meson IntI SigmaI trancl_into_trancl)
  qed
  with acyc show ?thesis unfolding acyclic_def by blast
qed

section \<open>Cycles\<close>

text \<open>The vertices of a list, each an edge away from the one before it.\<close>

definition chain :: "('a \<times> 'a) set \<Rightarrow> 'a list \<Rightarrow> bool" where
  "chain E xs \<longleftrightarrow> (\<forall>k. Suc k < length xs \<longrightarrow> (xs ! k, xs ! Suc k) \<in> E)"

definition circle :: "('a \<times> 'a) set \<Rightarrow> 'a list \<Rightarrow> bool" where
  "circle E xs \<longleftrightarrow> xs \<noteq> [] \<and> chain E xs \<and> (last xs, hd xs) \<in> E"

lemma chain_short [simp]: "chain E []" "chain E [x]"
  by (simp_all add: chain_def)

lemma chain_snoc: "chain E (xs @ [x]) \<longleftrightarrow> chain E xs \<and> (xs \<noteq> [] \<longrightarrow> (last xs, x) \<in> E)"
proof (cases "xs = []")
  case False
  have "(\<forall>k. Suc k < length (xs @ [x]) \<longrightarrow> ((xs @ [x]) ! k, (xs @ [x]) ! Suc k) \<in> E) \<longleftrightarrow>
      (\<forall>k. Suc k < length xs \<longrightarrow> (xs ! k, xs ! Suc k) \<in> E) \<and> (xs ! (length xs - 1), x) \<in> E" (is "?l \<longleftrightarrow> ?r")
  proof
    assume l: ?l
    have "(xs ! k, xs ! Suc k) \<in> E" if "Suc k < length xs" for k using l [rule_format, of k] that by (simp add: nth_append)
    moreover have "(xs ! (length xs - 1), x) \<in> E" using l [rule_format, of "length xs - 1"] False by (simp add: nth_append)
    ultimately show ?r by blast
  next
    assume r: ?r
    show ?l
    proof (intro allI impI)
      fix k assume k: "Suc k < length (xs @ [x])"
      then have "Suc k < length xs \<or> k = length xs - 1" by auto
      then show "((xs @ [x]) ! k, (xs @ [x]) ! Suc k) \<in> E"
        using r k False by (auto simp: nth_append)
    qed
  qed
  with False show ?thesis by (simp add: chain_def last_conv_nth)
qed (simp add: chain_def)

lemma chain_append: "chain E (xs @ ys) \<longleftrightarrow> chain E xs \<and> chain E ys \<and> (xs \<noteq> [] \<and> ys \<noteq> [] \<longrightarrow> (last xs, hd ys) \<in> E)"
proof (induction ys rule: rev_induct)
  case (snoc y ys)
  have "chain E (xs @ ys @ [y]) \<longleftrightarrow> chain E (xs @ ys) \<and> (xs @ ys \<noteq> [] \<longrightarrow> (last (xs @ ys), y) \<in> E)"
    using chain_snoc [of E "xs @ ys" y] by simp
  then show ?case using snoc by (cases "ys = []") (auto simp: chain_snoc)
qed simp

text \<open>A circle read from one of its vertices, and closed.\<close>

lemma circle_from:
  assumes "circle E xs" and "k < length xs"
  shows "chain E (drop k xs @ take k xs @ [xs ! k])"
proof -
  have "chain E (take k xs @ drop k xs)" and closing: "(last xs, hd xs) \<in> E" using assms(1) by (auto simp: circle_def)
  then have parts: "chain E (take k xs)" "chain E (drop k xs)" "take k xs \<noteq> [] \<Longrightarrow> (last (take k xs), hd (drop k xs)) \<in> E"
    using assms(2) unfolding chain_append by auto
  have "hd (drop k xs) = xs ! k" "last (drop k xs) = last xs" "drop k xs \<noteq> []"
    using assms(2) by (auto simp: hd_drop_conv_nth)
  moreover have "hd (take k xs @ [xs ! k]) = hd xs" using assms(2) by (cases k; cases xs) auto
  ultimately show ?thesis using parts closing by (auto simp: chain_append)
qed

lemma chain_drop: "chain E xs \<Longrightarrow> chain E (drop k xs)"
  by (auto simp: chain_def)

lemma chain_reaches: "chain E xs \<Longrightarrow> xs \<noteq> [] \<Longrightarrow> (hd xs, last xs) \<in> E\<^sup>*"
proof (induction xs rule: rev_induct)
  case (snoc x xs)
  then show ?case by (cases "xs = []") (auto simp: chain_snoc intro: rtrancl_into_rtrancl)
qed simp

lemma circle_not_acyclic: "circle E xs \<Longrightarrow> \<not> acyclic E"
  unfolding circle_def acyclic_def using chain_reaches [of E xs] by (meson rtrancl_into_trancl1)

section \<open>The visit\<close>

text \<open>The edges between the vertices of \<open>V\<close>, from what each depends on.\<close>

definition dep_edges :: "('a \<Rightarrow> 'e + 'a list) \<Rightarrow> 'a set \<Rightarrow> ('a \<times> 'a) set" where
  "dep_edges succs V = {(i, d). i \<in> V \<and> d \<in> V \<and> (\<exists>ds. succs i = Inr ds \<and> d \<in> set ds)}"

locale depth_first =
  fixes visit :: "'a \<Rightarrow> 'a list \<Rightarrow> 'a list \<Rightarrow> 'e + 'a list"
    and visit_each :: "'a list \<Rightarrow> 'a list \<Rightarrow> 'a list \<Rightarrow> 'e + 'a list"
    and succs :: "'a \<Rightarrow> 'e + 'a list"
    and V K :: "'a set"
    and loop_error :: "'a list \<Rightarrow> 'e"
  assumes known: "finite K" "K \<subseteq> V" "\<And>i. i \<notin> K \<Longrightarrow> succs i = Inr []"
    and each: "\<And>vis st. visit_each [] vis st = Inr vis"
      "\<And>d ds vis st. visit_each (d # ds) vis st = (case visit d vis st of Inl e \<Rightarrow> Inl e | Inr vis' \<Rightarrow> visit_each ds vis' st)"
    and finished: "\<And>i vis st. set vis \<inter> set st = {} \<Longrightarrow> i \<in> set vis \<Longrightarrow> visit i vis st = Inr vis"
    and met_again: "\<And>i vis st k. set vis \<inter> set st = {} \<Longrightarrow> position (\<lambda>v. v = i) st = Some k \<Longrightarrow>
      visit i vis st = Inl (loop_error (drop k st))"
    and outside: "\<And>i vis st. i \<notin> set st \<Longrightarrow> i \<notin> V \<Longrightarrow> visit i vis st = Inr vis"
    and unreadable: "\<And>i vis st e. i \<in> V \<Longrightarrow> i \<notin> set vis \<Longrightarrow> i \<notin> set st \<Longrightarrow> succs i = Inl e \<Longrightarrow> visit i vis st = Inl e"
    and entered: "\<And>i vis st ds. i \<in> V \<Longrightarrow> i \<notin> set vis \<Longrightarrow> i \<notin> set st \<Longrightarrow> succs i = Inr ds \<Longrightarrow>
      visit i vis st = (case visit_each ds vis (st @ [i]) of Inl e \<Rightarrow> Inl e | Inr vis' \<Rightarrow> Inr (vis' @ [i]))"
begin

abbreviation edges :: "('a \<times> 'a) set" where
  "edges \<equiv> dep_edges succs V"

definition visit_ok :: "'a \<Rightarrow> 'a list \<Rightarrow> 'a list \<Rightarrow> bool" where
  "visit_ok i vis st \<longleftrightarrow> (\<forall>vis'. visit i vis st = Inr vis' \<longrightarrow> built_first edges vis \<longrightarrow> set vis \<subseteq> V \<longrightarrow> set vis \<inter> set st = {} \<longrightarrow>
     (\<exists>new. vis' = vis @ new \<and> built_first edges vis' \<and> set vis' \<subseteq> V \<and> (i \<in> V \<longrightarrow> i \<in> set vis') \<and> set new \<inter> set st = {} \<and>
       set new \<subseteq> edges\<^sup>* `` {i} \<and> (i \<in> V \<and> i \<notin> set vis \<longrightarrow> last vis' = i)))"

lemma visit_each_ok:
  assumes "\<And>d vis. visit_ok d vis st"
  shows "visit_each ds vis st = Inr vis' \<Longrightarrow> built_first edges vis \<Longrightarrow> set vis \<subseteq> V \<Longrightarrow> set vis \<inter> set st = {} \<Longrightarrow>
     \<exists>new. vis' = vis @ new \<and> built_first edges vis' \<and> set vis' \<subseteq> V \<and> set ds \<inter> V \<subseteq> set vis' \<and> set new \<inter> set st = {} \<and>
       set new \<subseteq> edges\<^sup>* `` set ds"
proof (induction ds arbitrary: vis)
  case Nil
  then show ?case by (simp add: each)
next
  case (Cons d ds)
  then obtain vis1 where v1: "visit d vis st = Inr vis1" and rest: "visit_each ds vis1 st = Inr vis'"
    by (auto simp: each split: sum.splits)
  obtain new1 where n1: "vis1 = vis @ new1" "built_first edges vis1" "set vis1 \<subseteq> V" "d \<in> V \<longrightarrow> d \<in> set vis1" "set new1 \<inter> set st = {}"
      "set new1 \<subseteq> edges\<^sup>* `` {d}"
    using assms [of d vis] v1 Cons.prems(2-4) unfolding visit_ok_def by blast
  have "set vis1 \<inter> set st = {}" using n1 Cons.prems(4) by auto
  then obtain new2 where n2: "vis' = vis1 @ new2" "built_first edges vis'" "set vis' \<subseteq> V" "set ds \<inter> V \<subseteq> set vis'" "set new2 \<inter> set st = {}"
      "set new2 \<subseteq> edges\<^sup>* `` set ds"
    using Cons.IH [OF rest n1(2,3)] by blast
  show ?case using n1 n2 by (intro exI [of _ "new1 @ new2"]) auto
qed

lemma unstacked: "i \<in> K \<Longrightarrow> i \<notin> set st \<Longrightarrow> card (K - set (st @ [i])) < card (K - set st)"
  using known(1) by (intro psubset_card_mono) auto

lemma visit_sound: "visit_ok i vis st"
proof (induction "card (K - set st)" arbitrary: i vis st rule: less_induct)
  case less
  show ?case
    unfolding visit_ok_def
  proof (intro allI impI)
    fix vis' assume v: "visit i vis st = Inr vis'" and bf: "built_first edges vis" "set vis \<subseteq> V" and disj: "set vis \<inter> set st = {}"
    let ?goal = "\<exists>new. vis' = vis @ new \<and> built_first edges vis' \<and> set vis' \<subseteq> V \<and> (i \<in> V \<longrightarrow> i \<in> set vis') \<and> set new \<inter> set st = {} \<and>
       set new \<subseteq> edges\<^sup>* `` {i} \<and> (i \<in> V \<and> i \<notin> set vis \<longrightarrow> last vis' = i)"
    have st: "i \<notin> set st"
    proof
      assume "i \<in> set st"
      then obtain k where "position (\<lambda>v. v = i) st = Some k" by (cases "position (\<lambda>v. v = i) st") (auto simp: position_None)
      then show False using v met_again [OF disj] by simp
    qed
    consider "i \<in> set vis" | "i \<notin> V" | "i \<in> V" "i \<notin> set vis" by blast
    then show ?goal
    proof cases
      case 3
      then obtain ds where ds: "succs i = Inr ds" using v st unreadable by (cases "succs i") auto
      obtain vis1 where all: "visit_each ds vis (st @ [i]) = Inr vis1" and vis': "vis' = vis1 @ [i]"
        using v entered [OF 3 st ds] by (auto split: sum.splits)
      have E: "edges `` {i} = set ds \<inter> V" using 3 ds by (auto simp: dep_edges_def)
      have "\<exists>new. vis1 = vis @ new \<and> built_first edges vis1 \<and> set vis1 \<subseteq> V \<and> set ds \<inter> V \<subseteq> set vis1 \<and>
          set new \<inter> set (st @ [i]) = {} \<and> set new \<subseteq> edges\<^sup>* `` {i}"
      proof (cases "i \<in> K")
        case False
        then have "ds = []" using known(3) ds by simp
        then show ?thesis using all bf by (simp add: each)
      next
        case True
        have ok: "visit_ok d vis (st @ [i])" for d vis using less [OF unstacked [OF True st]] .
        obtain new where new: "vis1 = vis @ new" "built_first edges vis1" "set vis1 \<subseteq> V" "set ds \<inter> V \<subseteq> set vis1" "set new \<inter> set (st @ [i]) = {}"
            "set new \<subseteq> edges\<^sup>* `` set ds"
          using visit_each_ok [OF ok all bf] disj 3 by auto
        have "x \<in> edges\<^sup>* `` {i}" if x: "x \<in> set new" for x
        proof -
          obtain d where d: "d \<in> set ds" "(d, x) \<in> edges\<^sup>*" using new(6) x by blast
          moreover have "x \<in> V" using new(1,3) x by auto
          then have "d \<in> V" using d(2) by (auto simp: dep_edges_def elim: converse_rtranclE)
          then have "(i, d) \<in> edges" using E d(1) by blast
          ultimately show ?thesis by (blast intro: converse_rtrancl_into_rtrancl)
        qed
        with new show ?thesis by blast
      qed
      then obtain new where new: "vis1 = vis @ new" "built_first edges vis1" "set vis1 \<subseteq> V" "set ds \<inter> V \<subseteq> set vis1"
          "set new \<inter> set (st @ [i]) = {}" "set new \<subseteq> edges\<^sup>* `` {i}" by blast
      have "built_first edges (vis1 @ [i])" unfolding built_first_snoc using new E 3 by auto
      then show ?goal using new vis' 3 st by (intro exI [of _ "new @ [i]"]) auto
    qed (use v finished [OF disj] outside [OF st] bf in auto)
  qed
qed

definition visit_error_ok :: "'a \<Rightarrow> 'a list \<Rightarrow> 'a list \<Rightarrow> bool" where
  "visit_error_ok i vis st \<longleftrightarrow> (\<forall>e. visit i vis st = Inl e \<longrightarrow> chain edges (st @ [i]) \<longrightarrow> set st \<subseteq> V \<longrightarrow>
     built_first edges vis \<longrightarrow> set vis \<subseteq> V \<longrightarrow> set vis \<inter> set st = {} \<longrightarrow>
     (\<exists>xs. e = loop_error xs \<and> circle edges xs) \<or> (\<exists>j\<in>V. succs j = Inl e))"

lemma visit_each_error:
  assumes "\<And>d vis. visit_error_ok d vis st" and "chain edges st" and "set st \<subseteq> V"
  shows "visit_each ds vis st = Inl e \<Longrightarrow> \<forall>d\<in>set ds \<inter> V. st \<noteq> [] \<longrightarrow> (last st, d) \<in> edges \<Longrightarrow>
     built_first edges vis \<Longrightarrow> set vis \<subseteq> V \<Longrightarrow> set vis \<inter> set st = {} \<Longrightarrow>
     (\<exists>xs. e = loop_error xs \<and> circle edges xs) \<or> (\<exists>j\<in>V. succs j = Inl e)"
proof (induction ds arbitrary: vis)
  case (Cons d ds)
  show ?case
  proof (cases "visit d vis st")
    case (Inl e')
    then have e: "visit d vis st = Inl e" using Cons.prems(1) by (simp add: each)
    then have "d \<in> V" using outside [of d st vis] assms(3) by fastforce
    then have "chain edges (st @ [d])" using assms(2) Cons.prems(2) by (simp add: chain_snoc)
    then show ?thesis using assms(1) [of d vis] e assms(3) Cons.prems(3-5) unfolding visit_error_ok_def by blast
  next
    case (Inr vis1)
    then obtain new where "built_first edges vis1" "set vis1 \<subseteq> V" "vis1 = vis @ new" "set new \<inter> set st = {}"
      using visit_sound [of d vis st] Cons.prems(3-5) unfolding visit_ok_def by blast
    moreover have "visit_each ds vis1 st = Inl e" using Inr Cons.prems(1) by (simp add: each)
    moreover have "set vis1 \<inter> set st = {}" using calculation(3,4) Cons.prems(5) by auto
    ultimately show ?thesis using Cons.IH [of vis1] Cons.prems(2) by simp
  qed
qed (simp add: each)

lemma visit_error: "visit_error_ok i vis st"
proof (induction "card (K - set st)" arbitrary: i vis st rule: less_induct)
  case less
  show ?case
    unfolding visit_error_ok_def
  proof (intro allI impI)
    fix e assume v: "visit i vis st = Inl e" and ch: "chain edges (st @ [i])" and st: "set st \<subseteq> V"
      and bf: "built_first edges vis" "set vis \<subseteq> V" and disj: "set vis \<inter> set st = {}"
    let ?goal = "(\<exists>xs. e = loop_error xs \<and> circle edges xs) \<or> (\<exists>j\<in>V. succs j = Inl e)"
    have vis: "i \<notin> set vis" using v finished [OF disj] by fastforce
    show ?goal
    proof (cases "position (\<lambda>v. v = i) st")
      case (Some k)
      then have k: "k < length st" "st ! k = i" by (auto simp: position_Some)
      have "chain edges (drop k st @ [i])" using chain_drop [OF ch, of k] k by simp
      then have "circle edges (drop k st)" using k by (auto simp: circle_def chain_snoc hd_drop_conv_nth)
      moreover have "e = loop_error (drop k st)" using v met_again [OF disj Some] by simp
      ultimately show ?goal by blast
    next
      case None
      then have fresh: "i \<notin> set st" by (auto simp: position_None)
      then have V: "i \<in> V" using v outside by fastforce
      show ?goal
      proof (cases "succs i")
        case (Inl e')
        then have "e' = e" using v unreadable [OF V vis fresh] by simp
        with Inl V show ?goal by blast
      next
        case (Inr ds)
        then have all: "visit_each ds vis (st @ [i]) = Inl e" using v entered [OF V vis fresh Inr] by (simp split: sum.splits)
        have "ds \<noteq> []" using all by (auto simp: each)
        then have K: "i \<in> K" using known(3) Inr by fastforce
        have "\<forall>d\<in>set ds \<inter> V. st @ [i] \<noteq> [] \<longrightarrow> (last (st @ [i]), d) \<in> edges" using Inr V by (auto simp: dep_edges_def)
        then show ?goal
          using visit_each_error [OF less [OF unstacked [OF K fresh]] ch _ all _ bf] st V disj vis by auto
      qed
    qed
  qed
qed

text \<open>Visiting the whole of a graph succeeds exactly when it has no cycle, provided every vertex can be read.\<close>

lemma visit_each_acyclic:
  assumes "\<forall>i\<in>V. \<exists>ds. succs i = Inr ds" and "K \<subseteq> set is"
  shows "(\<exists>order. visit_each is [] [] = Inr order) \<longleftrightarrow> acyclic edges"
proof
  assume "\<exists>order. visit_each is [] [] = Inr order"
  then obtain order where order: "visit_each is [] [] = Inr order" by blast
  have bf: "built_first edges order" "set is \<inter> V \<subseteq> set order"
    using visit_each_ok [OF visit_sound order] by auto
  show "acyclic edges"
    unfolding acyclic_def
  proof (intro allI notI)
    fix x assume cyc: "(x, x) \<in> edges\<^sup>+"
    then obtain z where z: "(x, z) \<in> edges" by (meson tranclD)
    then have "x \<in> K" using known(3) [of x] by (cases "x \<in> K") (auto simp: dep_edges_def)
    then have "x \<in> set order" using assms(2) bf(2) known(2) by blast
    then show False using built_first_acyclic [OF bf(1)] cyc by blast
  qed
next
  assume acyc: "acyclic edges"
  show "\<exists>order. visit_each is [] [] = Inr order"
  proof (cases "visit_each is [] []")
    case (Inl e)
    have "chain edges []" by (simp add: chain_def)
    from visit_each_error [OF visit_error this _ Inl] show ?thesis using acyc assms(1) circle_not_acyclic by fastforce
  qed blast
qed

lemma visit_refused:
  assumes "visit i [] [] = Inl e"
  shows "(\<exists>xs. e = loop_error xs \<and> circle edges xs) \<or> (\<exists>j\<in>V. succs j = Inl e)"
proof -
  have "chain edges ([] @ [i])" by (simp add: chain_def)
  then show ?thesis using visit_error [of i "[]" "[]"] assms unfolding visit_error_ok_def by auto
qed

text \<open>A visit from scratch answers the vertex and all it depends on, in dependency order, the vertex last.\<close>

lemma visit_from_scratch:
  assumes "visit i [] [] = Inr order" and "i \<in> V"
  shows "built_first edges order" and "last order = i" and "set order = edges\<^sup>* `` {i}"
proof -
  have v: "built_first edges order" "i \<in> set order" "set order \<subseteq> edges\<^sup>* `` {i}" "last order = i"
    using visit_sound [of i "[]" "[]"] assms unfolding visit_ok_def by auto
  then show "built_first edges order" "last order = i" by simp_all
  show "set order = edges\<^sup>* `` {i}" using v built_first_closed by fastforce
qed

end

end
