(* ===== verification/Tool_Registry.thy ===== *)
theory Tool_Registry
  imports Tool_Network Rust_Path Dfs
begin

text \<open>
  Declared tools (\<open>tddy-actions\<close>, \<open>tool/\<close>: \<open>def.rs\<close>, \<open>registry.rs\<close>, \<open>resolve.rs\<close> and the sections of a definition): the
  registry of the definitions a host knows, its validation, and the resolution of a set of tools with everything they
  depend on. The reading of a YAML text and the host (its environment, its search path and its files) are parameters.
\<close>

section \<open>Definitions\<close>

record target_binary =
  producing_target :: string
  produced_path :: string

record tool_binary =
  command_name :: string
  env_override :: "string option"
  from_target :: "target_binary option"
  sibling_of :: "string option"

datatype argv_item =
    Lit string
  | When string "argv_item list" "argv_item list"
  | Splice string

datatype transport = Pty | Stdio | Acp

record run_section =
  run_transport :: transport
  run_argv :: "argv_item list"
  run_env :: "(string \<times> string) list"

datatype home_section = PersistentHome string | PathHome string | SessionHome

datatype file_item = SeedOnce string string | Mirror string string | Overlay string string

datatype secret_source = HostEnv string | HostFile string

datatype route_guard = Unrouted | Routed

record secret_item =
  secret_env :: string
  secret_source :: secret_source
  secret_when :: "route_guard option"

record policy_section =
  allows_jit :: bool
  allows_fork :: bool
  section_exec_paths :: "string list"
  reads_sysctl :: bool

record 'v tool_def =
  tool_schema :: u32
  tool_id :: string
  tool_summary :: string
  tool_binary :: tool_binary
  tool_deps :: "string list"
  tool_reads :: "string list"
  tool_run :: "run_section option"
  tool_extensions :: "(string \<times> 'v) list"
  tool_network :: network_section
  tool_home :: home_section
  tool_files :: "file_item list"
  tool_secrets :: "secret_item list"
  tool_policy :: policy_section

datatype tool_error =
    ParseError string string
  | DuplicateId string string string
  | UnknownDep string string
  | SiblingNotDep string string
  | DepCycle "string list"
  | UnknownTool string
  | Unresolvable string string
  | DuplicateCommand string string string
  | UnknownExtension string string
  | ExtensionRejected string string string
  | UnboundPlaceholder string string
  | ToolIo string string

fun show_tool_error :: "tool_error \<Rightarrow> string" where
  "show_tool_error (ParseError path message) = ''tool file '' @ path @ '': '' @ message"
| "show_tool_error (DuplicateId i first second) = ''tool '' @ i @ '' is defined twice: '' @ first @ '' and '' @ second"
| "show_tool_error (UnknownDep tool dep) = ''tool '' @ tool @ '' depends on unknown tool '' @ dep"
| "show_tool_error (SiblingNotDep tool dep) = ''tool '' @ tool @ '' sits beside '' @ dep @ '', which is not one of its deps''"
| "show_tool_error (DepCycle cycle) = ''tool dependency cycle: '' @ join_with [CHR 0x20, CHR 0xE2, CHR 0x86, CHR 0x92, CHR 0x20] cycle"
| "show_tool_error (UnknownTool i) = ''unknown tool '' @ i"
| "show_tool_error (Unresolvable tool searched) = ''tool '' @ tool @ '' is unavailable: searched '' @ searched"
| "show_tool_error (DuplicateCommand c first second) = ''tools '' @ first @ '' and '' @ second @ '' both provide the command '' @ c"
| "show_tool_error (UnknownExtension path owner) = ''tool file '' @ path @ '': unknown extension owner '' @ owner"
| "show_tool_error (ExtensionRejected path owner message) = ''tool file '' @ path @ '': extension '' @ owner @ '': '' @ message"
| "show_tool_error (UnboundPlaceholder tool name) = ''tool '' @ tool @ '': argv placeholder {'' @ name @ ''} is unbound''"
| "show_tool_error (ToolIo dir message) = ''tool directory '' @ dir @ '': '' @ message"

definition tool_schema_version :: u32 where
  "tool_schema_version = 1"

text \<open>The two readings of a tool file: its schema version alone, and the whole of it.\<close>

record 'v tool_yaml =
  probe_schema :: "string \<Rightarrow> string + u32"
  full_def :: "string \<Rightarrow> string + 'v tool_def"

definition parse_tool :: "'v tool_yaml \<Rightarrow> string \<Rightarrow> string \<Rightarrow> tool_error + 'v tool_def" where
  "parse_tool y file yaml =
     try_then (map_err (ParseError file) (probe_schema y yaml)) (\<lambda>version.
     if version \<noteq> tool_schema_version
     then Inl (ParseError file (''schema_version '' @ show_nat (unat version) @ '' is not supported (this build reads '' @
            show_nat (unat tool_schema_version) @ '')''))
     else try_then (map_err (ParseError file) (full_def y yaml)) (\<lambda>def.
       case tool_home def of
         PathHome path \<Rightarrow>
           if \<not> is_absolute path then Inl (ParseError file (''home.path '' @ path @ '' is not an absolute directory'')) else Inr def
       | _ \<Rightarrow> Inr def))"

section \<open>The registry\<close>

type_synonym 'v tool_registry = "(string \<times> 'v tool_def \<times> string) list"

definition insert_unique :: "'v tool_registry \<Rightarrow> 'v tool_def \<Rightarrow> string \<Rightarrow> tool_error + 'v tool_registry" where
  "insert_unique tools def file =
     (case map_of tools (tool_id def) of
        Some (_, first) \<Rightarrow> Inl (DuplicateId (tool_id def) first file)
      | None \<Rightarrow> Inr (bt_insert (tool_id def) (def, file) tools))"

definition registry_get :: "'v tool_registry \<Rightarrow> string \<Rightarrow> 'v tool_def option" where
  "registry_get tools i = map_option fst (map_of tools i)"

fun refuse_unknown_deps :: "'v tool_registry \<Rightarrow> 'v tool_registry \<Rightarrow> tool_error + unit" where
  "refuse_unknown_deps tools [] = Inr ()"
| "refuse_unknown_deps tools ((i, (def, _)) # rest) =
     (case List.find (\<lambda>dep. map_of tools dep = None) (tool_deps def) of
        Some dep \<Rightarrow> Inl (UnknownDep i dep)
      | None \<Rightarrow> refuse_unknown_deps tools rest)"

fun refuse_siblings_that_are_not_deps :: "'v tool_registry \<Rightarrow> tool_error + unit" where
  "refuse_siblings_that_are_not_deps [] = Inr ()"
| "refuse_siblings_that_are_not_deps ((i, (def, _)) # rest) =
     (case sibling_of (tool_binary def) of
        Some sibling \<Rightarrow>
          if sibling \<notin> set (tool_deps def) then Inl (SiblingNotDep i sibling) else refuse_siblings_that_are_not_deps rest
      | None \<Rightarrow> refuse_siblings_that_are_not_deps rest)"

text \<open>\<open>min_by\<close> answers the first of several least elements.\<close>

definition closed_cycle :: "string list \<Rightarrow> string list" where
  "closed_cycle members =
     (let start = (case position (\<lambda>m. m = Min (set members)) members of Some i \<Rightarrow> i | None \<Rightarrow> 0);
          cycle = drop start members @ take start members
      in cycle @ [hd cycle])"

text \<open>
  The search for a cycle answers the cycle it closes, or the ids finished so far. The search over the deps of one id is
  the loop of the source.
\<close>

lemma unpathed_less:
  assumes "position (\<lambda>p. p = i) path = None" and "map_of tools i = Some v"
  shows "card (fst ` set tools - insert i (set path)) < card (fst ` set tools - set path)"
proof (rule psubset_card_mono)
  have "i \<in> fst ` set tools - set path"
    using assms by (auto simp: position_None dest: map_of_SomeD intro: rev_image_eqI)
  then show "fst ` set tools - insert i (set path) \<subset> fst ` set tools - set path" by auto
qed simp

function cycle_from :: "'v tool_registry \<Rightarrow> string \<Rightarrow> string list \<Rightarrow> string list \<Rightarrow> string list + string list"
  and cycle_from_deps :: "'v tool_registry \<Rightarrow> string list \<Rightarrow> string list \<Rightarrow> string list \<Rightarrow> string list + string list" where
  "cycle_from tools i path finished =
     (case position (\<lambda>p. p = i) path of
        Some start \<Rightarrow> Inl (closed_cycle (drop start path))
      | None \<Rightarrow>
          if i \<in> set finished then Inr finished
          else case map_of tools i of
                 None \<Rightarrow> Inr finished
               | Some (def, _) \<Rightarrow>
                   (case cycle_from_deps tools (tool_deps def) (path @ [i]) finished of
                      Inl cycle \<Rightarrow> Inl cycle
                    | Inr finished' \<Rightarrow> Inr (finished' @ [i])))"
| "cycle_from_deps tools [] path finished = Inr finished"
| "cycle_from_deps tools (dep # deps) path finished =
     (case cycle_from tools dep path finished of
        Inl cycle \<Rightarrow> Inl cycle
      | Inr finished' \<Rightarrow> cycle_from_deps tools deps path finished')"
  by pat_completeness auto
termination
  by (relation "inv_image (less_than <*lex*> less_than) (\<lambda>x. case x of
        Inl (tools, i, path, finished) \<Rightarrow> (card (fst ` set tools - set path), 0)
      | Inr (tools, deps, path, finished) \<Rightarrow> (card (fst ` set tools - set path), Suc (length deps)))")
    (auto dest: unpathed_less)

declare cycle_from.simps [simp del]

fun refuse_cycles_from :: "'v tool_registry \<Rightarrow> string list \<Rightarrow> string list \<Rightarrow> tool_error + unit" where
  "refuse_cycles_from tools [] finished = Inr ()"
| "refuse_cycles_from tools (i # is) finished =
     (case cycle_from tools i [] finished of
        Inl cycle \<Rightarrow> Inl (DepCycle cycle)
      | Inr finished' \<Rightarrow> refuse_cycles_from tools is finished')"

definition refuse_dep_cycles :: "'v tool_registry \<Rightarrow> tool_error + unit" where
  "refuse_dep_cycles tools = refuse_cycles_from tools (map fst tools) []"

definition validated :: "'v tool_registry \<Rightarrow> tool_error + 'v tool_registry" where
  "validated tools =
     try_then (refuse_unknown_deps tools tools) (\<lambda>_.
     try_then (refuse_siblings_that_are_not_deps tools) (\<lambda>_.
     try_then (refuse_dep_cycles tools) (\<lambda>_. Inr tools)))"

text \<open>Parsing and inserting a list of files, the built-in ones or the overrides.\<close>

fun insert_files :: "'v tool_yaml \<Rightarrow> (string \<times> string) list \<Rightarrow> 'v tool_registry \<Rightarrow> tool_error + 'v tool_registry" where
  "insert_files y [] tools = Inr tools"
| "insert_files y ((file, yaml) # rest) tools =
     try_then (parse_tool y file yaml) (\<lambda>def.
     try_then (insert_unique tools def file) (\<lambda>tools'. insert_files y rest tools'))"

definition from_embedded :: "'v tool_yaml \<Rightarrow> (string \<times> string) list \<Rightarrow> tool_error + 'v tool_registry" where
  "from_embedded y sources = try_then (insert_files y sources []) validated"

text \<open>The overrides directory: the texts of its YAML files, sorted by name, each readable or not.\<close>

fun read_overrides :: "'v tool_yaml \<Rightarrow> (string \<times> (string + string)) list \<Rightarrow> 'v tool_registry \<Rightarrow> tool_error + 'v tool_registry" where
  "read_overrides y [] overrides = Inr overrides"
| "read_overrides y ((file, text) # rest) overrides =
     try_then (map_err (\<lambda>e. ParseError file (''cannot be read: '' @ e)) text) (\<lambda>yaml.
     try_then (parse_tool y file yaml) (\<lambda>def.
     try_then (insert_unique overrides def file) (\<lambda>overrides'. read_overrides y rest overrides')))"

definition load_registry :: "'v tool_yaml \<Rightarrow> 'v tool_registry \<Rightarrow> tool_error + (string \<times> (string + string)) list \<Rightarrow> tool_error + 'v tool_registry" where
  "load_registry y builtin files =
     try_then files (\<lambda>fs.
     try_then (read_overrides y fs []) (\<lambda>overrides.
       validated (fold (\<lambda>(i, entry). bt_insert i entry) overrides builtin)))"

definition with_tool :: "'v tool_registry \<Rightarrow> 'v tool_def \<Rightarrow> string \<Rightarrow> tool_error + 'v tool_registry" where
  "with_tool tools def origin = try_then (insert_unique tools def origin) validated"

text \<open>The owners of extension sections: the check of each, by name.\<close>

type_synonym 'v extension_owners = "(string \<times> (string \<Rightarrow> 'v \<Rightarrow> string + unit)) list"

fun validate_sections :: "'v extension_owners \<Rightarrow> string \<Rightarrow> string \<Rightarrow> (string \<times> 'v) list \<Rightarrow> tool_error + unit" where
  "validate_sections owners i file [] = Inr ()"
| "validate_sections owners i file ((key, sec) # rest) =
     try_then (ok_or (UnknownExtension file key) (map_of owners key)) (\<lambda>validate.
     try_then (map_err (ExtensionRejected file key) (validate i sec)) (\<lambda>_. validate_sections owners i file rest))"

fun validate_extensions :: "'v extension_owners \<Rightarrow> 'v tool_registry \<Rightarrow> tool_error + unit" where
  "validate_extensions owners [] = Inr ()"
| "validate_extensions owners ((i, (def, file)) # rest) =
     try_then (validate_sections owners i file (tool_extensions def)) (\<lambda>_. validate_extensions owners rest)"

definition load_with_owners ::
    "'v tool_yaml \<Rightarrow> 'v tool_registry \<Rightarrow> tool_error + (string \<times> (string + string)) list \<Rightarrow> 'v extension_owners \<Rightarrow> tool_error + 'v tool_registry" where
  "load_with_owners y builtin files owners =
     try_then (load_registry y builtin files) (\<lambda>tools.
     try_then (validate_extensions owners tools) (\<lambda>_. Inr tools))"

section \<open>Resolution\<close>

record tool_host =
  env_var :: "string \<Rightarrow> string option"
  path_dirs :: "string list"
  is_executable_file :: "string \<Rightarrow> bool"
  canonical_path :: "string \<Rightarrow> string + string"
  target_output :: "target_binary \<Rightarrow> string option"

definition unresolvable :: "'v tool_def \<Rightarrow> string \<Rightarrow> tool_error" where
  "unresolvable def searched = Unresolvable (tool_id def) searched"

definition canonical :: "'v tool_def \<Rightarrow> string \<Rightarrow> tool_host \<Rightarrow> tool_error + string" where
  "canonical def path h = map_err (\<lambda>e. unresolvable def (path @ '' (cannot be resolved: '' @ e @ '')'')) (canonical_path h path)"

definition target_output_binary :: "'v tool_def \<Rightarrow> target_binary \<Rightarrow> string \<Rightarrow> tool_host \<Rightarrow> tool_error + string" where
  "target_output_binary def target out h =
     (if is_executable_file h out then canonical def out h
      else Inl (unresolvable def (producing_target target @ '' output '' @ out @ '' (not an executable file)'')))"

definition override_binary :: "'v tool_def \<Rightarrow> string \<Rightarrow> string \<Rightarrow> tool_host \<Rightarrow> tool_error + string" where
  "override_binary def var val h =
     (if is_executable_file h val then canonical def val h
      else Inl (unresolvable def (var @ '' ('' @ val @ '': not an executable file)'')))"

text \<open>\<open>with_file_name\<close> of a path that ends in a file name.\<close>

definition with_file_name :: "string \<Rightarrow> string \<Rightarrow> string" where
  "with_file_name path name = (case rsplit_once ''/'' path of None \<Rightarrow> name | Some (dir, _) \<Rightarrow> path_join (dir @ ''/'') name)"

definition resolve_sibling :: "string \<Rightarrow> tool_binary \<Rightarrow> resolved_tool \<Rightarrow> tool_host \<Rightarrow> tool_error + string" where
  "resolve_sibling tool binary dep h =
     (let candidate = with_file_name (resolved_binary dep) (command_name binary)
      in if \<not> is_executable_file h candidate
         then Inl (Unresolvable tool (candidate @ '' (beside '' @ resolved_id dep @ '' at '' @ resolved_binary dep @ '')''))
         else map_err (\<lambda>e. Unresolvable tool (candidate @ '' (cannot be resolved: '' @ e @ '')'')) (canonical_path h candidate))"

definition locate_binary :: "'v tool_def \<Rightarrow> tool_host \<Rightarrow> resolved_tool list \<Rightarrow> tool_error + string" where
  "locate_binary def h resolved =
     (let binary = tool_binary def
      in case from_target binary of
           Some target \<Rightarrow>
             (case target_output h target of
                Some out \<Rightarrow> target_output_binary def target out h
              | None \<Rightarrow> Inl (unresolvable def (producing_target target @ '' output '' @ produced_path target)))
         | None \<Rightarrow>
             (case (case env_override binary of None \<Rightarrow> None | Some var \<Rightarrow> map_option (Pair var) (env_var h var)) of
                Some (var, val) \<Rightarrow> override_binary def var val h
              | None \<Rightarrow>
                  let searched = (case env_override binary of None \<Rightarrow> [] | Some var \<Rightarrow> [var @ '' (unset)''])
                  in case sibling_of binary of
                       Some dep_id \<Rightarrow>
                         try_then (ok_or (unresolvable def (dep_id @ '' (not resolved before '' @ tool_id def @ '')''))
                                    (List.find (\<lambda>t. resolved_id t = dep_id) resolved))
                           (\<lambda>dep. resolve_sibling (tool_id def) binary dep h)
                     | None \<Rightarrow>
                         (case List.find (is_executable_file h) (map (\<lambda>dir. path_join dir (command_name binary)) (path_dirs h)) of
                            Some candidate \<Rightarrow> canonical def candidate h
                          | None \<Rightarrow>
                              Inl (unresolvable def (join_with '', '' (searched @
                                [if path_dirs h = [] then ''PATH (empty)'' else ''PATH ('' @ join_with '':'' (path_dirs h) @ '')'']))))))"

definition resolve_tool :: "'v tool_def \<Rightarrow> tool_host \<Rightarrow> resolved_tool list \<Rightarrow> tool_error + resolved_tool" where
  "resolve_tool def h resolved =
     try_then (locate_binary def h resolved) (\<lambda>binary.
       Inr \<lparr>resolved_id = tool_id def, resolved_command = command_name (tool_binary def), resolved_binary = binary,
            resolved_reads = tool_reads def, resolved_network = tool_network def\<rparr>)"

text \<open>The end of the visit of a tool, after its deps: it is resolved and joins the closure, unless its command is taken.\<close>

definition resolve_into :: "'v tool_def \<Rightarrow> tool_host \<Rightarrow> resolved_tool list \<Rightarrow> tool_error + resolved_tool list" where
  "resolve_into def h closure =
     try_then (resolve_tool def h closure) (\<lambda>resolved.
       case List.find (\<lambda>t. resolved_command t = resolved_command resolved) closure of
         Some first \<Rightarrow> Inl (DuplicateCommand (resolved_command resolved) (resolved_id first) (resolved_id resolved))
       | None \<Rightarrow> Inr (closure @ [resolved]))"

text \<open>
  The visit of an id, with its calls on a stack: \<open>Enter\<close> is a call of \<open>visit\<close>, \<open>Leave\<close> what remains of one after the
  deps. The ids visited and the closure are threaded through.
\<close>

datatype 'v frame = Enter string | Leave "'v tool_def"

function visit_stack :: "'v tool_registry \<Rightarrow> tool_host \<Rightarrow> 'v frame list \<Rightarrow> string list \<Rightarrow> resolved_tool list \<Rightarrow> tool_error + resolved_tool list" where
  "visit_stack tools h [] visited closure = Inr closure"
| "visit_stack tools h (Enter i # frames) visited closure =
     (if i \<in> set visited then visit_stack tools h frames visited closure
      else case map_of tools i of
             None \<Rightarrow> Inl (UnknownTool i)
           | Some (def, _) \<Rightarrow> visit_stack tools h (map Enter (tool_deps def) @ Leave def # frames) (i # visited) closure)"
| "visit_stack tools h (Leave def # frames) visited closure =
     (case resolve_into def h closure of
        Inl e \<Rightarrow> Inl e
      | Inr closure' \<Rightarrow> visit_stack tools h frames visited closure')"
  by pat_completeness auto
termination
proof (relation "measures [\<lambda>(tools, h, frames, visited, closure). card (fst ` set tools - set visited), \<lambda>(tools, h, frames, visited, closure). length frames]",
    goal_cases)
  case (3 tools h i frames visited closure p def origin)
  then have "i \<in> fst ` set tools" by (force dest: map_of_SomeD)
  with 3(1) have "card (fst ` set tools - set (i # visited)) < card (fst ` set tools - set visited)"
    by (intro psubset_card_mono) auto
  then show ?case by simp
qed simp_all

definition resolve_closure :: "'v tool_registry \<Rightarrow> tool_host \<Rightarrow> string list \<Rightarrow> tool_error + resolved_tool list" where
  "resolve_closure tools h ids = visit_stack tools h (map Enter ids) [] []"

section \<open>Validation\<close>

definition dep_list :: "'v tool_registry \<Rightarrow> string \<Rightarrow> string list + string list" where
  "dep_list tools i = (case map_of tools i of None \<Rightarrow> Inr [] | Some (def, _) \<Rightarrow> Inr (tool_deps def))"

definition depends_on :: "'v tool_registry \<Rightarrow> (string \<times> string) set" where
  "depends_on tools = {(i, d). \<exists>def file. map_of tools i = Some (def, file) \<and> d \<in> set (tool_deps def) \<and> map_of tools d \<noteq> None}"

interpretation tool_visit: depth_first "\<lambda>i vis st. cycle_from tools i st vis" "\<lambda>ds vis st. cycle_from_deps tools ds st vis"
  "dep_list tools" "dom (map_of tools)" "dom (map_of tools)" closed_cycle for tools :: "'v tool_registry"
proof unfold_locales
  fix i :: string and vis st :: "string list"
  show "cycle_from tools i st vis = Inr vis" if "set vis \<inter> set st = {}" and "i \<in> set vis"
  proof -
    have "position (\<lambda>p. p = i) st = None" using that by (auto simp: position_None)
    then show ?thesis using that by (simp add: cycle_from.simps)
  qed
  assume "i \<notin> set st"
  then have st: "position (\<lambda>p. p = i) st = None" by (auto simp: position_None)
  show "cycle_from tools i st vis = Inr vis" if "i \<notin> dom (map_of tools)"
    using that st by (cases "map_of tools i") (auto simp: cycle_from.simps)
  show "cycle_from tools i st vis = Inl e" if "dep_list tools i = Inl e" for e
    using that by (auto simp: dep_list_def split: option.splits)
  show "cycle_from tools i st vis = (case cycle_from_deps tools ds (st @ [i]) vis of Inl e \<Rightarrow> Inl e | Inr vis' \<Rightarrow> Inr (vis' @ [i]))"
    if "i \<in> dom (map_of tools)" and "i \<notin> set vis" and "dep_list tools i = Inr ds" for ds
    using that st by (subst cycle_from.simps) (auto simp: dep_list_def split: option.splits)
qed (auto simp: dep_list_def finite_dom_map_of cycle_from.simps split: option.splits)

lemma tool_edges: "dep_edges (dep_list tools) (dom (map_of tools)) = depends_on tools"
  by (auto simp: dep_edges_def depends_on_def dep_list_def split: option.splits)

lemma refuse_cycles_from_deps: "refuse_cycles_from tools is vis =
    (case cycle_from_deps tools is [] vis of Inl c \<Rightarrow> Inl (DepCycle c) | Inr _ \<Rightarrow> Inr ())"
  by (induction "is" arbitrary: vis) (auto split: sum.splits)

lemma refuse_dep_cycles_iff: "refuse_dep_cycles tools = Inr () \<longleftrightarrow> acyclic (depends_on tools)"
proof -
  have "\<forall>i\<in>dom (map_of tools). \<exists>ds. dep_list tools i = Inr ds" by (auto simp: dep_list_def)
  from tool_visit.visit_each_acyclic [OF this, unfolded tool_edges, of "map fst tools"]
  have "(\<exists>order. cycle_from_deps tools (map fst tools) [] [] = Inr order) \<longleftrightarrow> acyclic (depends_on tools)"
    by (simp add: dom_map_of_conv_image_fst)
  then show ?thesis by (auto simp: refuse_dep_cycles_def refuse_cycles_from_deps split: sum.splits)
qed

lemma refuse_unknown_deps_iff:
  "refuse_unknown_deps tools ts = Inr () \<longleftrightarrow> (\<forall>(i, def, file)\<in>set ts. \<forall>d\<in>set (tool_deps def). map_of tools d \<noteq> None)"
  by (induction tools ts rule: refuse_unknown_deps.induct) (auto simp: find_None_iff dest!: find_SomeD split: option.splits intro!: bexI)

lemma refuse_siblings_iff:
  "refuse_siblings_that_are_not_deps ts = Inr () \<longleftrightarrow>
     (\<forall>(i, def, file)\<in>set ts. \<forall>s. sibling_of (tool_binary def) = Some s \<longrightarrow> s \<in> set (tool_deps def))"
  by (induction ts rule: refuse_siblings_that_are_not_deps.induct) (auto split: option.splits)

lemma refuse_unknown_deps_error: "refuse_unknown_deps tools ts = Inl e \<Longrightarrow> \<exists>i d. e = UnknownDep i d"
  by (induction tools ts rule: refuse_unknown_deps.induct) (auto split: option.splits)

lemma refuse_siblings_error: "refuse_siblings_that_are_not_deps ts = Inl e \<Longrightarrow> \<exists>i d. e = SiblingNotDep i d"
  by (induction ts rule: refuse_siblings_that_are_not_deps.induct) (auto split: option.splits if_splits)

lemma refused_cycle:
  assumes "refuse_dep_cycles tools = Inl e"
  shows "\<exists>xs. e = DepCycle (closed_cycle xs) \<and> circle (depends_on tools) xs"
proof -
  obtain c where c: "cycle_from_deps tools (map fst tools) [] [] = Inl c" "e = DepCycle c"
    using assms by (auto simp: refuse_dep_cycles_def refuse_cycles_from_deps split: sum.splits)
  have "chain (depends_on tools) []" by (simp add: chain_def)
  with tool_visit.visit_each_error [OF tool_visit.visit_error, of tools "[]" "map fst tools" "[]" c] c(1)
  have "(\<exists>xs. c = closed_cycle xs \<and> circle (depends_on tools) xs) \<or> (\<exists>j\<in>dom (map_of tools). dep_list tools j = Inl c)"
    by (simp add: tool_edges)
  with c(2) show ?thesis by (auto simp: dep_list_def split: option.splits)
qed

lemma closed_cycle_circle:
  assumes "circle E xs"
  shows "chain E (closed_cycle xs)" and "hd (closed_cycle xs) = last (closed_cycle xs)"
    and "set (closed_cycle xs) = set xs" and "hd (closed_cycle xs) = Min (set xs)"
proof -
  have ne: "xs \<noteq> []" using assms by (simp add: circle_def)
  then have "Min (set xs) \<in> set xs" by simp
  then obtain k where pos: "position (\<lambda>m. m = Min (set xs)) xs = Some k"
    by (cases "position (\<lambda>m. m = Min (set xs)) xs") (auto simp: position_None)
  then have k: "k < length xs" "xs ! k = Min (set xs)" by (auto simp: position_Some)
  have hd: "hd (drop k xs @ take k xs) = xs ! k" using k by (simp add: hd_drop_conv_nth)
  then have c: "closed_cycle xs = drop k xs @ take k xs @ [xs ! k]" using pos by (simp add: closed_cycle_def)
  show "chain E (closed_cycle xs)" unfolding c using circle_from [OF assms k(1)] .
  show "hd (closed_cycle xs) = last (closed_cycle xs)" "hd (closed_cycle xs) = Min (set xs)"
    unfolding c using k by (simp_all add: hd_drop_conv_nth hd_append)
  have "set xs = set (take k xs @ drop k xs)" by simp
  then show "set (closed_cycle xs) = set xs" unfolding c using k(1) by (auto simp del: append_take_drop_id)
qed

definition registry_valid :: "'v tool_registry \<Rightarrow> bool" where
  "registry_valid tools \<longleftrightarrow>
     (\<forall>(i, def, file)\<in>set tools. set (tool_deps def) \<subseteq> dom (map_of tools) \<and>
        (\<forall>s. sibling_of (tool_binary def) = Some s \<longrightarrow> s \<in> set (tool_deps def))) \<and>
     acyclic (depends_on tools)"

lemma validated_Inr: "validated tools = Inr t \<longleftrightarrow> t = tools \<and> registry_valid tools"
  by (auto simp: validated_def try_then_Inr refuse_unknown_deps_iff refuse_siblings_iff refuse_dep_cycles_iff registry_valid_def domIff)
     (auto simp: subset_iff domIff)

text \<open>
  C28. A registry is accepted exactly when every dependency is a known tool, every tool found beside another one depends on
  it, and no tool depends on itself through others. A refused cycle is a real one: it starts and ends with its smallest
  id and every id in it depends on the one after it.
\<close>

theorem validated_decides:
  "((\<exists>t. validated tools = Inr t) \<longleftrightarrow> registry_valid tools) \<and>
   (\<forall>c. validated tools = Inl (DepCycle c) \<longrightarrow>
      chain (depends_on tools) c \<and> 2 \<le> length c \<and> hd c = last c \<and> hd c = Min (set c))"
proof (intro conjI allI impI)
  show "(\<exists>t. validated tools = Inr t) \<longleftrightarrow> registry_valid tools" by (auto simp: validated_Inr)
  fix c assume "validated tools = Inl (DepCycle c)"
  then have "refuse_dep_cycles tools = Inl (DepCycle c)"
    by (auto simp: validated_def try_then_Inl dest: refuse_unknown_deps_error refuse_siblings_error)
  then obtain xs where xs: "c = closed_cycle xs" "circle (depends_on tools) xs" using refused_cycle by blast
  note cyc = closed_cycle_circle [OF xs(2)]
  show "chain (depends_on tools) c" "hd c = last c" "hd c = Min (set c)" using cyc xs(1) by simp_all
  show "2 \<le> length c" using xs by (auto simp: circle_def closed_cycle_def Let_def neq_Nil_conv)
qed

section \<open>Registries that are built\<close>

definition registry_ok :: "'v tool_registry \<Rightarrow> bool" where
  "registry_ok tools \<longleftrightarrow> bt_inv tools \<and> (\<forall>(i, def, file)\<in>set tools. tool_id def = i)"

lemma registry_ok_Nil [simp]: "registry_ok []"
  by (simp add: registry_ok_def btree_simps)

lemma set_bt_insert: "set (bt_insert k v m) \<subseteq> insert (k, v) (set m)"
  by (induction k v m rule: bt_insert.induct) auto

lemma registry_ok_insert: "registry_ok tools \<Longrightarrow> registry_ok (bt_insert (tool_id def) (def, origin) tools)"
  using set_bt_insert [of "tool_id def" "(def, origin)" tools] by (auto simp: registry_ok_def btree_simps)

lemma insert_unique_ok: "insert_unique tools def origin = Inr t \<Longrightarrow> registry_ok tools \<Longrightarrow> registry_ok t"
  by (auto simp: insert_unique_def intro: registry_ok_insert split: option.splits)

lemma insert_files_ok: "insert_files y fs tools = Inr t \<Longrightarrow> registry_ok tools \<Longrightarrow> registry_ok t"
  by (induction y fs tools rule: insert_files.induct) (auto simp: try_then_Inr dest: insert_unique_ok)

lemma read_overrides_ok: "read_overrides y fs tools = Inr t \<Longrightarrow> registry_ok tools \<Longrightarrow> registry_ok t"
  by (induction y fs tools rule: read_overrides.induct) (auto simp: try_then_Inr dest: insert_unique_ok)

lemma overriding_ok: "\<forall>(i, def, file)\<in>set os. tool_id def = i \<Longrightarrow> registry_ok tools \<Longrightarrow> registry_ok (fold (\<lambda>(i, e). bt_insert i e) os tools)"
  by (induction os arbitrary: tools) (auto intro: registry_ok_insert)

text \<open>The registries a host works with: the embedded ones, overrides applied to one, and one more tool added.\<close>

inductive built :: "'v tool_yaml \<Rightarrow> 'v tool_registry \<Rightarrow> bool" for y where
  embedded: "from_embedded y sources = Inr t \<Longrightarrow> built y t"
| overridden: "built y tools \<Longrightarrow> load_registry y tools files = Inr t \<Longrightarrow> built y t"
| owned: "built y tools \<Longrightarrow> load_with_owners y tools files owners = Inr t \<Longrightarrow> built y t"
| extended: "built y tools \<Longrightarrow> with_tool tools def origin = Inr t \<Longrightarrow> built y t"

lemma loaded_ok: "registry_ok tools \<Longrightarrow> load_registry y tools files = Inr t \<Longrightarrow> registry_ok t \<and> registry_valid t"
proof (auto simp: load_registry_def try_then_Inr validated_Inr)
  fix fs os assume "registry_ok tools" and "read_overrides y fs [] = Inr os"
  moreover from this(2) have "registry_ok os" by (rule read_overrides_ok) simp
  ultimately show "registry_ok (fold (\<lambda>(i, y). bt_insert i y) os tools)" by (intro overriding_ok) (auto simp: registry_ok_def)
qed

lemma built_ok: "built y tools \<Longrightarrow> registry_ok tools \<and> registry_valid tools"
proof (induction rule: built.induct)
  case (embedded sources t)
  then show ?case
    by (auto simp: from_embedded_def try_then_Inr validated_Inr dest: insert_files_ok)
next
  case (overridden tools files t)
  then show ?case using loaded_ok by blast
next
  case (owned tools files owners t)
  then show ?case using loaded_ok by (auto simp: load_with_owners_def try_then_Inr)
next
  case (extended tools def origin t)
  then show ?case by (auto simp: with_tool_def try_then_Inr validated_Inr dest: insert_unique_ok)
qed

section \<open>The closure\<close>

fun pending :: "'v frame list \<Rightarrow> string list" where
  "pending [] = []"
| "pending (Enter i # frames) = pending frames"
| "pending (Leave def # frames) = tool_id def # pending frames"

definition below :: "(string \<times> string) set \<Rightarrow> string \<Rightarrow> 'v frame list \<Rightarrow> bool" where
  "below E i frames \<longleftrightarrow> (case pending frames of [] \<Rightarrow> True | d # _ \<Rightarrow> (d, i) \<in> E)"

text \<open>
  What the stack of calls promises: an id that is about to be entered is a dep of the call below it, and when a call is
  left all its deps are available, resolved already or still above it on the stack.
\<close>

fun frames_ok :: "'v tool_registry \<Rightarrow> string set \<Rightarrow> 'v frame list \<Rightarrow> bool" where
  "frames_ok tools A [] = True"
| "frames_ok tools A (Enter i # frames) \<longleftrightarrow>
     i \<in> dom (map_of tools) \<and> below (depends_on tools) i frames \<and> frames_ok tools (insert i A) frames"
| "frames_ok tools A (Leave def # frames) \<longleftrightarrow>
     (\<exists>file. map_of tools (tool_id def) = Some (def, file)) \<and> set (tool_deps def) \<subseteq> A \<and>
     below (depends_on tools) (tool_id def) frames \<and> frames_ok tools (insert (tool_id def) A) frames"

lemma frames_ok_mono: "frames_ok tools A frames \<Longrightarrow> A \<subseteq> B \<Longrightarrow> frames_ok tools B frames"
proof (induction tools A frames arbitrary: B rule: frames_ok.induct)
  case (2 tools A i frames)
  then show ?case using insert_mono [of A B i] by auto
next
  case (3 tools A def frames)
  then show ?case using insert_mono [of A B "tool_id def"] by auto
qed simp

lemma frames_ok_enter:
  assumes "set ds \<subseteq> dom (map_of tools)" and "\<And>d. d \<in> set ds \<Longrightarrow> below (depends_on tools) d frames"
    and "frames_ok tools (A \<union> set ds) frames"
  shows "frames_ok tools A (map Enter ds @ frames)"
proof -
  have pend: "pending (map Enter xs @ frames) = pending frames" for xs by (induction xs) auto
  show ?thesis using assms
  proof (induction ds arbitrary: A)
    case (Cons d ds)
    then show ?case by (auto simp: below_def pend insert_commute)
  qed simp
qed

lemma pending_reaches: "frames_ok tools A frames \<Longrightarrow> pending frames = d # ds \<Longrightarrow> x \<in> set (pending frames) \<Longrightarrow> (x, d) \<in> (depends_on tools)\<^sup>*"
proof (induction tools A frames arbitrary: d ds rule: frames_ok.induct)
  case (3 tools A def frames)
  show ?case
  proof (cases "x = tool_id def")
    case False
    then obtain d' ds' where p: "pending frames = d' # ds'" using 3(4) by (cases "pending frames") auto
    then have "(x, d') \<in> (depends_on tools)\<^sup>*" using 3(1) [OF _ p] 3(2,4) False by simp
    moreover have "(d', tool_id def) \<in> depends_on tools" using 3(2) p by (simp add: below_def)
    ultimately show ?thesis using 3(3) by (simp add: rtrancl_into_rtrancl)
  qed (use 3(3) in simp)
qed auto

lemma locate_binary_error: "locate_binary def h closure = Inl e \<Longrightarrow> \<exists>searched. e = Unresolvable (tool_id def) searched"
  by (auto simp: locate_binary_def Let_def target_output_binary_def override_binary_def canonical_def unresolvable_def
      resolve_sibling_def try_then_Inl map_err_Inl split: option.splits if_splits)

lemma resolve_tool_Inr: "resolve_tool def h closure = Inr r \<Longrightarrow>
    resolved_id r = tool_id def \<and> resolved_command r = command_name (tool_binary def)"
  by (auto simp: resolve_tool_def try_then_Inr)

definition closure_ok :: "'v tool_registry \<Rightarrow> tool_host \<Rightarrow> resolved_tool list \<Rightarrow> bool" where
  "closure_ok tools h closure \<longleftrightarrow>
     built_first (depends_on tools) (map resolved_id closure) \<and> distinct (map resolved_command closure) \<and>
     (\<forall>k < length closure. \<exists>def file. map_of tools (resolved_id (closure ! k)) = Some (def, file) \<and>
        resolve_tool def h (take k closure) = Inr (closure ! k))"

definition provides :: "'v tool_registry \<Rightarrow> string \<Rightarrow> string \<Rightarrow> bool" where
  "provides tools i c \<longleftrightarrow> (\<exists>def file. map_of tools i = Some (def, file) \<and> command_name (tool_binary def) = c)"

text \<open>The reasons for which the host, and not the registry, refuses the tools \<open>R\<close>.\<close>

definition host_refuses :: "'v tool_registry \<Rightarrow> string set \<Rightarrow> tool_error \<Rightarrow> bool" where
  "host_refuses tools R e \<longleftrightarrow>
     (\<exists>i\<in>R. \<exists>searched. e = Unresolvable i searched) \<or>
     (\<exists>i\<in>R. \<exists>j\<in>R. \<exists>c. i \<noteq> j \<and> provides tools i c \<and> provides tools j c \<and> e = DuplicateCommand c i j)"

lemma closure_ok_provides:
  assumes "closure_ok tools h closure" and "t \<in> set closure"
  shows "provides tools (resolved_id t) (resolved_command t)"
proof -
  obtain k where "k < length closure" "closure ! k = t" using assms(2) by (auto simp: in_set_conv_nth)
  then obtain def origin where "map_of tools (resolved_id t) = Some (def, origin)" "resolve_tool def h (take k closure) = Inr t"
    using assms(1) unfolding closure_ok_def by blast
  then show ?thesis unfolding provides_def using resolve_tool_Inr by metis
qed

lemma resolve_into_ok:
  assumes "closure_ok tools h closure" and "map_of tools (tool_id def) = Some (def, origin)"
    and "depends_on tools `` {tool_id def} \<subseteq> resolved_id ` set closure" and "tool_id def \<notin> resolved_id ` set closure"
  shows "resolve_into def h closure = Inr closure' \<Longrightarrow>
      closure_ok tools h closure' \<and> map resolved_id closure' = map resolved_id closure @ [tool_id def]"
    and "resolve_into def h closure = Inl e \<Longrightarrow> host_refuses tools (insert (tool_id def) (resolved_id ` set closure)) e"
proof -
  assume "resolve_into def h closure = Inr closure'"
  then obtain r where r: "resolve_tool def h closure = Inr r" "closure' = closure @ [r]"
      "\<forall>t\<in>set closure. resolved_command t \<noteq> resolved_command r"
    by (auto simp: resolve_into_def try_then_Inr find_None_iff split: option.splits)
  have id: "resolved_id r = tool_id def" using resolve_tool_Inr [OF r(1)] by simp
  have "\<exists>def file. map_of tools (resolved_id (closure' ! k)) = Some (def, file) \<and> resolve_tool def h (take k closure') = Inr (closure' ! k)"
    if "k < length closure'" for k
    using that assms(1,2) r(1,2) id by (cases "k = length closure") (auto simp: closure_ok_def nth_append less_Suc_eq)
  then show "closure_ok tools h closure' \<and> map resolved_id closure' = map resolved_id closure @ [tool_id def]"
    using assms r(2,3) id by (auto simp: closure_ok_def built_first_snoc)
next
  assume e: "resolve_into def h closure = Inl e"
  show "host_refuses tools (insert (tool_id def) (resolved_id ` set closure)) e"
  proof (cases "resolve_tool def h closure")
    case (Inl e')
    then have "locate_binary def h closure = Inl e" using e by (auto simp: resolve_into_def resolve_tool_def try_then_Inl)
    then obtain searched where "e = Unresolvable (tool_id def) searched" using locate_binary_error by blast
    then show ?thesis by (simp add: host_refuses_def)
  next
    case (Inr r)
    then obtain t where t: "List.find (\<lambda>t. resolved_command t = resolved_command r) closure = Some t"
        and e': "e = DuplicateCommand (resolved_command r) (resolved_id t) (resolved_id r)"
      using e by (auto simp: resolve_into_def split: option.splits)
    have "t \<in> set closure" "resolved_command t = resolved_command r" using find_SomeD [OF t] by auto
    moreover have "provides tools (resolved_id r) (resolved_command r)" "resolved_id r = tool_id def"
      using resolve_tool_Inr [OF Inr] assms(2) by (auto simp: provides_def)
    ultimately show ?thesis
      using closure_ok_provides [OF assms(1)] e' assms(4) unfolding host_refuses_def by (metis image_eqI insert_iff)
  qed
qed

abbreviation (input) entered :: "'v frame list \<Rightarrow> string set" where
  "entered frames \<equiv> {i. Enter i \<in> set frames}"

definition reach :: "'v tool_registry \<Rightarrow> 'v frame list \<Rightarrow> resolved_tool list \<Rightarrow> string set" where
  "reach tools frames closure =
     resolved_id ` set closure \<union> set (pending frames) \<union> (depends_on tools)\<^sup>* `` entered frames"

definition visit_inv :: "'v tool_registry \<Rightarrow> tool_host \<Rightarrow> 'v frame list \<Rightarrow> string list \<Rightarrow> resolved_tool list \<Rightarrow> bool" where
  "visit_inv tools h frames visited closure \<longleftrightarrow>
     closure_ok tools h closure \<and> frames_ok tools (resolved_id ` set closure) frames \<and>
     set visited = resolved_id ` set closure \<union> set (pending frames) \<and>
     distinct (pending frames) \<and> set (pending frames) \<inter> resolved_id ` set closure = {}"

lemma visit_seen:
  assumes "visit_inv tools h (Enter i # frames) visited closure" and "i \<in> set visited" and "acyclic (depends_on tools)"
  shows "visit_inv tools h frames visited closure" and "i \<in> resolved_id ` set closure"
proof -
  show mem: "i \<in> resolved_id ` set closure"
  proof (rule ccontr)
    assume "i \<notin> resolved_id ` set closure"
    then have i: "i \<in> set (pending frames)" using assms(1,2) by (simp add: visit_inv_def)
    then obtain d ds where p: "pending frames = d # ds" by (cases "pending frames") auto
    have "(i, d) \<in> (depends_on tools)\<^sup>*"
      using pending_reaches [OF _ p i] assms(1) by (auto simp: visit_inv_def)
    moreover have "(d, i) \<in> depends_on tools" using assms(1) p by (simp add: visit_inv_def below_def)
    ultimately show False using assms(3) unfolding acyclic_def by (meson rtrancl_into_trancl1)
  qed
  then show "visit_inv tools h frames visited closure"
    using assms(1) by (auto simp: visit_inv_def insert_absorb)
qed

lemma visit_fresh:
  assumes "visit_inv tools h (Enter i # frames) visited closure" and "i \<notin> set visited" and "registry_ok tools" "registry_valid tools"
    and "map_of tools i = Some (def, origin)"
  shows "visit_inv tools h (map Enter (tool_deps def) @ Leave def # frames) (i # visited) closure"
    and "reach tools (map Enter (tool_deps def) @ Leave def # frames) closure \<subseteq> reach tools (Enter i # frames) closure"
proof -
  have id: "tool_id def = i" using assms(3) map_of_SomeD [OF assms(5)] by (auto simp: registry_ok_def)
  have deps: "set (tool_deps def) \<subseteq> dom (map_of tools)" using assms(4) map_of_SomeD [OF assms(5)] by (auto simp: registry_valid_def)
  have edge: "(i, d) \<in> depends_on tools" if "d \<in> set (tool_deps def)" for d
    using that deps assms(5) by (auto simp: depends_on_def)
  have pend: "pending (map Enter xs @ Leave def # frames) = i # pending frames" for xs by (induction xs) (auto simp: id)
  have ok: "frames_ok tools (insert i (resolved_id ` set closure)) frames" "below (depends_on tools) i frames"
    using assms(1) by (auto simp: visit_inv_def)
  have "frames_ok tools (resolved_id ` set closure) (map Enter (tool_deps def) @ Leave def # frames)"
    using ok assms(5) id deps edge frames_ok_mono [OF ok(1), of "insert i (resolved_id ` set closure \<union> set (tool_deps def))"]
    by (intro frames_ok_enter) (auto simp: below_def)
  then show "visit_inv tools h (map Enter (tool_deps def) @ Leave def # frames) (i # visited) closure"
    using assms(1,2) by (auto simp: visit_inv_def pend)
  show "reach tools (map Enter (tool_deps def) @ Leave def # frames) closure \<subseteq> reach tools (Enter i # frames) closure"
    using edge by (auto simp: reach_def pend intro: converse_rtrancl_into_rtrancl)
qed

lemma visit_leave:
  assumes "visit_inv tools h (Leave def # frames) visited closure" and "registry_valid tools"
  shows "resolve_into def h closure = Inr closure' \<Longrightarrow> visit_inv tools h frames visited closure' \<and>
      reach tools frames closure' = reach tools (Leave def # frames) closure"
    and "resolve_into def h closure = Inl e \<Longrightarrow> host_refuses tools (reach tools (Leave def # frames) closure) e"
proof -
  obtain origin where def: "map_of tools (tool_id def) = Some (def, origin)" and ok: "closure_ok tools h closure"
      and deps: "set (tool_deps def) \<subseteq> resolved_id ` set closure"
    using assms(1) by (auto simp: visit_inv_def)
  have edges: "depends_on tools `` {tool_id def} \<subseteq> resolved_id ` set closure" using def deps by (auto simp: depends_on_def)
  have fresh: "tool_id def \<notin> resolved_id ` set closure" using assms(1) by (auto simp: visit_inv_def)
  note into = resolve_into_ok [OF ok def edges fresh]
  show "visit_inv tools h frames visited closure' \<and> reach tools frames closure' = reach tools (Leave def # frames) closure"
    if "resolve_into def h closure = Inr closure'"
  proof -
    have c: "closure_ok tools h closure'" "map resolved_id closure' = map resolved_id closure @ [tool_id def]"
      using into(1) [OF that] by simp_all
    have ids: "resolved_id ` set closure' = insert (tool_id def) (resolved_id ` set closure)"
      using arg_cong [OF c(2), of set] by simp
    show ?thesis using assms(1) c(1) by (auto simp: visit_inv_def reach_def ids)
  qed
  show "host_refuses tools (reach tools (Leave def # frames) closure) e" if "resolve_into def h closure = Inl e"
    using into(2) [OF that] by (auto simp: host_refuses_def reach_def)
qed

lemma host_refuses_mono: "host_refuses tools R e \<Longrightarrow> R \<subseteq> S \<Longrightarrow> host_refuses tools S e"
  unfolding host_refuses_def by blast

lemma visit_stack_ok:
  assumes "registry_ok tools" and "registry_valid tools" and "visit_inv tools h frames visited closure"
  shows "case visit_stack tools h frames visited closure of
      Inr closure' \<Rightarrow> closure_ok tools h closure' \<and> resolved_id ` set closure' \<subseteq> reach tools frames closure \<and>
        resolved_id ` set closure \<union> set (pending frames) \<union> entered frames \<subseteq> resolved_id ` set closure'
    | Inl e \<Rightarrow> host_refuses tools (reach tools frames closure) e"
  using assms
proof (induction tools h frames visited closure rule: visit_stack.induct)
  case (1 tools h visited closure)
  then show ?case by (auto simp: visit_inv_def reach_def)
next
  case (2 tools h i frames visited closure)
  show ?case
  proof (cases "i \<in> set visited")
    case True
    have "acyclic (depends_on tools)" using "2.prems"(2) by (simp add: registry_valid_def)
    note seen = visit_seen [OF "2.prems"(3) True this]
    have "reach tools frames closure \<subseteq> reach tools (Enter i # frames) closure" by (auto simp: reach_def)
    then show ?thesis
      using "2.IH"(1) [OF True "2.prems"(1,2) seen(1)] seen(2) True by (auto split: sum.splits intro: host_refuses_mono)
  next
    case False
    then obtain def origin where def: "map_of tools i = Some (def, origin)" using "2.prems"(3) by (auto simp: visit_inv_def)
    note fresh = visit_fresh [OF "2.prems"(3) False "2.prems"(1,2) def]
    have id: "tool_id def = i" using "2.prems"(1) map_of_SomeD [OF def] by (auto simp: registry_ok_def)
    have pend: "pending (map Enter xs @ Leave def # frames) = i # pending frames" for xs by (induction xs) (auto simp: id)
    show ?thesis
      using "2.IH"(2) [OF False def refl "2.prems"(1,2) fresh(1)] fresh(2) False def
      by (auto simp: pend split: sum.splits intro: host_refuses_mono)
  qed
next
  case (3 tools h def frames visited closure)
  note leave = visit_leave [OF "3.prems"(3,2)]
  show ?case
  proof (cases "resolve_into def h closure")
    case (Inl e)
    then show ?thesis using leave(2) by simp
  next
    case (Inr closure')
    have inv: "visit_inv tools h frames visited closure'" "reach tools frames closure' = reach tools (Leave def # frames) closure"
      using leave(1) [OF Inr] by simp_all
    have grown: "set (pending (Leave def # frames)) \<union> resolved_id ` set closure \<subseteq> resolved_id ` set closure' \<union> set (pending frames)"
      using Inr by (auto simp: resolve_into_def try_then_Inr dest!: resolve_tool_Inr split: option.splits)
    have run: "visit_stack tools h (Leave def # frames) visited closure = visit_stack tools h frames visited closure'"
      "entered (Leave def # frames) = entered frames" using Inr by simp_all
    show ?thesis
    proof (cases "visit_stack tools h frames visited closure'")
      case (Inl e)
      then show ?thesis using "3.IH" [OF Inr "3.prems"(1,2) inv(1)] run(1) inv(2) by simp
    next
      case (Inr closure'')
      then have "closure_ok tools h closure''" "resolved_id ` set closure'' \<subseteq> reach tools (Leave def # frames) closure"
          "resolved_id ` set closure' \<union> set (pending frames) \<union> entered frames \<subseteq> resolved_id ` set closure''"
        using "3.IH" [OF \<open>resolve_into def h closure = Inr closure'\<close> "3.prems"(1,2) inv(1)] inv(2) by simp_all
      moreover from this(3) grown
      have "resolved_id ` set closure \<union> set (pending (Leave def # frames)) \<union> entered (Leave def # frames) \<subseteq> resolved_id ` set closure''"
        unfolding run(2) by (meson Un_least Un_subset_iff order_trans)
      ultimately show ?thesis using run(1) Inr by simp
    qed
  qed
qed

text \<open>
  C27. Resolving tools of a registry a host built answers exactly the tools asked for and everything they depend on, each once,
  every dep before the tools that need it and no two under one command; each is resolved against the host after the
  tools before it. It is refused only for a reason of the host: a tool of that set has no binary there, or two of them
  provide one command. The registry never lets it fail for an unknown tool or run into a cycle.
\<close>

theorem resolve_closure_correct:
  assumes "built y tools" and "set ids \<subseteq> dom (map_of tools)"
  shows "case resolve_closure tools h ids of
      Inr closure \<Rightarrow> closure_ok tools h closure \<and> set (map resolved_id closure) = (depends_on tools)\<^sup>* `` set ids
    | Inl e \<Rightarrow> host_refuses tools ((depends_on tools)\<^sup>* `` set ids) e"
proof -
  have ok: "registry_ok tools" "registry_valid tools" using built_ok [OF assms(1)] by simp_all
  have pend: "pending (map Enter ids :: 'a frame list) = []" for ids by (induction ids) auto
  have "frames_ok tools A (map Enter ids @ [])" for A by (rule frames_ok_enter) (use assms(2) in \<open>auto simp: below_def\<close>)
  then have "visit_inv tools h (map Enter ids) [] []" by (simp add: visit_inv_def pend closure_ok_def)
  note run = visit_stack_ok [OF ok this]
  have reach: "reach tools (map Enter ids) [] = (depends_on tools)\<^sup>* `` set ids" by (auto simp: reach_def pend)
  show ?thesis
  proof (cases "resolve_closure tools h ids")
    case (Inr closure)
    then have c: "closure_ok tools h closure" "resolved_id ` set closure \<subseteq> (depends_on tools)\<^sup>* `` set ids" "set ids \<subseteq> resolved_id ` set closure"
      using run by (auto simp: resolve_closure_def reach pend)
    have "y \<in> resolved_id ` set closure" if "(x, y) \<in> (depends_on tools)\<^sup>*" "x \<in> set ids" for x y
      using built_first_closed [of "depends_on tools" "map resolved_id closure" x y] c that by (auto simp: closure_ok_def)
    then show ?thesis using Inr c by auto
  qed (use run reach in \<open>simp add: resolve_closure_def\<close>)
qed

definition plain_tool :: "string \<Rightarrow> string list \<Rightarrow> unit tool_def" where
  "plain_tool i deps =
     \<lparr>tool_schema = 1, tool_id = i, tool_summary = [],
      tool_binary = \<lparr>command_name = i, env_override = None, from_target = None, sibling_of = None\<rparr>, tool_deps = deps,
      tool_reads = [], tool_run = None, tool_extensions = [], tool_network = \<lparr>tool_egress = NoEgress, oauth_inbound = False\<rparr>,
      tool_home = SessionHome, tool_files = [], tool_secrets = [],
      tool_policy = \<lparr>allows_jit = False, allows_fork = False, section_exec_paths = [], reads_sysctl = False\<rparr>\<rparr>"

definition plain_yaml :: "unit tool_yaml" where
  "plain_yaml = \<lparr>probe_schema = (\<lambda>_. Inr 1), full_def = (\<lambda>t. Inr (plain_tool t (if t = ''agent'' then [''rg''] else [])))\<rparr>"

definition plain_host :: tool_host where
  "plain_host = \<lparr>env_var = (\<lambda>_. None), path_dirs = [''/usr/bin''], is_executable_file = (\<lambda>_. True), canonical_path = Inr, target_output = (\<lambda>_. None)\<rparr>"

definition plain_registry :: "unit tool_registry" where
  "plain_registry = [(''agent'', plain_tool ''agent'' [''rg''], ''a.yaml''), (''rg'', plain_tool ''rg'' [], ''b.yaml'')]"

theorem resolve_closure_correct_witness:
  "map_sum id (map resolved_id) (resolve_closure plain_registry plain_host [''agent'']) = Inr [''rg'', ''agent''] \<and>
   (depends_on plain_registry)\<^sup>* `` {''agent''} = {''rg'', ''agent''}"
proof -
  have "\<not> isl (from_embedded plain_yaml [(''a.yaml'', ''agent''), (''b.yaml'', ''rg'')])"
    "insert_files plain_yaml [(''a.yaml'', ''agent''), (''b.yaml'', ''rg'')] [] = Inr plain_registry" by code_simp+
  then have "from_embedded plain_yaml [(''a.yaml'', ''agent''), (''b.yaml'', ''rg'')] = Inr plain_registry"
    by (auto simp: from_embedded_def validated_Inr split: sum.splits)
       (metis isl_def sum.exhaust_sel validated_Inr)
  then have built: "built plain_yaml plain_registry" by (rule built.embedded)
  have known: "set [''agent''] \<subseteq> dom (map_of plain_registry)" by (simp add: plain_registry_def)
  have run: "map_sum id (map resolved_id) (resolve_closure plain_registry plain_host [''agent'']) = Inr [''rg'', ''agent'']" by code_simp
  then obtain closure where c: "resolve_closure plain_registry plain_host [''agent''] = Inr closure" "map resolved_id closure = [''rg'', ''agent'']"
    by (cases "resolve_closure plain_registry plain_host [''agent'']") auto
  with resolve_closure_correct [OF built known, of plain_host] run show ?thesis by simp
qed

definition circular_registry :: "unit tool_registry" where
  "circular_registry = [(''a'', plain_tool ''a'' [''b''], ''a.yaml''), (''b'', plain_tool ''b'' [''a''], ''b.yaml'')]"

theorem validated_decides_witness:
  "registry_valid plain_registry \<and> chain (depends_on circular_registry) [''a'', ''b'', ''a'']"
proof -
  have "\<not> isl (validated plain_registry)" by code_simp
  then have "\<exists>t. validated plain_registry = Inr t" by (cases "validated plain_registry") auto
  moreover have "map_sum id (map fst) (validated circular_registry) = Inl (DepCycle [''a'', ''b'', ''a''])" by code_simp
  then have "validated circular_registry = Inl (DepCycle [''a'', ''b'', ''a''])" by (cases "validated circular_registry") auto
  ultimately show ?thesis using validated_decides [of plain_registry] validated_decides [of circular_registry] by blast
qed

end
