(* ===== verification/Build_Graph.thy ===== *)
theory Build_Graph
  imports Tool_Registry
begin

text \<open>
  The build graph (\<open>tddy-build\<close>: \<open>graph.rs\<close>, \<open>lower.rs\<close>, \<open>manifest.rs\<close>, \<open>builtin.rs\<close>, \<open>plugin.rs\<close>, \<open>capabilities.rs\<close>,
  \<open>actions.proto\<close>): targets and their actions, the order in which targets are built and the waves in which actions run.
  The YAML values of a target's configuration and the plugins are parameters.
\<close>

section \<open>Data\<close>

datatype build_error =
    Yaml string
  | Manifest string
  | Cycle string
  | UnknownTarget string
  | Io string
  | Exec string

record file_set =
  include_globs :: "string list"
  exclude_globs :: "string list"
  set_root :: string

record output_decl =
  output_path :: string
  output_kind :: int

record build_action =
  action_id :: string
  action_description :: string
  action_type :: int
  action_command :: "string list"
  action_env :: "(string \<times> string) list"
  action_inputs :: "file_set list"
  action_outputs :: "output_decl list"
  tool_dep_ids :: "string list"
  action_dir :: string
  action_sandbox :: bool

record 'v target_config =
  config_type :: string
  config_fields :: 'v

record target_capabilities =
  can_compile :: bool
  can_test :: bool
  can_run :: bool
  can_debug :: bool

record 'v build_target =
  target_id :: string
  target_label :: string
  target_deps :: "string list"
  target_tags :: "string list"
  target_languages :: "string list"
  capabilities :: "target_capabilities option"
  target_actions :: "build_action list"
  target_config :: "'v target_config option"

record 'v build_manifest =
  schema_version :: u32
  manifest_targets :: "'v build_target list"

datatype build_mode = Compile | Test | Run

fun mode_label :: "build_mode \<Rightarrow> string" where
  "mode_label Compile = ''compile''"
| "mode_label Test = ''test''"
| "mode_label Run = ''run''"

section \<open>Built-in types\<close>

definition script_type :: string where "script_type = ''script''"

definition tool_type :: string where "tool_type = ''tool''"

definition group_type :: string where "group_type = ''group''"

definition is_builtin :: "string \<Rightarrow> bool" where
  "is_builtin name \<longleftrightarrow> name \<in> {script_type, tool_type, group_type}"

record script_target =
  script_command :: "string list"
  script_env :: "(string \<times> string) list"
  script_dir :: "string list"

datatype 'v tool_target = Inline "'v tool_def" | Ref string

text \<open>
  How a YAML value reads: the keys of a mapping (those that are strings), a string field, the value as a group or a
  script, its text, and the two readings of the text of a tool definition.
\<close>

record 'v yaml_fields =
  mapping_keys :: "'v \<Rightarrow> string option list option"
  string_field :: "'v \<Rightarrow> string \<Rightarrow> string option"
  read_group :: "'v \<Rightarrow> string + string list"
  read_script :: "'v \<Rightarrow> string + script_target"
  yaml_text :: "'v \<Rightarrow> string + string"
  tool_texts :: "'v tool_yaml"

definition tool_definition :: "'v yaml_fields \<Rightarrow> string \<Rightarrow> 'v \<Rightarrow> build_error + 'v tool_def" where
  "tool_definition y tid conf =
     try_then (map_err (\<lambda>e. Manifest (''tool target '' @ tid @ '': '' @ e)) (yaml_text y conf)) (\<lambda>yaml.
       map_err (\<lambda>error. Manifest (''tool target '' @ tid @ '': '' @ (case error of ParseError _ message \<Rightarrow> message | other \<Rightarrow> show_tool_error other)))
         (parse_tool (tool_texts y) tid yaml))"

definition parse_tool_target :: "'v yaml_fields \<Rightarrow> string \<Rightarrow> 'v \<Rightarrow> build_error + 'v tool_target" where
  "parse_tool_target y tid conf =
     (let refuse = (\<lambda>reason. Manifest (''tool target '' @ tid @ '': '' @ reason))
      in try_then (ok_or (refuse ''its config is not a mapping'') (mapping_keys y conf)) (\<lambda>entries.
         let keys = List.map_filter id entries
         in if list_ex (\<lambda>key. key = ''bin_dir'' \<or> key = ''commands'') keys
            then Inl (refuse (''the {bin_dir, commands} tool shape is no longer supported '' @ em_dash @
                   '' declare a tool definition (schema_version, id, summary, binary) or ref: <tool id> instead''))
            else if ''ref'' \<in> set keys
            then let others = filter (\<lambda>key. key \<noteq> ''ref'') keys
                 in if others \<noteq> []
                    then Inl (refuse (CHR 0x60 # ''ref'' @ CHR 0x60 # '' names a registry tool and takes no other fields, but this config also has '' @
                           join_with '', '' others))
                    else try_then (ok_or (refuse (CHR 0x60 # ''ref'' @ CHR 0x60 # '' must name a tool id'')) (string_field y conf ''ref''))
                           (\<lambda>r. Inr (Ref r))
            else try_then (tool_definition y tid conf) (\<lambda>def. Inr (Inline def))))"

definition script_action :: "'v yaml_fields \<Rightarrow> 'v \<Rightarrow> build_error + build_action" where
  "script_action y conf =
     try_then (map_err (\<lambda>e. Manifest (''invalid script config: '' @ e)) (read_script y conf)) (\<lambda>script.
       Inr \<lparr>action_id = ''script'', action_description = ''script'', action_type = 1, action_command = script_command script,
            action_env = script_env script, action_inputs = [], action_outputs = [], tool_dep_ids = [],
            action_dir = join_with ''/'' (script_dir script), action_sandbox = False\<rparr>)"

definition group_member_ids :: "'v yaml_fields \<Rightarrow> 'v \<Rightarrow> build_error + string list" where
  "group_member_ids y conf = map_err (\<lambda>e. Manifest (''invalid group config: '' @ e)) (read_group y conf)"

section \<open>Lowering\<close>

record 'v lower_context =
  type_name :: string
  lower_id :: string
  lower_label :: string
  lower_deps :: "string list"
  lower_config :: 'v

type_synonym 'v plugin = "'v lower_context \<Rightarrow> build_mode \<Rightarrow> build_error + build_action list"

type_synonym 'v registry = "string \<Rightarrow> 'v plugin option"

text \<open>The default \<open>lower_mode\<close> of a plugin that only compiles.\<close>

definition compile_only :: "('v lower_context \<Rightarrow> build_error + build_action list) \<Rightarrow> 'v plugin" where
  "compile_only lower ctx mode =
     (case mode of
        Compile \<Rightarrow> lower ctx
      | _ \<Rightarrow> Inl (Manifest (''target type '' @ quote_char @ type_name ctx @ quote_char @ '' does not support '' @ mode_label mode)))"

definition lower_target :: "'v yaml_fields \<Rightarrow> 'v registry \<Rightarrow> 'v build_target \<Rightarrow> build_mode \<Rightarrow> build_error + build_action list" where
  "lower_target y reg t mode =
     (let own = (if mode = Compile then target_actions t else [])
      in case target_config t of
           None \<Rightarrow> Inr own
         | Some cfg \<Rightarrow>
             if is_builtin (config_type cfg) \<and> mode \<noteq> Compile
             then Inl (Manifest (''target type '' @ quote_char @ config_type cfg @ quote_char @ '' does not support '' @ mode_label mode))
             else if config_type cfg = script_type
             then try_then (script_action y (config_fields cfg)) (\<lambda>a. Inr (own @ [a]))
             else if config_type cfg = tool_type \<or> config_type cfg = group_type then Inr own
             else case reg (config_type cfg) of
                    None \<Rightarrow> Inl (Manifest (''unknown target type: '' @ config_type cfg))
                  | Some plugin \<Rightarrow>
                      try_then (plugin \<lparr>type_name = config_type cfg, lower_id = target_id t, lower_label = target_label t,
                                        lower_deps = target_deps t, lower_config = config_fields cfg\<rparr> mode) (\<lambda>as. Inr (own @ as)))"

section \<open>Edges between targets\<close>

definition tool_producer :: "'v yaml_fields \<Rightarrow> 'v build_target \<Rightarrow> string option" where
  "tool_producer y t =
     (case target_config t of
        None \<Rightarrow> None
      | Some cfg \<Rightarrow>
          if config_type cfg \<noteq> tool_type then None
          else case parse_tool_target y (target_id t) (config_fields cfg) of
                 Inr (Inline def) \<Rightarrow> map_option producing_target (from_target (tool_binary def))
               | _ \<Rightarrow> None)"

definition target_edges :: "'v yaml_fields \<Rightarrow> 'v build_target \<Rightarrow> build_error + string list" where
  "target_edges y t =
     try_then (case target_config t of
                 None \<Rightarrow> Inr []
               | Some cfg \<Rightarrow> if config_type cfg = group_type then group_member_ids y (config_fields cfg) else Inr []) (\<lambda>members.
       Inr (target_deps t @ members @ concat (map tool_dep_ids (target_actions t)) @
            (case tool_producer y t of None \<Rightarrow> [] | Some p \<Rightarrow> [p])))"

record 'v build_graph =
  graph_targets :: "(string \<times> 'v build_target) list"
  graph_order :: "string list"

section \<open>The order of targets\<close>

abbreviation (input) arrow :: string where
  "arrow \<equiv> [CHR 0x20, CHR 0xE2, CHR 0x86, CHR 0x92, CHR 0x20]"

lemma unstacked_less:
  assumes "position (\<lambda>v. v = i) on_stack = None" and "map_of ts i = Some t"
  shows "card (fst ` set ts - insert i (set on_stack)) < card (fst ` set ts - set on_stack)"
proof (rule psubset_card_mono)
  have "i \<in> fst ` set ts - set on_stack"
    using assms by (auto simp: position_None dest: map_of_SomeD intro: rev_image_eqI)
  then show "fst ` set ts - insert i (set on_stack) \<subset> fst ` set ts - set on_stack" by auto
qed simp

function visit_build_order ::
    "'v yaml_fields \<Rightarrow> (string \<times> 'v build_target) list \<Rightarrow> string \<Rightarrow> string list \<Rightarrow> string list \<Rightarrow> build_error + string list"
  and visit_all ::
    "'v yaml_fields \<Rightarrow> (string \<times> 'v build_target) list \<Rightarrow> string list \<Rightarrow> string list \<Rightarrow> string list \<Rightarrow> build_error + string list" where
  "visit_build_order y ts i visited on_stack =
     (if i \<in> set visited then Inr visited
      else case position (\<lambda>v. v = i) on_stack of
             Some start \<Rightarrow> Inl (Cycle (''cycle through target '' @ join_with arrow (drop start on_stack @ [i])))
           | None \<Rightarrow>
               (case map_of ts i of
                  None \<Rightarrow> Inr (visited @ [i])
                | Some t \<Rightarrow>
                    (case target_edges y t of
                       Inl e \<Rightarrow> Inl e
                     | Inr ds \<Rightarrow>
                         (case visit_all y ts ds visited (on_stack @ [i]) of
                            Inl e \<Rightarrow> Inl e
                          | Inr visited' \<Rightarrow> Inr (visited' @ [i])))))"
| "visit_all y ts [] visited on_stack = Inr visited"
| "visit_all y ts (d # ds) visited on_stack =
     (case visit_build_order y ts d visited on_stack of
        Inl e \<Rightarrow> Inl e
      | Inr visited' \<Rightarrow> visit_all y ts ds visited' on_stack)"
  by pat_completeness auto

termination
  by (relation "inv_image (less_than <*lex*> less_than) (\<lambda>x. case x of
        Inl (y, ts, i, visited, on_stack) \<Rightarrow> (card (fst ` set ts - set on_stack), 0)
      | Inr (y, ts, ds, visited, on_stack) \<Rightarrow> (card (fst ` set ts - set on_stack), Suc (length ds)))")
    (auto dest: unstacked_less)

declare visit_build_order.simps [simp del]

definition build_order :: "'v yaml_fields \<Rightarrow> 'v build_graph \<Rightarrow> string \<Rightarrow> build_error + string list" where
  "build_order y g i =
     (if map_of (graph_targets g) i = None then Inl (UnknownTarget i) else visit_build_order y (graph_targets g) i [] [])"

fun check_each :: "'v yaml_fields \<Rightarrow> 'v build_graph \<Rightarrow> string list \<Rightarrow> build_error + unit" where
  "check_each y g [] = Inr ()"
| "check_each y g (i # is) = try_then (visit_build_order y (graph_targets g) i [] []) (\<lambda>_. check_each y g is)"

definition check_target_cycles :: "'v yaml_fields \<Rightarrow> 'v build_graph \<Rightarrow> build_error + unit" where
  "check_target_cycles y g = check_each y g (graph_order g)"

fun add_targets :: "'v build_graph \<Rightarrow> 'v build_target list \<Rightarrow> build_error + 'v build_graph" where
  "add_targets g [] = Inr g"
| "add_targets g (t # ts) =
     (if map_of (graph_targets g) (target_id t) \<noteq> None then Inl (Manifest (''duplicate target id: '' @ target_id t))
      else add_targets \<lparr>graph_targets = (target_id t, t) # graph_targets g, graph_order = graph_order g @ [target_id t]\<rparr> ts)"

definition from_manifests :: "'v yaml_fields \<Rightarrow> 'v build_manifest list \<Rightarrow> build_error + 'v build_graph" where
  "from_manifests y ms =
     try_then (add_targets \<lparr>graph_targets = [], graph_order = []\<rparr> (concat (map manifest_targets ms))) (\<lambda>g.
     try_then (check_target_cycles y g) (\<lambda>_. Inr g))"

definition actions_for_mode :: "'v yaml_fields \<Rightarrow> 'v registry \<Rightarrow> 'v build_graph \<Rightarrow> string \<Rightarrow> build_mode \<Rightarrow> build_error + build_action list" where
  "actions_for_mode y reg g tid mode =
     try_then (ok_or (UnknownTarget tid) (map_of (graph_targets g) tid)) (\<lambda>t. lower_target y reg t mode)"

section \<open>Targets are built in order of their dependencies\<close>

definition depends :: "'v yaml_fields \<Rightarrow> (string \<times> 'v build_target) list \<Rightarrow> (string \<times> string) set" where
  "depends y ts = {(i, d). \<exists>t ds. map_of ts i = Some t \<and> target_edges y t = Inr ds \<and> d \<in> set ds}"

text \<open>The edges of a target as the visit meets them; a target that is not declared has none.\<close>

definition edge_list :: "'v yaml_fields \<Rightarrow> (string \<times> 'v build_target) list \<Rightarrow> string \<Rightarrow> build_error + string list" where
  "edge_list y ts i = (case map_of ts i of None \<Rightarrow> Inr [] | Some t \<Rightarrow> target_edges y t)"

interpretation build_visit: depth_first "visit_build_order y ts" "visit_all y ts" "edge_list y ts" UNIV "dom (map_of ts)"
  "\<lambda>seg. Cycle (''cycle through target '' @ join_with arrow (seg @ [hd seg]))" for y ts
proof unfold_locales
  fix i :: string and vis st :: "string list" and k
  assume "set vis \<inter> set st = {}" and k: "position (\<lambda>v. v = i) st = Some k"
  moreover have "i \<in> set st" "hd (drop k st) = i" using k by (auto simp: position_Some hd_drop_conv_nth)
  ultimately show "visit_build_order y ts i vis st = Inl (Cycle (''cycle through target '' @ join_with arrow (drop k st @ [hd (drop k st)])))"
    by (subst visit_build_order.simps) auto
next
  fix i :: string and vis st :: "string list"
  assume "i \<notin> set st"
  then have st: "position (\<lambda>v. v = i) st = None" by (auto simp: position_None)
  show "visit_build_order y ts i vis st = Inl e" if "i \<notin> set vis" and "edge_list y ts i = Inl e" for e
    using that st by (subst visit_build_order.simps) (auto simp: edge_list_def split: option.splits)
  show "visit_build_order y ts i vis st = (case visit_all y ts ds vis (st @ [i]) of Inl e \<Rightarrow> Inl e | Inr vis' \<Rightarrow> Inr (vis' @ [i]))"
    if "i \<notin> set vis" and "edge_list y ts i = Inr ds" for ds
    using that st by (subst visit_build_order.simps) (auto simp: edge_list_def split: option.splits)
qed (auto simp: edge_list_def finite_dom_map_of visit_build_order.simps split: option.splits)

lemma build_edges: "dep_edges (edge_list y ts) UNIV = depends y ts"
  by (auto simp: dep_edges_def depends_def edge_list_def split: option.splits)

lemmas built_from_scratch = build_visit.visit_from_scratch [unfolded build_edges, OF _ UNIV_I]

lemma check_each_Inr: "check_each y g is = Inr u \<longleftrightarrow> (\<forall>i\<in>set is. \<exists>order. visit_build_order y (graph_targets g) i [] [] = Inr order)"
  by (induction "is") (auto simp: try_then_Inr)

lemma add_targets_Inr:
  "add_targets g ts = Inr g' \<longleftrightarrow>
     distinct (map target_id ts) \<and> target_id ` set ts \<inter> fst ` set (graph_targets g) = {} \<and>
     g' = \<lparr>graph_targets = rev (map (\<lambda>t. (target_id t, t)) ts) @ graph_targets g, graph_order = graph_order g @ map target_id ts\<rparr>"
proof (induction ts arbitrary: g)
  case (Cons t ts)
  show ?case by (auto simp: Cons.IH map_of_eq_None_iff)
next
  case Nil
  show ?case by (cases g) auto
qed

abbreviation (input) declared :: "'v build_manifest list \<Rightarrow> 'v build_target list" where
  "declared ms \<equiv> concat (map manifest_targets ms)"

lemma from_manifests_Inr:
  "from_manifests y ms = Inr g \<longleftrightarrow>
     distinct (map target_id (declared ms)) \<and>
     g = \<lparr>graph_targets = rev (map (\<lambda>t. (target_id t, t)) (declared ms)), graph_order = map target_id (declared ms)\<rparr> \<and>
     (\<forall>i\<in>target_id ` set (declared ms). \<exists>order. visit_build_order y (graph_targets g) i [] [] = Inr order)"
  by (auto simp: from_manifests_def try_then_Inr add_targets_Inr check_target_cycles_def check_each_Inr)

definition readable :: "'v yaml_fields \<Rightarrow> 'v build_target \<Rightarrow> bool" where
  "readable y t \<longleftrightarrow> (\<exists>ds. target_edges y t = Inr ds)"

definition by_id :: "'v build_manifest list \<Rightarrow> (string \<times> 'v build_target) list" where
  "by_id ms = map (\<lambda>t. (target_id t, t)) (declared ms)"

lemma depends_rev: "distinct (map fst ts) \<Longrightarrow> depends y (rev ts) = depends y ts"
  by (simp add: depends_def map_of_eq_Some_iff distinct_map)

lemma graph_accepted:
  assumes "\<forall>t\<in>set (declared ms). readable y t" and "distinct (map target_id (declared ms))" and "acyclic (depends y (by_id ms))"
  shows "\<exists>g. from_manifests y ms = Inr g"
proof -
  let ?ts = "rev (by_id ms)"
  have E: "depends y ?ts = depends y (by_id ms)" using assms(2) by (intro depends_rev) (simp add: by_id_def comp_def)
  have readable: "\<exists>ds. edge_list y ?ts i = Inr ds" for i
    using assms(1) by (auto simp: edge_list_def readable_def by_id_def dest!: map_of_SomeD split: option.splits)
  have "\<exists>order. visit_build_order y ?ts i [] [] = Inr order" for i
  proof (cases "visit_build_order y ?ts i [] []")
    case (Inl e)
    then have "(\<exists>xs. circle (depends y ?ts) xs) \<or> (\<exists>j. edge_list y ?ts j = Inl e)"
      using build_visit.visit_refused unfolding build_edges by blast
    then show ?thesis using assms(3) E circle_not_acyclic readable by (metis sum.distinct(1))
  qed blast
  then show ?thesis using assms(2) by (auto simp: from_manifests_Inr by_id_def)
qed

lemma accepted_acyclic:
  assumes "from_manifests y ms = Inr g"
  shows "distinct (map target_id (declared ms))" and "graph_targets g = rev (by_id ms)"
    and "depends y (graph_targets g) = depends y (by_id ms)" and "acyclic (depends y (by_id ms))"
proof -
  show d: "distinct (map target_id (declared ms))" and g: "graph_targets g = rev (by_id ms)"
    using assms by (auto simp: from_manifests_Inr by_id_def)
  show E: "depends y (graph_targets g) = depends y (by_id ms)"
    unfolding g using d by (intro depends_rev) (simp add: by_id_def comp_def)
  show "acyclic (depends y (by_id ms))"
    unfolding acyclic_def
  proof (intro allI notI)
    fix x assume cyc: "(x, x) \<in> (depends y (by_id ms))\<^sup>+"
    then obtain z where "(x, z) \<in> depends y (by_id ms)" by (meson tranclD)
    then have "x \<in> target_id ` set (declared ms)"
      by (fastforce simp: depends_def by_id_def dest!: map_of_SomeD)
    then obtain order where v: "visit_build_order y (graph_targets g) x [] [] = Inr order"
      using assms unfolding from_manifests_Inr by blast
    then have "x \<in> set order" using built_from_scratch(3) by fastforce
    then show False using built_first_acyclic built_from_scratch(1) [OF v] cyc E by metis
  qed
qed

text \<open>
  C22. Manifests whose configurations can be read make a graph exactly when no two targets share an id and the
  dependencies of the targets (declared ones, members of groups, tools and the producers of tools) have no cycle. In an
  accepted graph every target has a build order: it holds the target and everything it depends on, once each, every
  dependency before what depends on it, and ends with the target.
\<close>

theorem accepted_graph_has_build_orders:
  assumes "\<forall>t\<in>set (declared ms). readable y t"
  shows "((\<exists>g. from_manifests y ms = Inr g) \<longleftrightarrow> distinct (map target_id (declared ms)) \<and> acyclic (depends y (by_id ms))) \<and>
    (\<forall>g i. from_manifests y ms = Inr g \<and> i \<in> target_id ` set (declared ms) \<longrightarrow>
       (\<exists>order. build_order y g i = Inr order \<and> built_first (depends y (by_id ms)) order \<and> last order = i \<and>
          set order = (depends y (by_id ms))\<^sup>* `` {i}))"
proof (intro conjI allI impI)
  show "(\<exists>g. from_manifests y ms = Inr g) \<longleftrightarrow> distinct (map target_id (declared ms)) \<and> acyclic (depends y (by_id ms))"
    using graph_accepted [OF assms] accepted_acyclic by blast
  fix g i assume gi: "from_manifests y ms = Inr g \<and> i \<in> target_id ` set (declared ms)"
  note acc = accepted_acyclic [OF conjunct1 [OF gi]]
  obtain order where v: "visit_build_order y (graph_targets g) i [] [] = Inr order"
    using gi unfolding from_manifests_Inr by blast
  have "map_of (graph_targets g) i \<noteq> None"
    unfolding acc(2) using gi by (auto simp: map_of_eq_None_iff by_id_def image_image)
  then have "build_order y g i = Inr order" using v by (simp add: build_order_def)
  then show "\<exists>order. build_order y g i = Inr order \<and> built_first (depends y (by_id ms)) order \<and> last order = i \<and>
      set order = (depends y (by_id ms))\<^sup>* `` {i}"
    using built_from_scratch [OF v] acc(3) by metis
qed

text \<open>An application that uses a library, which is generated by a script of a third target.\<close>

definition no_yaml :: "unit yaml_fields" where
  "no_yaml = \<lparr>mapping_keys = (\<lambda>_. None), string_field = (\<lambda>_ _. None), read_group = (\<lambda>_. Inl ''no group''),
     read_script = (\<lambda>_. Inl ''no script''), yaml_text = (\<lambda>_. Inl ''no text''),
     tool_texts = \<lparr>probe_schema = (\<lambda>_. Inl ''no schema''), full_def = (\<lambda>_. Inl ''no tool'')\<rparr>\<rparr>"

definition plain_target :: "string \<Rightarrow> string list \<Rightarrow> unit build_target" where
  "plain_target i ds = \<lparr>target_id = i, target_label = i, target_deps = ds, target_tags = [], target_languages = [],
     capabilities = None, target_actions = [], target_config = None\<rparr>"

definition sample_manifests :: "unit build_manifest list" where
  "sample_manifests =
     [\<lparr>schema_version = 1, manifest_targets = [plain_target ''app'' [''lib'', ''gen''], plain_target ''lib'' [''gen'']]\<rparr>,
      \<lparr>schema_version = 1, manifest_targets = [plain_target ''gen'' []]\<rparr>]"

lemma readable_plain: "readable no_yaml (plain_target i ds)"
  by (simp add: readable_def target_edges_def plain_target_def tool_producer_def)

theorem accepted_graph_has_build_orders_witness:
  "\<exists>g order. from_manifests no_yaml sample_manifests = Inr g \<and> build_order no_yaml g ''app'' = Inr order \<and> last order = ''app''"
proof -
  have "\<not> isl (from_manifests no_yaml sample_manifests)" by code_simp
  then obtain g where g: "from_manifests no_yaml sample_manifests = Inr g" by (cases "from_manifests no_yaml sample_manifests") auto
  have "\<forall>t\<in>set (declared sample_manifests). readable no_yaml t" by (auto simp: sample_manifests_def readable_plain)
  moreover have "''app'' \<in> target_id ` set (declared sample_manifests)" by (simp add: sample_manifests_def plain_target_def)
  ultimately show ?thesis using accepted_graph_has_build_orders [of sample_manifests no_yaml] g by blast
qed

end
