(* ===== verification/Build_Waves.thy ===== *)
theory Build_Waves
  imports Build_Graph
begin

text \<open>
  The waves in which actions run (\<open>tddy-build\<close>, \<open>graph.rs\<close>): an action waits for the actions whose outputs its inputs
  match, and for the actions of the targets its own target depends on. \<open>kahn_waves\<close> peels off, wave by wave, the actions
  nothing holds back; its inner loop is the step of the theory of dependency graphs, over a table of in-degrees that is
  a vector. Matching a glob pattern is a parameter: \<open>None\<close> says the pattern is malformed.
\<close>

type_synonym glob = "string \<Rightarrow> string \<Rightarrow> bool option"

definition glob_matches :: "glob \<Rightarrow> string \<Rightarrow> string \<Rightarrow> string \<Rightarrow> bool" where
  "glob_matches glob root pat candidate =
     list_ex (\<lambda>p. case glob p candidate of Some matched \<Rightarrow> matched | None \<Rightarrow> p = candidate)
       (pat # (if root \<noteq> [] \<and> root \<noteq> ''.'' then [trim_end_char CHR ''/'' root @ ''/'' @ pat] else []))"

definition consumer_consumes :: "glob \<Rightarrow> build_action \<Rightarrow> string \<Rightarrow> bool" where
  "consumer_consumes glob consumer path =
     list_ex (\<lambda>fs. list_ex (\<lambda>pat. glob_matches glob (set_root fs) pat path) (include_globs fs)) (action_inputs consumer)"

definition action_overlap_edges :: "glob \<Rightarrow> build_action list \<Rightarrow> (nat \<times> nat) list" where
  "action_overlap_edges glob actions =
     concat (map (\<lambda>(p, producer).
       concat (map (\<lambda>out.
         concat (map (\<lambda>(c, consumer). if p \<noteq> c \<and> consumer_consumes glob consumer (output_path out) then [(p, c)] else [])
           (enumerate 0 actions))) (action_outputs producer))) (enumerate 0 actions))"

section \<open>Waves\<close>

text \<open>Filling the vector of in-degrees and the lists of neighbours; an index out of range panics.\<close>

fun fill :: "(nat \<times> nat) list \<Rightarrow> nat list \<Rightarrow> nat list list \<Rightarrow> (nat list \<times> nat list list) option" where
  "fill [] deg adj = Some (deg, adj)"
| "fill ((from, to) # es) deg adj =
     (if from < length adj \<and> to < length deg
      then fill es (deg[to := deg ! to + 1]) (adj[from := adj ! from @ [to]]) else None)"

definition deg_get :: "nat list \<Rightarrow> nat \<Rightarrow> nat option" where
  "deg_get deg v = (if v < length deg then Some (deg ! v) else None)"

definition deg_put :: "nat \<Rightarrow> nat \<Rightarrow> nat list \<Rightarrow> nat list" where
  "deg_put v d deg = deg[v := d]"

interpretation wave_degrees: degree_table deg_get deg_put "\<lambda>_. True" sum_list
proof unfold_locales
  fix t :: "nat list" and a d n b
  assume d: "deg_get t a = Some d"
  then have a: "a < length t" "t ! a = d" by (auto simp: deg_get_def split: if_splits)
  show "deg_get (deg_put a n t) b = (if b = a then Some n else deg_get t b)"
    using a by (simp add: deg_get_def deg_put_def nth_list_update)
  have "t ! a \<le> sum_list t" using elem_le_sum_list [OF a(1)] .
  then show "sum_list (deg_put a n t) + d = sum_list t + n"
    using a by (simp add: deg_put_def sum_list_update)
qed simp

text \<open>One wave: every node of it releases its neighbours, and those that reach zero make up the next one.\<close>

fun release :: "nat list list \<Rightarrow> nat list \<Rightarrow> nat list \<Rightarrow> nat list \<Rightarrow> (nat list \<times> nat list) option" where
  "release adj [] deg nxt = Some (deg, nxt)"
| "release adj (v # vs) deg nxt =
     (case relax deg_get deg_put (adj ! v) deg nxt of
        None \<Rightarrow> None
      | Some (deg', nxt') \<Rightarrow> release adj vs deg' nxt')"

lemma release_total: "release adj vs deg nxt = Some (deg', nxt') \<Longrightarrow> sum_list deg' + length nxt' \<le> sum_list deg + length nxt"
proof (induction vs arbitrary: deg nxt)
  case (Cons v vs)
  then obtain deg1 nxt1 where r: "relax deg_get deg_put (adj ! v) deg nxt = Some (deg1, nxt1)" "release adj vs deg1 nxt1 = Some (deg', nxt')"
    by (auto split: option.splits)
  then show ?case using Cons.IH wave_degrees.relax_total [OF TrueI r(1)] by fastforce
qed simp

function wave_loop :: "nat list list \<Rightarrow> nat list \<Rightarrow> nat list \<Rightarrow> nat list list \<Rightarrow> nat \<Rightarrow> (nat list list \<times> nat) option" where
  "wave_loop adj deg current waves consumed =
     (if current = [] then Some (waves, consumed)
      else case release adj current deg [] of
             None \<Rightarrow> None
           | Some (deg', nxt) \<Rightarrow> wave_loop adj deg' (sort nxt) (waves @ [current]) (consumed + length current))"
  by pat_completeness auto
termination
proof (relation "measure (\<lambda>(adj, deg, current, waves, consumed). length current + sum_list deg)")
  fix adj deg current waves consumed p deg' nxt
  assume "current \<noteq> []" and "release adj current deg [] = Some p" and "(deg', nxt) = p"
  then have "sum_list deg' + length nxt \<le> sum_list deg" using release_total by fastforce
  with \<open>current \<noteq> []\<close> show "((adj, deg', sort nxt, waves @ [current], consumed + length current), adj, deg, current, waves, consumed)
      \<in> measure (\<lambda>(adj, deg, current, waves, consumed). length current + sum_list deg)"
    by (cases current) simp_all
qed simp

declare wave_loop.simps [simp del]

definition kahn_waves :: "nat \<Rightarrow> (nat \<times> nat) list \<Rightarrow> (build_error + nat list list) option" where
  "kahn_waves n edges =
     (case fill edges (replicate n 0) (replicate n []) of
        None \<Rightarrow> None
      | Some (indegree, adjacency) \<Rightarrow>
          (case wave_loop adjacency indegree (sort (filter (\<lambda>i. indegree ! i = 0) [0..<n])) [] 0 of
             None \<Rightarrow> None
           | Some (waves, consumed) \<Rightarrow>
               if consumed \<noteq> n then Some (Inl (Cycle ''action dependency cycle detected'')) else Some (Inr waves)))"

definition action_waves :: "glob \<Rightarrow> build_action list \<Rightarrow> (build_error + nat list list) option" where
  "action_waves glob actions = kahn_waves (length actions) (action_overlap_edges glob actions)"

section \<open>The waves of a whole graph\<close>

fun collect_actions :: "'v yaml_fields \<Rightarrow> 'v registry \<Rightarrow> 'v build_graph \<Rightarrow> string list \<Rightarrow> build_error + (string \<times> build_action) list" where
  "collect_actions y reg g [] = Inr []"
| "collect_actions y reg g (t # ts) =
     try_then (actions_for_mode y reg g t Compile) (\<lambda>as.
     try_then (collect_actions y reg g ts) (\<lambda>rest. Inr (map (\<lambda>a. (t, a)) as @ rest)))"

fun cross_edges :: "'v yaml_fields \<Rightarrow> 'v build_graph \<Rightarrow> string list \<Rightarrow> (nat \<times> string) list \<Rightarrow> build_error + (nat \<times> nat) list" where
  "cross_edges y g owner [] = Inr []"
| "cross_edges y g owner ((c, t) # rest) =
     (case map_of (graph_targets g) t of
        None \<Rightarrow> cross_edges y g owner rest
      | Some target \<Rightarrow>
          try_then (target_edges y target) (\<lambda>ds.
          try_then (cross_edges y g owner rest) (\<lambda>es.
            Inr (concat (map (\<lambda>dep. map (\<lambda>(p, _). (p, c)) (filter (\<lambda>(_, producer). producer = dep) (enumerate 0 owner))) ds) @ es))))"

definition waves :: "'v yaml_fields \<Rightarrow> glob \<Rightarrow> 'v registry \<Rightarrow> 'v build_graph \<Rightarrow> (build_error + string list list) option" where
  "waves y glob reg g =
     (case collect_actions y reg g (graph_order g) of
        Inl e \<Rightarrow> Some (Inl e)
      | Inr owned \<Rightarrow>
          (case cross_edges y g (map fst owned) (enumerate 0 (map fst owned)) of
             Inl e \<Rightarrow> Some (Inl e)
           | Inr cross \<Rightarrow>
               let nodes = map (\<lambda>(t, a). t @ ''::'' @ action_id a) owned
               in map_option (map_sum id (map (\<lambda>wave. sort (map ((!) nodes) wave))))
                    (kahn_waves (length nodes) (action_overlap_edges glob (map snd owned) @ cross))))"

section \<open>What the waves are\<close>

lemma fill_Some:
  assumes "\<forall>(p, c)\<in>set es. p < n \<and> c < n" and "length deg = n" and "length adj = n"
  shows "\<exists>deg' adj'. fill es deg adj = Some (deg', adj') \<and> length deg' = n \<and> length adj' = n \<and>
    (\<forall>v < n. deg' ! v = deg ! v + waiting es {} v \<and> adj' ! v = adj ! v @ dependents es v)"
  using assms
proof (induction es arbitrary: deg adj)
  case Nil
  then show ?case by (simp add: waiting_def dependents_def)
next
  case (Cons e es)
  obtain p c where e: "e = (p, c)" by (cases e)
  obtain deg' adj' where r: "fill es (deg[c := deg ! c + 1]) (adj[p := adj ! p @ [c]]) = Some (deg', adj')" "length deg' = n" "length adj' = n"
      "\<forall>v < n. deg' ! v = deg[c := deg ! c + 1] ! v + waiting es {} v \<and> adj' ! v = adj[p := adj ! p @ [c]] ! v @ dependents es v"
    using Cons.IH [of "deg[c := deg ! c + 1]" "adj[p := adj ! p @ [c]]"] Cons.prems by auto
  show ?case
    using r Cons.prems by (intro exI [of _ deg'] exI [of _ adj']) (auto simp: e waiting_def dependents_def nth_list_update)
qed

lemma release_spec:
  assumes "kahn_inv V E deg_get deg out (vs @ nxt)" and "set E \<subseteq> V \<times> V" and "\<forall>v\<in>V. adj ! v = dependents E v"
  shows "\<exists>deg' zs. release adj vs deg nxt = Some (deg', nxt @ zs) \<and> kahn_inv V E deg_get deg' (out @ vs) (nxt @ zs)"
  using assms(1)
proof (induction vs arbitrary: deg out nxt)
  case (Cons v vs)
  have "v \<in> V" using Cons.prems by (auto simp: kahn_inv_def)
  obtain deg1 zs where r: "relax deg_get deg_put (dependents E v) deg nxt = Some (deg1, nxt @ zs)"
      and inv: "kahn_inv V E deg_get deg1 (out @ [v]) (vs @ nxt @ zs)"
    using wave_degrees.kahn_step [of V E deg out v "vs @ nxt" nxt] Cons.prems assms(2) by auto
  obtain deg2 zs2 where "release adj vs deg1 (nxt @ zs) = Some (deg2, (nxt @ zs) @ zs2)"
      "kahn_inv V E deg_get deg2 ((out @ [v]) @ vs) ((nxt @ zs) @ zs2)"
    using Cons.IH [OF inv] by blast
  then show ?case using r \<open>v \<in> V\<close> assms(3) by (intro exI [of _ deg2] exI [of _ "zs @ zs2"]) simp
qed simp

text \<open>
  A list of waves in which every vertex stands in the first wave after all it waits for: all its predecessors are in
  earlier waves, and one of them is in the wave just before.
\<close>

definition layered :: "('a \<times> 'a) set \<Rightarrow> 'a list list \<Rightarrow> bool" where
  "layered E ws \<longleftrightarrow> (\<forall>i < length ws. \<forall>v\<in>set (ws ! i).
     (\<forall>p. (p, v) \<in> E \<longrightarrow> p \<in> set (concat (take i ws))) \<and> (0 < i \<longrightarrow> (\<exists>p\<in>set (ws ! (i - 1)). (p, v) \<in> E)))"

lemma layered_Nil [simp]: "layered E []"
  by (simp add: layered_def)

lemma layered_snoc:
  "layered E (ws @ [w]) \<longleftrightarrow> layered E ws \<and> (\<forall>v\<in>set w. (\<forall>p. (p, v) \<in> E \<longrightarrow> p \<in> set (concat ws)) \<and>
     (ws \<noteq> [] \<longrightarrow> (\<exists>p\<in>set (last ws). (p, v) \<in> E)))"
  by (auto simp: layered_def nth_append less_Suc_eq last_conv_nth)

text \<open>Run one after the other, the waves put everything after what it waits for.\<close>

lemma layered_built_first: "layered E ws \<Longrightarrow> distinct (concat ws) \<Longrightarrow> built_first (E\<inverse>) (concat ws)"
proof (induction ws rule: rev_induct)
  case (snoc w ws)
  have new: "\<forall>v\<in>set w. E\<inverse> `` {v} \<subseteq> set (concat ws)" using snoc.prems(1) by (auto simp: layered_snoc)
  have "built_first (E\<inverse>) (concat ws @ vs)" if "distinct (concat ws @ vs)" "set vs \<subseteq> set w" for vs
    using that
  proof (induction vs rule: rev_induct)
    case Nil
    then show ?case using snoc by (simp add: layered_snoc)
  next
    case (snoc v vs)
    then show ?case using new by (simp add: built_first_snoc flip: append_assoc) (meson UnI1 insert_iff subset_iff)
  qed
  from this [of w] show ?case using snoc.prems(2) by simp
qed simp

lemma kahn_inv_ready: "kahn_inv V E get t out ready \<Longrightarrow> v \<in> set ready \<Longrightarrow> (p, v) \<in> set E \<Longrightarrow> p \<in> set out"
  using waiting_zero [of E "set out" v] by (auto simp: kahn_inv_def)

lemma kahn_inv_new:
  assumes "kahn_inv V E get t out ready" and "kahn_inv V E get' t' (out @ ready) nxt" and "v \<in> set nxt"
  shows "\<exists>p\<in>set ready. (p, v) \<in> set E"
proof -
  have "v \<in> V" "v \<notin> set (out @ ready)" using assms(2,3) by (auto simp: kahn_inv_def)
  then have "waiting E (set out) v \<noteq> 0" using assms(1) by (auto simp: kahn_inv_def)
  then obtain p where "(p, v) \<in> set E" "p \<notin> set out" using waiting_zero by metis
  moreover have "p \<in> set (out @ ready)" using kahn_inv_ready [OF assms(2,3)] calculation(1) .
  ultimately show ?thesis by auto
qed

lemma wave_loop_spec:
  assumes "kahn_inv V E deg_get deg (concat ws) current" and "set E \<subseteq> V \<times> V" and "\<forall>v\<in>V. adj ! v = dependents E v"
    and "layered (set E) ws" and "sorted current" and "\<forall>w\<in>set ws. sorted w" and "consumed = length (concat ws)"
    and "ws \<noteq> [] \<longrightarrow> (\<forall>v\<in>set current. \<exists>p\<in>set (last ws). (p, v) \<in> set E)"
  shows "\<exists>ws' deg'. wave_loop adj deg current ws consumed = Some (ws', length (concat ws')) \<and>
    kahn_inv V E deg_get deg' (concat ws') [] \<and> layered (set E) ws' \<and> (\<forall>w\<in>set ws'. sorted w)"
  using assms
proof (induction adj deg current ws consumed rule: wave_loop.induct)
  case (1 adj deg current ws consumed)
  show ?case
  proof (cases "current = []")
    case True
    then show ?thesis using "1.prems" by (subst wave_loop.simps) auto
  next
    case False
    obtain deg1 nxt where r: "release adj current deg [] = Some (deg1, nxt)" and inv: "kahn_inv V E deg_get deg1 (concat ws @ current) nxt"
      using release_spec [of V E deg "concat ws" current "[]" adj] "1.prems"(1-3) by auto
    have inv': "kahn_inv V E deg_get deg1 (concat (ws @ [current])) (sort nxt)" using inv by (simp add: kahn_inv_def)
    have lay: "layered (set E) (ws @ [current])"
      unfolding layered_snoc using "1.prems"(4,8) kahn_inv_ready [OF "1.prems"(1)] by blast
    have new: "\<forall>v\<in>set (sort nxt). \<exists>p\<in>set (last (ws @ [current])). (p, v) \<in> set E"
      using kahn_inv_new [OF "1.prems"(1) inv] by simp
    have "wave_loop adj deg current ws consumed = wave_loop adj deg1 (sort nxt) (ws @ [current]) (consumed + length current)"
      using False r by (subst wave_loop.simps) simp
    moreover have "\<forall>w\<in>set (ws @ [current]). sorted w" "consumed + length current = length (concat (ws @ [current]))"
      using "1.prems"(5,6,7) by simp_all
    ultimately show ?thesis
      using "1.IH" [OF False r refl inv' "1.prems"(2,3) lay sorted_sort] new by metis
  qed
qed

lemma kahn_waves_spec:
  assumes "\<forall>(p, c)\<in>set es. p < n \<and> c < n"
  shows "\<exists>ws. kahn_waves n es = Some (if acyclic (set es) then Inr ws else Inl (Cycle ''action dependency cycle detected'')) \<and>
    (acyclic (set es) \<longrightarrow> distinct (concat ws) \<and> set (concat ws) = {..<n} \<and> layered (set es) ws \<and> (\<forall>w\<in>set ws. sorted w))"
proof -
  let ?V = "{..<n}"
  obtain deg adj where f: "fill es (replicate n 0) (replicate n []) = Some (deg, adj)" "length deg = n" "length adj = n"
      "\<forall>v < n. deg ! v = waiting es {} v \<and> adj ! v = dependents es v"
    using fill_Some [OF assms, of "replicate n 0" "replicate n []"] by auto
  have E: "set es \<subseteq> ?V \<times> ?V" using assms by auto
  let ?current = "sort (filter (\<lambda>i. deg ! i = 0) [0..<n])"
  have inv: "kahn_inv ?V es deg_get deg [] ?current"
    using f by (intro kahn_inv_initial) (auto simp: deg_get_def)
  obtain ws deg' where w: "wave_loop adj deg ?current [] 0 = Some (ws, length (concat ws))" and over: "kahn_inv ?V es deg_get deg' (concat ws) []"
      and lay: "layered (set es) ws" "\<forall>w\<in>set ws. sorted w"
    using wave_loop_spec [of ?V es deg "[]" ?current adj 0] inv E f(4) by auto
  note fin = kahn_done [OF over _ E]
  have "length (concat ws) = n \<longleftrightarrow> set (concat ws) = ?V"
    using fin(1,2) by (metis card_lessThan card_subset_eq distinct_card finite_lessThan)
  then have "length (concat ws) = n \<longleftrightarrow> acyclic (set es)" using fin(4) by simp
  with f(1) w fin lay show ?thesis by (intro exI [of _ ws]) (auto simp: kahn_waves_def)
qed

text \<open>The action \<open>c\<close> reads an output of the action \<open>p\<close>.\<close>

definition feeds :: "glob \<Rightarrow> build_action list \<Rightarrow> (nat \<times> nat) set" where
  "feeds glob actions = {(p, c). p < length actions \<and> c < length actions \<and> p \<noteq> c \<and>
     (\<exists>out\<in>set (action_outputs (actions ! p)). consumer_consumes glob (actions ! c) (output_path out))}"

lemma set_overlap_edges: "set (action_overlap_edges glob actions) = feeds glob actions"
  by (force simp: action_overlap_edges_def feeds_def in_set_enumerate_eq split: if_splits)

text \<open>
  C23. The actions of a target are refused exactly when they feed each other in a circle. Otherwise every action runs in
  exactly one wave, and in the earliest one it can: each action that produces an input of it is in an earlier wave, and
  one of them is in the wave just before. The computation never panics.
\<close>

theorem action_waves_earliest:
  "\<exists>ws. action_waves glob actions =
       Some (if acyclic (feeds glob actions) then Inr ws else Inl (Cycle ''action dependency cycle detected'')) \<and>
     (acyclic (feeds glob actions) \<longrightarrow>
        distinct (concat ws) \<and> set (concat ws) = {..<length actions} \<and> layered (feeds glob actions) ws)"
proof -
  have "\<forall>(p, c)\<in>set (action_overlap_edges glob actions). p < length actions \<and> c < length actions"
    by (auto simp: set_overlap_edges feeds_def)
  from kahn_waves_spec [OF this] show ?thesis by (auto simp: action_waves_def set_overlap_edges)
qed

definition sample_action :: "string \<Rightarrow> string \<Rightarrow> string \<Rightarrow> build_action" where
  "sample_action i reads writes =
     \<lparr>action_id = i, action_description = [], action_type = 1, action_command = [''cc''], action_env = [],
      action_inputs = [\<lparr>include_globs = [reads], exclude_globs = [], set_root = []\<rparr>],
      action_outputs = [\<lparr>output_path = writes, output_kind = 1\<rparr>], tool_dep_ids = [], action_dir = [], action_sandbox = False\<rparr>"

definition sample_actions :: "build_action list" where
  "sample_actions = [sample_action ''link'' ''a.o'' ''a'', sample_action ''compile'' ''a.c'' ''a.o'']"

theorem action_waves_earliest_witness:
  "action_waves (\<lambda>p c. Some (p = c)) sample_actions = Some (Inr [[1], [0]]) \<and>
   layered (feeds (\<lambda>p c. Some (p = c)) sample_actions) [[1], [0]]"
proof -
  have run: "action_waves (\<lambda>p c. Some (p = c)) sample_actions = Some (Inr [[1], [0]])" by code_simp
  with action_waves_earliest [of "\<lambda>p c. Some (p = c)" sample_actions] show ?thesis by (auto split: if_splits)
qed

end
