(* ===== verification/Build_Exec.thy ===== *)
theory Build_Exec
  imports Build_Waves Effects
begin

text \<open>
  Running a build (\<open>tddy-build\<close>: \<open>cache.rs\<close>, \<open>executor.rs\<close>, \<open>executor/tool_run.rs\<close>, \<open>action_convert.rs\<close>, \<open>cache.proto\<close>;
  \<open>tddy-actions\<close>: \<open>spec.rs\<close>, \<open>convert.rs\<close>): the key of a cached action, the cache of results, the tools of an action, one
  action, confined or not, the waves of one target, and a target after the targets it depends on. The hash, the codecs,
  the files and the processes are parameters, on a world of any type. The actions of a wave run together; the model runs
  them in the order of the wave, all of them before the first error of the wave is reported, as \<open>join_all\<close> does.
\<close>

section \<open>Keys\<close>

record file_fingerprint =
  finger_path :: string
  finger_size :: u64
  finger_mtime :: u64

record codec =
  sha256_hex :: "string \<Rightarrow> string"
  json_strings :: "string list \<Rightarrow> string"

abbreviation (input) nul :: string where
  "nul \<equiv> [CHR 0x00]"

definition action_type_str :: "int \<Rightarrow> string" where
  "action_type_str n = (if n = 1 then ''command'' else if n = 2 then ''copy'' else if n = 3 then ''tool'' else ''unspecified'')"

definition output_kind_str :: "int \<Rightarrow> string" where
  "output_kind_str n = (if n = 1 then ''file'' else if n = 2 then ''directory'' else ''unspecified'')"

definition show_fingerprint :: "file_fingerprint \<Rightarrow> string" where
  "show_fingerprint f = finger_path f @ '':'' @ show_nat (unat (finger_size f)) @ '':'' @ show_nat (unat (finger_mtime f)) @ '';''"

text \<open>What is fed to the hash, in order.\<close>

definition key_text :: "codec \<Rightarrow> build_action \<Rightarrow> file_fingerprint list \<Rightarrow> string" where
  "key_text k a fps =
     action_id a @ nul @ ''type'' @ nul @ action_type_str (action_type a) @
     nul @ ''cmd'' @ nul @ json_strings k (action_command a) @
     nul @ ''wd'' @ nul @ action_dir a @
     nul @ ''env'' @ nul @ concat (map (\<lambda>(key, val). key @ ''='' @ val @ '';'') (sort_key fst (action_env a))) @
     nul @ ''inputs'' @ nul @ concat (map show_fingerprint (sort_key finger_path fps)) @
     ''|outputs|'' @ concat (map (\<lambda>out. output_path out @ '':'' @ output_kind_str (output_kind out) @ '';'') (sort_key output_path (action_outputs a))) @
     ''|tool_deps|'' @ concat (map (\<lambda>td. td @ '';'') (sort (tool_dep_ids a)))"

definition digest :: "codec \<Rightarrow> string \<Rightarrow> string" where
  "digest k text = ''sha256:'' @ sha256_hex k text"

definition compute_cache_key :: "codec \<Rightarrow> build_action \<Rightarrow> file_fingerprint list \<Rightarrow> string" where
  "compute_cache_key k a fps = digest k (key_text k a fps)"

definition tools_text :: "codec \<Rightarrow> build_action \<Rightarrow> file_fingerprint list \<Rightarrow> file_fingerprint list \<Rightarrow> string" where
  "tools_text k a fps tools =
     compute_cache_key k a fps @ ''|tools|'' @
     concat (map show_fingerprint (sort_key (\<lambda>f. (finger_path f, finger_size f, finger_mtime f)) tools))"

definition compute_cache_key_with_tools :: "codec \<Rightarrow> build_action \<Rightarrow> file_fingerprint list \<Rightarrow> file_fingerprint list \<Rightarrow> string" where
  "compute_cache_key_with_tools k a fps tools =
     (if tools = [] then compute_cache_key k a fps else digest k (tools_text k a fps tools))"

definition compute_run_cache_key :: "codec \<Rightarrow> build_action \<Rightarrow> file_fingerprint list \<Rightarrow> file_fingerprint list \<Rightarrow> bool \<Rightarrow> string" where
  "compute_run_cache_key k a fps tools hermetic =
     (let key = compute_cache_key_with_tools k a fps tools
      in if \<not> hermetic then key else digest k (key @ ''|hermetic|''))"

section \<open>The cache\<close>

datatype cache_mode = ReadWrite | ReadOnly | Offline

definition cache_writes :: "cache_mode \<Rightarrow> bool" where
  "cache_writes m \<longleftrightarrow> m = ReadWrite"

record cache_entry =
  entry_schema :: u32
  cache_key :: string
  created_at :: u64
  entry_inputs :: "file_fingerprint list"
  entry_outputs :: "string list"
  entry_action :: string
  entry_target :: string

definition sanitize :: "string \<Rightarrow> string" where
  "sanitize i = map (\<lambda>c. if c \<in> {CHR ''/'', CHR '':'', CHR 0x5C, CHR '' ''} then CHR ''_'' else c) i"

definition cache_dir :: string where
  "cache_dir = ''.tddy-build/cache''"

definition cache_target_dir :: "string \<Rightarrow> string \<Rightarrow> string" where
  "cache_target_dir repo_root tid = path_join (path_join repo_root cache_dir) (sanitize tid)"

definition cache_entry_path :: "string \<Rightarrow> string \<Rightarrow> string \<Rightarrow> string" where
  "cache_entry_path repo_root tid aid = path_join (cache_target_dir repo_root tid) (sanitize aid @ ''.json'')"

record outcome =
  outcome_id :: string
  cached :: bool
  exit_code :: i32
  outcome_argv :: "string list"
  outcome_stdout :: string
  outcome_stderr :: string

section \<open>The specification of a process\<close>

datatype spec_output_kind = FileOutput | DirectoryOutput

record action_input =
  input_path :: string
  jail_path :: "string option"
  input_writable :: bool

text \<open>Of an \<open>ActionSpec\<close>, the fields a build action sets; the others are fixed for it.\<close>

record action_spec =
  spec_id :: string
  spec_kind :: string
  spec_command :: "string list"
  spec_inputs :: "action_input list"
  spec_outputs :: "(string \<times> spec_output_kind) list"
  spec_env :: "(string \<times> string) list"
  spec_dir :: "string option"

definition build_action_to_spec :: "string \<Rightarrow> build_action \<Rightarrow> action_spec" where
  "build_action_to_spec repo_root a =
     \<lparr>spec_id = action_id a, spec_kind = ''build-action'', spec_command = action_command a,
      spec_inputs = concat (map (\<lambda>fs.
        let base = (if set_root fs = [] then repo_root else path_join repo_root (set_root fs))
        in map (\<lambda>pat. \<lparr>input_path = path_join base pat, jail_path = None, input_writable = False\<rparr>) (include_globs fs)) (action_inputs a)),
      spec_outputs = map (\<lambda>out. (path_join repo_root (output_path out), if output_kind out = 2 then DirectoryOutput else FileOutput)) (action_outputs a),
      spec_env = fold (\<lambda>(k, v). bt_insert k v) (action_env a) [],
      spec_dir = (if action_dir a = [] then None else Some (path_join repo_root (action_dir a)))\<rparr>"

definition validate_spec :: "action_spec \<Rightarrow> string + unit" where
  "validate_spec spec =
     (if spec_id spec = [] then Inl ''id must not be empty''
      else if spec_kind spec = [] then Inl ''kind must not be empty''
      else if spec_command spec = [] then Inl ''command must not be empty''
      else case List.find (\<lambda>i. \<not> is_absolute (input_path i)) (spec_inputs spec) of
             Some i \<Rightarrow> Inl (''input host_path must be absolute: '' @ input_path i)
           | None \<Rightarrow> Inr ())"

section \<open>The world of a build\<close>

text \<open>
  Files, the host of tools, the clock, the processes and the sandbox. \<open>input_files\<close> are the regular files a glob pattern
  matches, each with its path relative to the repository, \<open>None\<close> for a malformed pattern; \<open>spawn_process\<close> runs a
  specification to its end and answers the exit code, if it has one, and what was written.
\<close>

record 'w build_world =
  read_text :: "string \<Rightarrow> 'w \<Rightarrow> string option"
  decode_entry :: "string \<Rightarrow> cache_entry option"
  encode_entry :: "cache_entry \<Rightarrow> string + string"
  file_exists :: "string \<Rightarrow> 'w \<Rightarrow> bool"
  make_dirs :: "string \<Rightarrow> ('w, string, unit) io"
  write_synced :: "string \<Rightarrow> string \<Rightarrow> ('w, string, unit) io"
  rename_file :: "string \<Rightarrow> string \<Rightarrow> ('w, string, unit) io"
  drop_file :: "string \<Rightarrow> ('w, string, unit) io"
  symlink_file :: "string \<Rightarrow> string \<Rightarrow> ('w, string, unit) io"
  unique_name :: "'w \<Rightarrow> string"
  now_ms :: "'w \<Rightarrow> u64"
  path_variable :: "'w \<Rightarrow> string option"
  input_files :: "string \<Rightarrow> 'w \<Rightarrow> file_fingerprint list option"
  glob_paths :: "string \<Rightarrow> 'w \<Rightarrow> string + (string + string) list"
  file_meta :: "string \<Rightarrow> 'w \<Rightarrow> string + u64 \<times> u64"
  host_at :: "'w \<Rightarrow> tool_host"
  spawn_process :: "action_spec \<Rightarrow> ('w, string, i32 option \<times> string \<times> string) io"
  action_sandbox_run :: "(action_spec \<Rightarrow> resolved_tool list \<Rightarrow> ('w, build_error, outcome) io) option"

definition lookup_cache :: "'w build_world \<Rightarrow> string \<Rightarrow> string \<Rightarrow> string \<Rightarrow> string \<Rightarrow> 'w \<Rightarrow> cache_entry option" where
  "lookup_cache w repo_root tid aid expected_key s =
     (case read_text w (cache_entry_path repo_root tid aid) s of
        None \<Rightarrow> None
      | Some raw \<Rightarrow>
          (case decode_entry w raw of
             None \<Rightarrow> None
           | Some entry \<Rightarrow>
               if cache_key entry \<noteq> expected_key then None
               else if list_all (\<lambda>out. file_exists w (path_join repo_root out) s) (entry_outputs entry) then Some entry
               else None))"

definition persist_cache :: "'w build_world \<Rightarrow> string \<Rightarrow> string \<Rightarrow> cache_entry \<Rightarrow> ('w, build_error, unit) io" where
  "persist_cache w repo_root tid entry =
     (let dir = cache_target_dir repo_root tid;
          path = cache_entry_path repo_root tid (entry_action entry)
      in and_then (on_err Io (make_dirs w dir)) (\<lambda>_ s.
           let tmp = path_join dir (sanitize (entry_action entry) @ ''.part'' @ unique_name w s @ ''.tmp'')
           in and_then (of_result (map_err Manifest (encode_entry w entry))) (\<lambda>text.
              and_then (on_err Io (write_synced w tmp text)) (\<lambda>_. on_err Io (rename_file w tmp path))) s))"

section \<open>Running\<close>

record options =
  no_cache :: bool
  dry_run :: bool
  opt_cache_mode :: cache_mode
  opt_hermetic :: bool

fun all_results :: "('e + 'a) list \<Rightarrow> 'e + 'a list" where
  "all_results [] = Inr []"
| "all_results (r # rs) = try_then r (\<lambda>a. try_then (all_results rs) (\<lambda>as. Inr (a # as)))"

subsection \<open>The tools of a run\<close>

record 'v tool_run =
  run_registry :: "'v tool_registry"
  run_tool_ids :: "(string \<times> string) list"

definition tool_error_text :: "tool_error \<Rightarrow> build_error" where
  "tool_error_text e = Manifest (show_tool_error e)"

definition tool_config :: "'v yaml_fields \<Rightarrow> 'v build_graph \<Rightarrow> string \<Rightarrow> build_error + 'v tool_target" where
  "tool_config y g name =
     try_then (ok_or (UnknownTarget name) (map_of (graph_targets g) name)) (\<lambda>t.
       case target_config t of
         Some cfg \<Rightarrow>
           if config_type cfg = tool_type then parse_tool_target y name (config_fields cfg)
           else Inl (Manifest (''tool_dep_ids names '' @ name @ '', which is not a tool target''))
       | None \<Rightarrow> Inl (Manifest (''tool_dep_ids names '' @ name @ '', which is not a tool target'')))"

fun read_tool_targets :: "'v yaml_fields \<Rightarrow> 'v build_graph \<Rightarrow> string list \<Rightarrow> 'v tool_run \<Rightarrow> build_error + 'v tool_run" where
  "read_tool_targets y g [] run = Inr run"
| "read_tool_targets y g (name # names) run =
     try_then (tool_config y g name) (\<lambda>target.
     try_then (case target of
                 Inline def \<Rightarrow>
                   try_then (map_err tool_error_text (with_tool (run_registry run) def name)) (\<lambda>reg. Inr (reg, tool_id def))
               | Ref r \<Rightarrow>
                   if registry_get (run_registry run) r = None then Inl (tool_error_text (UnknownTool r))
                   else Inr (run_registry run, r)) (\<lambda>(reg, tool).
       read_tool_targets y g names \<lparr>run_registry = reg, run_tool_ids = bt_insert name tool (run_tool_ids run)\<rparr>))"

text \<open>The names are a \<open>BTreeSet\<close>: each once, in order.\<close>

definition new_tool_run :: "'v yaml_fields \<Rightarrow> 'v build_graph \<Rightarrow> 'v tool_registry \<Rightarrow> build_action list \<Rightarrow> build_error + 'v tool_run" where
  "new_tool_run y g registry actions =
     read_tool_targets y g (remdups (sort (concat (map tool_dep_ids actions)))) \<lparr>run_registry = registry, run_tool_ids = []\<rparr>"

definition target_host :: "string \<Rightarrow> tool_host \<Rightarrow> tool_host" where
  "target_host repo_root inner = inner\<lparr>target_output := (\<lambda>b. Some (path_join repo_root (produced_path b)))\<rparr>"

definition run_closure :: "'v tool_run \<Rightarrow> tool_host \<Rightarrow> build_action \<Rightarrow> build_error + resolved_tool list" where
  "run_closure run h a =
     (if tool_dep_ids a = [] then Inr []
      else try_then (all_results (map (\<lambda>name. ok_or (UnknownTarget name) (map_of (run_tool_ids run) name)) (tool_dep_ids a))) (\<lambda>ids.
             map_err (\<lambda>e. Exec (show_tool_error e)) (resolve_closure (run_registry run) h ids)))"

subsection \<open>One action\<close>

definition io_error :: "string \<Rightarrow> string \<Rightarrow> build_error" where
  "io_error path e = Io (path @ '': '' @ e)"

definition tool_fingerprint :: "'w build_world \<Rightarrow> string \<Rightarrow> 'w \<Rightarrow> build_error + file_fingerprint" where
  "tool_fingerprint w path s =
     map_err (io_error path) (try_then (file_meta w path s) (\<lambda>(len, mtime). Inr \<lparr>finger_path = path, finger_size = len, finger_mtime = mtime\<rparr>))"

fun dedup_paths :: "file_fingerprint list \<Rightarrow> file_fingerprint list" where
  "dedup_paths (a # b # fs) = (if finger_path b = finger_path a then dedup_paths (a # fs) else a # dedup_paths (b # fs))"
| "dedup_paths fs = fs"

definition fingerprint_inputs :: "'w build_world \<Rightarrow> string \<Rightarrow> build_action \<Rightarrow> 'w \<Rightarrow> file_fingerprint list" where
  "fingerprint_inputs w repo_root a s =
     dedup_paths (sort_key finger_path (concat (map (\<lambda>fs.
       let base = (if set_root fs = [] then repo_root else path_join repo_root (set_root fs))
       in concat (map (\<lambda>pat. case input_files w (path_join base pat) s of None \<Rightarrow> [] | Some files \<Rightarrow> files) (include_globs fs))) (action_inputs a))))"

definition tool_link_dir :: "string \<Rightarrow> string \<Rightarrow> string \<Rightarrow> string" where
  "tool_link_dir repo_root tid aid =
     path_join (path_join (path_join (path_join repo_root ''.tddy-build/tools'') (sanitize tid)) (sanitize aid)) ''bin''"

fun link_each :: "'w build_world \<Rightarrow> string \<Rightarrow> resolved_tool list \<Rightarrow> ('w, build_error, unit) io" where
  "link_each w links [] = ret ()"
| "link_each w links (t # ts) =
     (let link = path_join links (resolved_command t)
      in and_then (attempt (drop_file w link)) (\<lambda>_.
         and_then (on_err (io_error link) (symlink_file w (resolved_binary t) link)) (\<lambda>_. link_each w links ts)))"

definition link_tools :: "'w build_world \<Rightarrow> string \<Rightarrow> resolved_tool list \<Rightarrow> ('w, build_error, unit) io" where
  "link_tools w links closure = and_then (on_err (io_error links) (make_dirs w links)) (\<lambda>_. link_each w links closure)"

definition path_with :: "'w build_world \<Rightarrow> string \<Rightarrow> 'w \<Rightarrow> string" where
  "path_with w links s = (case path_variable w s of Some existing \<Rightarrow> links @ '':'' @ existing | None \<Rightarrow> links)"

definition in_repo_root :: "string \<Rightarrow> action_spec \<Rightarrow> action_spec" where
  "in_repo_root repo_root spec = (if spec_dir spec = None then spec\<lparr>spec_dir := Some repo_root\<rparr> else spec)"

definition run_action :: "'w build_world \<Rightarrow> string \<Rightarrow> string \<Rightarrow> build_action \<Rightarrow> resolved_tool list \<Rightarrow> ('w, build_error, outcome) io" where
  "run_action w repo_root tid a closure =
     (if action_command a = [] then fail (Exec (''action '' @ action_id a @ '' has an empty command''))
      else let spec = in_repo_root repo_root (build_action_to_spec repo_root a);
               links = tool_link_dir repo_root tid (action_id a)
           in and_then (if closure = [] then ret spec
                        else and_then (link_tools w links closure) (\<lambda>_ s.
                               (Inr (spec\<lparr>spec_env := bt_insert ''PATH'' (path_with w links s) (spec_env spec)\<rparr>), s))) (\<lambda>spec.
              and_then (on_err (\<lambda>e. Exec (''invalid action spec: '' @ e)) (of_result (validate_spec spec))) (\<lambda>_.
              and_then (on_err Exec (spawn_process w spec)) (\<lambda>(code, out, err).
                ret \<lparr>outcome_id = action_id a, cached = False, exit_code = (case code of Some c \<Rightarrow> c | None \<Rightarrow> - 1),
                     outcome_argv = action_command a, outcome_stdout = out, outcome_stderr = err\<rparr>))))"

fun matched_inputs :: "'w build_world \<Rightarrow> action_input list \<Rightarrow> 'w \<Rightarrow> build_error + action_input list" where
  "matched_inputs w [] s = Inr []"
| "matched_inputs w (i # is) s =
     try_then (map_err (\<lambda>e. Manifest (''input '' @ input_path i @ '': '' @ e)) (glob_paths w (input_path i) s)) (\<lambda>paths.
     try_then (map_err Io (all_results paths)) (\<lambda>found.
     try_then (matched_inputs w is s) (\<lambda>rest.
       Inr (map (\<lambda>p. \<lparr>input_path = p, jail_path = None, input_writable = False\<rparr>) found @ rest))))"

definition run_hermetic :: "'w build_world \<Rightarrow> string \<Rightarrow> build_action \<Rightarrow> resolved_tool list \<Rightarrow> ('w, build_error, outcome) io" where
  "run_hermetic w repo_root a closure =
     (case action_sandbox_run w of
        None \<Rightarrow> fail (Exec (''action '' @ action_id a @ '' runs hermetically, but this build has no sandbox''))
      | Some sandbox \<Rightarrow>
          (let spec = in_repo_root repo_root (build_action_to_spec repo_root a)
           in (\<lambda>s. and_then (of_result (matched_inputs w (spec_inputs spec) s)) (\<lambda>found. sandbox (spec\<lparr>spec_inputs := found\<rparr>) closure) s)))"

text \<open>The directories of the declared outputs; a failure to make one is ignored.\<close>

fun prepare_outputs :: "'w build_world \<Rightarrow> string \<Rightarrow> output_decl list \<Rightarrow> ('w, build_error, unit) io" where
  "prepare_outputs w repo_root [] = ret ()"
| "prepare_outputs w repo_root (out # outs) =
     and_then (case path_parent (path_join repo_root (output_path out)) of
                 None \<Rightarrow> ret (Inr ())
               | Some parent \<Rightarrow> attempt (make_dirs w parent)) (\<lambda>_. prepare_outputs w repo_root outs)"

definition run_one :: "codec \<Rightarrow> 'w build_world \<Rightarrow> 'v tool_run \<Rightarrow> string \<Rightarrow> string \<Rightarrow> options \<Rightarrow> build_action \<Rightarrow> ('w, build_error, outcome) io" where
  "run_one k w run repo_root tid opts a s =
     (if dry_run opts
      then (Inr \<lparr>outcome_id = action_id a, cached = False, exit_code = 0, outcome_argv = action_command a, outcome_stdout = [], outcome_stderr = []\<rparr>, s)
      else let fps = fingerprint_inputs w repo_root a s
           in and_then (of_result (run_closure run (target_host repo_root (host_at w s)) a)) (\<lambda>closure.
              and_then (of_result (all_results (map (\<lambda>t. tool_fingerprint w (resolved_binary t) s) closure))) (\<lambda>tools.
                let hermetic = (opt_hermetic opts \<or> action_sandbox a);
                    key = compute_run_cache_key k a fps tools hermetic
                in if \<not> no_cache opts \<and> lookup_cache w repo_root tid (action_id a) key s \<noteq> None
                   then ret \<lparr>outcome_id = action_id a, cached = True, exit_code = 0, outcome_argv = action_command a, outcome_stdout = [], outcome_stderr = []\<rparr>
                   else and_then (prepare_outputs w repo_root (action_outputs a)) (\<lambda>_.
                        and_then (if hermetic then run_hermetic w repo_root a closure else run_action w repo_root tid a closure) (\<lambda>r s'.
                          if exit_code r = 0 \<and> \<not> no_cache opts \<and> cache_writes (opt_cache_mode opts)
                          then and_then (persist_cache w repo_root tid
                                 \<lparr>entry_schema = 1, cache_key = key, created_at = now_ms w s', entry_inputs = fps,
                                  entry_outputs = map output_path (action_outputs a), entry_action = action_id a, entry_target = tid\<rparr>)
                                 (\<lambda>_. ret r) s'
                          else (Inr r, s'))))) s)"

text \<open>All the actions of a wave are run, then the first error among their results is returned.\<close>

fun join_all :: "('a \<Rightarrow> ('w, 'e, 'b) io) \<Rightarrow> 'a list \<Rightarrow> 'w \<Rightarrow> ('e + 'b) list \<times> 'w" where
  "join_all f [] s = ([], s)"
| "join_all f (a # as) s = (case f a s of (r, s1) \<Rightarrow> (case join_all f as s1 of (rs, s2) \<Rightarrow> (r # rs, s2)))"

fun run_waves :: "(nat \<Rightarrow> ('w, build_error, outcome) io) \<Rightarrow> nat list list \<Rightarrow> outcome option list \<Rightarrow> ('w, build_error, outcome option list) io" where
  "run_waves f [] outs s = (Inr outs, s)"
| "run_waves f (wave # rest) outs s =
     (case join_all f wave s of
        (results, s') \<Rightarrow>
          (case all_results results of
             Inl e \<Rightarrow> (Inl e, s')
           | Inr rs \<Rightarrow> run_waves f rest (fold (\<lambda>(idx, r) os. os[idx := Some r]) (zip wave rs) outs) s'))"

definition run_target_actions ::
    "codec \<Rightarrow> 'w build_world \<Rightarrow> glob \<Rightarrow> 'v tool_run \<Rightarrow> string \<Rightarrow> string \<Rightarrow> options \<Rightarrow> build_action list \<Rightarrow> 'w \<Rightarrow> (build_error + outcome list) option \<times> 'w" where
  "run_target_actions k w glob run repo_root tid opts actions s =
     (case action_waves glob actions of
        None \<Rightarrow> (None, s)
      | Some (Inl e) \<Rightarrow> (Some (Inl e), s)
      | Some (Inr ws) \<Rightarrow>
          (case run_waves (\<lambda>idx. run_one k w run repo_root tid opts (actions ! idx)) ws (replicate (length actions) None) s of
             (Inl e, s') \<Rightarrow> (Some (Inl e), s')
           | (Inr outs, s') \<Rightarrow> (if None \<in> set outs then None else Some (Inr (map the outs)), s')))"

record build_record =
  record_target :: string
  record_actions :: "outcome list"

fun make_plans :: "'v yaml_fields \<Rightarrow> 'v registry \<Rightarrow> 'v build_graph \<Rightarrow> string \<Rightarrow> build_mode \<Rightarrow> string list \<Rightarrow> build_error + (string \<times> build_action list) list" where
  "make_plans y reg g tid mode [] = Inr []"
| "make_plans y reg g tid mode (t # ts) =
     try_then (actions_for_mode y reg g t (if t = tid then mode else Compile)) (\<lambda>as.
     try_then (make_plans y reg g tid mode ts) (\<lambda>rest. Inr (if as = [] then rest else (t, as) # rest)))"

fun run_plans ::
    "codec \<Rightarrow> 'w build_world \<Rightarrow> glob \<Rightarrow> 'v tool_run \<Rightarrow> string \<Rightarrow> string \<Rightarrow> options \<Rightarrow> (string \<times> build_action list) list \<Rightarrow> build_record \<Rightarrow> 'w
       \<Rightarrow> (build_error + build_record) option \<times> 'w" where
  "run_plans k w glob run repo_root tid opts [] record s = (Some (Inr record), s)"
| "run_plans k w glob run repo_root tid opts ((t, as) # rest) record s =
     (case run_target_actions k w glob run repo_root t opts as s of
        (Some (Inr outs), s') \<Rightarrow>
          run_plans k w glob run repo_root tid opts rest (if t = tid then record\<lparr>record_actions := outs\<rparr> else record) s'
      | (Some (Inl e), s') \<Rightarrow> (Some (Inl e), s')
      | (None, s') \<Rightarrow> (None, s'))"

definition execute_target ::
    "codec \<Rightarrow> 'w build_world \<Rightarrow> glob \<Rightarrow> 'v yaml_fields \<Rightarrow> 'v registry \<Rightarrow> 'v tool_registry \<Rightarrow>
       string \<Rightarrow> 'v build_graph \<Rightarrow> string \<Rightarrow> options \<Rightarrow> build_mode \<Rightarrow> 'w \<Rightarrow> (build_error + build_record) option \<times> 'w" where
  "execute_target k w glob y reg tools repo_root g tid opts mode s =
     (case try_then (build_order y g tid) (\<lambda>order.
           try_then (make_plans y reg g tid mode order) (\<lambda>plans.
           try_then (new_tool_run y g tools (concat (map snd plans))) (\<lambda>run. Inr (plans, run)))) of
        Inl e \<Rightarrow> (Some (Inl e), s)
      | Inr (plans, run) \<Rightarrow> run_plans k w glob run repo_root tid opts plans \<lparr>record_target = tid, record_actions = []\<rparr> s)"

section \<open>Keys of confined and unconfined runs\<close>

lemma last_sorted_pieces:
  assumes "xs \<noteq> []"
  shows "\<exists>pre. concat (map (\<lambda>x. f x @ '';'') (sort_key g xs)) = pre @ '';''"
proof -
  have "sort_key g xs \<noteq> []" using assms by (metis length_0_conv length_sort)
  then obtain ys y where "sort_key g xs = ys @ [y]" by (cases "sort_key g xs" rule: rev_cases) auto
  then show ?thesis by simp
qed

lemma key_text_end: "\<exists>pre. key_text k a fps = pre @ ''ps|'' \<or> key_text k a fps = pre @ '';''"
proof -
  have shape: "\<exists>pre. key_text k a fps = pre @ ''|tool_deps|'' @ concat (map (\<lambda>td. td @ '';'') (sort (tool_dep_ids a)))"
    unfolding key_text_def by (simp only: append_assoc [symmetric]) blast
  show ?thesis
  proof (cases "tool_dep_ids a = []")
    case True
    with shape obtain pre where "key_text k a fps = (pre @ ''|tool_de'') @ ''ps|''" by auto
    then show ?thesis by blast
  next
    case False
    obtain pre where "key_text k a fps = pre @ ''|tool_deps|'' @ concat (map (\<lambda>td. td @ '';'') (sort (tool_dep_ids a)))"
      using shape by blast
    moreover obtain q where "concat (map (\<lambda>td. td @ '';'') (sort (tool_dep_ids a))) = q @ '';''"
      using last_sorted_pieces [OF False, of "\<lambda>td. td" "\<lambda>td. td"] by auto
    ultimately have "key_text k a fps = (pre @ ''|tool_deps|'' @ q) @ '';''" by simp
    then show ?thesis by blast
  qed
qed

lemma tools_text_end: "tools \<noteq> [] \<Longrightarrow> \<exists>pre. tools_text k a fps tools = pre @ '';''"
proof -
  assume tools: "tools \<noteq> []"
  let ?by = "\<lambda>f. (finger_path f, finger_size f, finger_mtime f)"
  obtain q where "concat (map show_fingerprint (sort_key ?by tools)) = q @ '';''"
    using last_sorted_pieces [OF tools, of "\<lambda>f. finger_path f @ '':'' @ show_nat (unat (finger_size f)) @ '':'' @ show_nat (unat (finger_mtime f))" ?by]
    by (auto simp: show_fingerprint_def [abs_def])
  then have "tools_text k a fps tools = (compute_cache_key k a fps @ ''|tools|'' @ q) @ '';''" by (simp add: tools_text_def)
  then show ?thesis by blast
qed

lemma hermetic_text_apart: "key @ ''|hermetic|'' \<noteq> pre @ ''ps|''" "key @ ''|hermetic|'' \<noteq> pre @ '';''"
proof -
  show "key @ ''|hermetic|'' \<noteq> pre @ ''ps|''"
  proof
    assume "key @ ''|hermetic|'' = pre @ ''ps|''"
    from arg_cong [OF this, of "\<lambda>t. last (butlast t)"] show False by (simp add: butlast_append)
  qed
  show "key @ ''|hermetic|'' \<noteq> pre @ '';''"
  proof
    assume "key @ ''|hermetic|'' = pre @ '';''"
    from arg_cong [OF this, of last] show False by simp
  qed
qed

lemma digest_eq: "digest k x = digest k y \<longleftrightarrow> sha256_hex k x = sha256_hex k y"
  by (simp add: digest_def)

text \<open>
  An entry of an unconfined run never serves a hermetic run, nor the reverse: whatever the two actions, their inputs and
  their tools are, the keys of a confined and of an unconfined run differ, unless the hash takes two different texts to
  one digest.
\<close>

theorem hermetic_keys_apart:
  "compute_run_cache_key k a fps tools True \<noteq> compute_run_cache_key k a' fps' tools' False \<or>
   (\<exists>x y. x \<noteq> y \<and> sha256_hex k x = sha256_hex k y)"
proof (rule disjCI)
  assume "\<not> (\<exists>x y. x \<noteq> y \<and> sha256_hex k x = sha256_hex k y)"
  then have inj: "sha256_hex k x = sha256_hex k y \<Longrightarrow> x = y" for x y by blast
  let ?key = "compute_cache_key_with_tools k a fps tools"
  have apart: "?key @ ''|hermetic|'' \<noteq> key_text k a' fps'" using key_text_end hermetic_text_apart by metis
  show "compute_run_cache_key k a fps tools True \<noteq> compute_run_cache_key k a' fps' tools' False"
  proof (cases "tools' = []")
    case True
    then show ?thesis
      using apart inj by (auto simp: compute_run_cache_key_def compute_cache_key_with_tools_def compute_cache_key_def digest_eq)
  next
    case False
    then have "?key @ ''|hermetic|'' \<noteq> tools_text k a' fps' tools'" using tools_text_end hermetic_text_apart(2) by metis
    then show ?thesis
      using False inj by (auto simp: compute_run_cache_key_def compute_cache_key_with_tools_def digest_eq)
  qed
qed

section \<open>Every action of a target runs, after what it reads\<close>

lemma all_results_Inr: "all_results rs = Inr as \<longleftrightarrow> rs = map Inr as"
proof (induction rs arbitrary: as)
  case (Cons r rs)
  show ?case by (cases r; cases as) (auto simp: try_then_Inr Cons.IH)
qed auto

lemma join_all_append:
  "join_all f (xs @ ys) s = (case join_all f xs s of (rs, s1) \<Rightarrow> (case join_all f ys s1 of (qs, s2) \<Rightarrow> (rs @ qs, s2)))"
  by (induction xs arbitrary: s) (auto split: prod.splits)

lemma join_all_length: "join_all f xs s = (rs, s') \<Longrightarrow> length rs = length xs"
  by (induction xs arbitrary: s rs) (auto split: prod.splits)

abbreviation (input) store_all :: "nat list \<Rightarrow> 'b list \<Rightarrow> 'b option list \<Rightarrow> 'b option list" where
  "store_all is rs outs \<equiv> fold (\<lambda>(idx, r) os. os[idx := Some r]) (zip is rs) outs"

lemma store_all_length [simp]: "length (fold (\<lambda>(idx, r) os. os[idx := Some r]) ps outs) = length outs"
  by (induction ps arbitrary: outs) auto

lemma store_all_other: "i \<notin> fst ` set ps \<Longrightarrow> fold (\<lambda>(idx, r) os. os[idx := Some r]) ps outs ! i = outs ! i"
  by (induction ps arbitrary: outs) auto

lemma store_all_nth:
  assumes "distinct is" and "length rs = length is" and "set is \<subseteq> {..<length outs}" and "k < length is"
  shows "store_all is rs outs ! (is ! k) = Some (rs ! k)"
  using assms
proof (induction "is" arbitrary: rs outs k)
  case (Cons i "is")
  then obtain r qs where rs: "rs = r # qs" by (cases rs) auto
  show ?case
  proof (cases k)
    case 0
    have "i \<notin> fst ` set (zip is qs)" using Cons.prems(1) by (auto dest: set_zip_leftD)
    then show ?thesis using 0 rs Cons.prems(3) by (simp add: store_all_other)
  next
    case (Suc m)
    then show ?thesis using Cons.IH [of qs "outs[i := Some r]" m] Cons.prems rs by simp
  qed
qed simp

lemma run_waves_Inr:
  "run_waves f ws outs s = (Inr outs', s') \<Longrightarrow>
     \<exists>rs. join_all f (concat ws) s = (map Inr rs, s') \<and> length rs = length (concat ws) \<and> outs' = store_all (concat ws) rs outs"
proof (induction f ws outs s rule: run_waves.induct)
  case (2 f wave rest outs s)
  obtain results s1 where j: "join_all f wave s = (results, s1)" by (cases "join_all f wave s")
  then obtain rs where rs: "all_results results = Inr rs" and rest: "run_waves f rest (store_all wave rs outs) s1 = (Inr outs', s')"
    using "2.prems" by (auto split: sum.splits)
  have results: "results = map Inr rs" using rs by (simp add: all_results_Inr)
  then have len: "length rs = length wave" using join_all_length [OF j] by simp
  obtain qs where qs: "join_all f (concat rest) s1 = (map Inr qs, s')" "length qs = length (concat rest)" "outs' = store_all (concat rest) qs (store_all wave rs outs)"
    using "2.IH" [OF j [symmetric] rs rest] by blast
  have "join_all f (concat (wave # rest)) s = (map Inr (rs @ qs), s')" using j results qs(1) by (simp add: join_all_append)
  moreover have "outs' = store_all (concat (wave # rest)) (rs @ qs) outs" using qs(3) len by simp
  ultimately show ?case using len qs(2) by (intro exI [of _ "rs @ qs"]) simp
qed simp

text \<open>
  C24. The actions of a target are run to a result or to an error, never to a panic. When they succeed, every action has run
  exactly once, in an order in which each comes after all the actions that produce its inputs, and the outcomes are
  reported in the order of the actions, not in the order in which they ran.
\<close>

theorem every_action_runs:
  assumes "run_target_actions k w glob run repo_root tid opts actions s = (res, s')"
  shows "res \<noteq> None \<and>
    (\<forall>outs. res = Some (Inr outs) \<longrightarrow> length outs = length actions \<and>
       (\<exists>order. built_first ((feeds glob actions)\<inverse>) order \<and> set order = {..<length actions} \<and>
          join_all (\<lambda>i. run_one k w run repo_root tid opts (actions ! i)) order s = (map (\<lambda>i. Inr (outs ! i)) order, s')))"
proof -
  have "\<forall>(p, c)\<in>set (action_overlap_edges glob actions). p < length actions \<and> c < length actions"
    by (auto simp: set_overlap_edges feeds_def)
  from kahn_waves_spec [OF this] obtain ws where
      ws: "action_waves glob actions = Some (if acyclic (feeds glob actions) then Inr ws else Inl (Cycle ''action dependency cycle detected''))"
      and layers: "acyclic (feeds glob actions) \<longrightarrow> distinct (concat ws) \<and> set (concat ws) = {..<length actions} \<and> layered (feeds glob actions) ws"
    unfolding action_waves_def set_overlap_edges by blast
  show ?thesis
  proof (cases "acyclic (feeds glob actions)")
    case False
    then show ?thesis using ws assms by (auto simp: run_target_actions_def)
  next
    case True
    let ?f = "\<lambda>i. run_one k w run repo_root tid opts (actions ! i)"
    let ?none = "replicate (length actions) None"
    define order where "order = concat ws"
    have d: "distinct order" "set order = {..<length actions}" "built_first ((feeds glob actions)\<inverse>) order"
      using layers True layered_built_first unfolding order_def by blast+
    obtain rw s1 where rw: "run_waves ?f ws ?none s = (rw, s1)" by (cases "run_waves ?f ws ?none s")
    show ?thesis
    proof (cases rw)
      case (Inl e)
      then have "res = Some (Inl e)" using ws True rw assms by (simp add: run_target_actions_def)
      then show ?thesis by simp
    next
      case (Inr outs')
      obtain rs where rs: "join_all ?f order s = (map Inr rs, s1)" "length rs = length order" "outs' = store_all order rs ?none"
        using run_waves_Inr [OF rw [unfolded Inr]] unfolding order_def by blast
      have len: "length outs' = length actions" using rs(3) by simp
      have nth: "outs' ! (order ! j) = Some (rs ! j)" if "j < length order" for j
        unfolding rs(3) by (rule store_all_nth [OF d(1) rs(2) _ that]) (simp add: d(2))
      have "outs' ! i \<noteq> None" if "i < length actions" for i
      proof -
        have "i \<in> set order" using that d(2) by simp
        then obtain j where "j < length order" "order ! j = i" by (meson in_set_conv_nth)
        then show ?thesis using nth by fastforce
      qed
      then have "None \<notin> set outs'" using len by (auto simp: in_set_conv_nth)
      then have res: "res = Some (Inr (map the outs'))" "s' = s1"
        using ws True rw Inr assms by (auto simp: run_target_actions_def)
      have "order ! j < length outs'" if "j < length order" for j using nth_mem [OF that] d(2) len by simp
      then have "map Inr rs = map (\<lambda>i. Inr (map the outs' ! i)) order"
        using nth rs(2) by (intro nth_equalityI) simp_all
      then show ?thesis using res len rs(1) d(2,3) by auto
    qed
  qed
qed

text \<open>A world without files, tools or processes, on which only a dry run makes sense.\<close>

definition idle_world :: "unit build_world" where
  "idle_world =
     \<lparr>read_text = (\<lambda>_ _. None), decode_entry = (\<lambda>_. None), encode_entry = (\<lambda>_. Inl ''no codec''), file_exists = (\<lambda>_ _. False),
      make_dirs = (\<lambda>_. fail ''read only''), write_synced = (\<lambda>_ _. fail ''read only''), rename_file = (\<lambda>_ _. fail ''read only''),
      drop_file = (\<lambda>_. fail ''read only''), symlink_file = (\<lambda>_ _. fail ''read only''), unique_name = (\<lambda>_. ''u''), now_ms = (\<lambda>_. 0),
      path_variable = (\<lambda>_. None), input_files = (\<lambda>_ _. None), glob_paths = (\<lambda>_ _. Inl ''no glob''), file_meta = (\<lambda>_ _. Inl ''no file''),
      host_at = (\<lambda>_. plain_host), spawn_process = (\<lambda>_. fail ''no process''), action_sandbox_run = None\<rparr>"

definition plain_codec :: codec where
  "plain_codec = \<lparr>sha256_hex = (\<lambda>t. t), json_strings = concat\<rparr>"

definition dry :: options where
  "dry = \<lparr>no_cache = False, dry_run = True, opt_cache_mode = ReadWrite, opt_hermetic = False\<rparr>"

definition no_tools :: "unit tool_run" where
  "no_tools = \<lparr>run_registry = [], run_tool_ids = []\<rparr>"

theorem every_action_runs_witness:
  "\<exists>outs order. run_target_actions plain_codec idle_world (\<lambda>p c. Some (p = c)) no_tools ''/r'' ''t'' dry sample_actions () = (Some (Inr outs), ()) \<and>
     map outcome_id outs = [''link'', ''compile''] \<and> set order = {..<2} \<and>
     built_first ((feeds (\<lambda>p c. Some (p = c)) sample_actions)\<inverse>) order"
proof -
  let ?run = "run_target_actions plain_codec idle_world (\<lambda>p c. Some (p = c)) no_tools ''/r'' ''t'' dry sample_actions ()"
  have "map_option (map_sum id (map outcome_id)) (fst ?run) = Some (Inr [''link'', ''compile''])" by code_simp
  then obtain outs where outs: "fst ?run = Some (Inr outs)" "map outcome_id outs = [''link'', ''compile'']"
    by (cases "fst ?run" rule: option.exhaust) (auto simp: map_sum_def split: sum.splits)
  have run: "?run = (Some (Inr outs), ())" using outs(1) by (metis prod.collapse old.unit.exhaust)
  have "length sample_actions = 2" by (simp add: sample_actions_def)
  with every_action_runs [OF run] outs run show ?thesis by auto
qed

theorem hermetic_keys_apart_witness:
  "compute_run_cache_key plain_codec (sample_action ''a'' ''x'' ''y'') [] [] True \<noteq>
   compute_run_cache_key plain_codec (sample_action ''a'' ''x'' ''y'') [] [] False"
  using hermetic_keys_apart [of plain_codec "sample_action ''a'' ''x'' ''y''" "[]" "[]" "sample_action ''a'' ''x'' ''y''" "[]" "[]"]
  by (simp add: plain_codec_def)

section \<open>What a key does not see\<close>

text \<open>The order of the variables does not matter, nor that of the inputs, the outputs and the tools.\<close>

lemma key_text_order:
  assumes "mset env = mset env'" and "distinct (map fst env)"
  shows "key_text k (a\<lparr>action_env := env\<rparr>) fps = key_text k (a\<lparr>action_env := env'\<rparr>) fps"
proof -
  have "sort_key fst env = sort_key fst env'"
    using assms by (intro sort_key_inj_key_eq) (auto simp: distinct_map)
  then show ?thesis by (simp add: key_text_def)
qed

text \<open>
  The variables of an action are hashed as \<open>name=value;\<close> without escaping, so two different environments can share every
  key: one variable whose value contains a semicolon, or two variables.
\<close>

theorem environment_key_ambiguous:
  "compute_run_cache_key k (a\<lparr>action_env := [(''A'', ''1;B=2'')]\<rparr>) fps tools hermetic =
   compute_run_cache_key k (a\<lparr>action_env := [(''A'', ''1''), (''B'', ''2'')]\<rparr>) fps tools hermetic"
proof -
  have "''A'' < ''B''" by (simp add: less_char_def)
  then have "key_text k (a\<lparr>action_env := [(''A'', ''1;B=2'')]\<rparr>) fps = key_text k (a\<lparr>action_env := [(''A'', ''1''), (''B'', ''2'')]\<rparr>) fps"
    by (simp add: key_text_def)
  then show ?thesis
    by (simp add: compute_run_cache_key_def compute_cache_key_with_tools_def tools_text_def compute_cache_key_def)
qed

section \<open>Confinement\<close>

lemma unconfined_irrelevant:
  "lookup_cache (w\<lparr>spawn_process := p\<rparr>) = lookup_cache w" "persist_cache (w\<lparr>spawn_process := p\<rparr>) = persist_cache w"
  "fingerprint_inputs (w\<lparr>spawn_process := p\<rparr>) = fingerprint_inputs w" "tool_fingerprint (w\<lparr>spawn_process := p\<rparr>) = tool_fingerprint w"
  by (auto simp: fun_eq_iff lookup_cache_def persist_cache_def fingerprint_inputs_def tool_fingerprint_def split: option.splits)

lemma matched_inputs_unconfined: "matched_inputs (w\<lparr>spawn_process := p\<rparr>) is s = matched_inputs w is s"
  by (induction "is") (simp_all)

lemma prepare_outputs_unconfined: "prepare_outputs (w\<lparr>spawn_process := p\<rparr>) repo_root outs = prepare_outputs w repo_root outs"
  by (induction outs) (simp_all split: option.splits)

lemma run_hermetic_unconfined: "run_hermetic (w\<lparr>spawn_process := p\<rparr>) = run_hermetic w"
  by (simp add: fun_eq_iff run_hermetic_def matched_inputs_unconfined Let_def split: option.splits)

text \<open>
  C25. A hermetic action is never run unconfined. What it does is the same whatever processes would do outside the sandbox;
  and in a build without a sandbox it is refused, unless a hermetic run before left its result in the cache.
\<close>

theorem hermetic_never_unconfined:
  assumes "opt_hermetic opts \<or> action_sandbox a"
  shows "run_one k (w\<lparr>spawn_process := p\<rparr>) run repo_root tid opts a s = run_one k w run repo_root tid opts a s \<and>
    (action_sandbox_run w = None \<and> \<not> dry_run opts \<longrightarrow>
       (\<forall>r s'. run_one k w run repo_root tid opts a s = (Inr r, s') \<longrightarrow> cached r \<and> s' = s))"
proof
  have hermetic: "(opt_hermetic opts \<or> action_sandbox a) = True" using assms by simp
  have world: "host_at (w\<lparr>spawn_process := p\<rparr>) = host_at w" "now_ms (w\<lparr>spawn_process := p\<rparr>) = now_ms w" by simp_all
  show "run_one k (w\<lparr>spawn_process := p\<rparr>) run repo_root tid opts a s = run_one k w run repo_root tid opts a s"
    unfolding run_one_def Let_def hermetic if_True world unconfined_irrelevant prepare_outputs_unconfined run_hermetic_unconfined ..
  show "action_sandbox_run w = None \<and> \<not> dry_run opts \<longrightarrow>
       (\<forall>r s'. run_one k w run repo_root tid opts a s = (Inr r, s') \<longrightarrow> cached r \<and> s' = s)"
    using assms by (auto simp: run_one_def Let_def io_simps run_hermetic_def split: if_splits)
qed

definition confined_action :: build_action where
  "confined_action = (sample_action ''gen'' ''x'' ''y'')\<lparr>action_sandbox := True\<rparr>"

theorem hermetic_never_unconfined_witness:
  "action_sandbox confined_action \<and>
   run_one plain_codec (idle_world\<lparr>spawn_process := (\<lambda>_. ret (Some 0, [], []))\<rparr>) no_tools ''/r'' ''t'' (dry\<lparr>dry_run := False\<rparr>) confined_action () =
   run_one plain_codec idle_world no_tools ''/r'' ''t'' (dry\<lparr>dry_run := False\<rparr>) confined_action ()"
proof -
  have conf: "action_sandbox confined_action" by (simp add: confined_action_def)
  show ?thesis
    by (intro conjI conf conjunct1 [OF hermetic_never_unconfined [OF disjI2 [OF conf]]])
qed

section \<open>The cache\<close>

text \<open>What the cache relies on: a file that was written and renamed reads back at its new name, and entries decode to what was encoded.\<close>

definition store_laws :: "'w build_world \<Rightarrow> bool" where
  "store_laws w \<longleftrightarrow>
     (\<forall>p q t s s1 s2. write_synced w p t s = (Inr (), s1) \<and> rename_file w p q s1 = (Inr (), s2) \<longrightarrow> read_text w q s2 = Some t) \<and>
     (\<forall>e t. encode_entry w e = Inr t \<longrightarrow> decode_entry w t = Some e)"

lemma persist_then_read:
  assumes "store_laws w" and "persist_cache w repo_root tid e s = (Inr (), s')"
  shows "\<exists>t. read_text w (cache_entry_path repo_root tid (entry_action e)) s' = Some t \<and> decode_entry w t = Some e"
  using assms unfolding store_laws_def
  by (auto simp: persist_cache_def Let_def io_simps)

lemma persist_then_lookup:
  assumes "store_laws w" and "persist_cache w repo_root tid e s = (Inr (), s')"
    and "\<forall>out\<in>set (entry_outputs e). file_exists w (path_join repo_root out) s'"
  shows "lookup_cache w repo_root tid (entry_action e) (cache_key e) s' = Some e"
  using persist_then_read [OF assms(1,2)] assms(3) by (auto simp: lookup_cache_def list_all_iff)

text \<open>What decides an action is the same in two states: its inputs, its tools and their fingerprints.\<close>

definition same_inputs :: "'w build_world \<Rightarrow> string \<Rightarrow> build_action \<Rightarrow> 'w \<Rightarrow> 'w \<Rightarrow> bool" where
  "same_inputs w repo_root a s s' \<longleftrightarrow>
     fingerprint_inputs w repo_root a s' = fingerprint_inputs w repo_root a s \<and> host_at w s' = host_at w s \<and>
     (\<forall>p. file_meta w p s' = file_meta w p s)"


text \<open>A world of one cache file and an action that does nothing, successfully.\<close>

definition sample_entry :: "build_action \<Rightarrow> cache_entry" where
  "sample_entry a =
     \<lparr>entry_schema = 1, cache_key = compute_run_cache_key plain_codec a [] [] False, created_at = 0, entry_inputs = [],
      entry_outputs = [], entry_action = action_id a, entry_target = ''t''\<rparr>"

definition noop :: build_action where
  "noop = (sample_action ''noop'' ''x'' ''y'')\<lparr>action_inputs := [], action_outputs := []\<rparr>"

definition one_file_world :: "string option build_world" where
  "one_file_world =
     \<lparr>read_text = (\<lambda>_ s. s), decode_entry = (\<lambda>t. if t = ''entry'' then Some (sample_entry noop) else None),
      encode_entry = (\<lambda>e. if e = sample_entry noop then Inr ''entry'' else Inl ''unknown''), file_exists = (\<lambda>_ _. True),
      make_dirs = (\<lambda>_. ret ()), write_synced = (\<lambda>_ t s. (Inr (), Some t)), rename_file = (\<lambda>_ _. ret ()),
      drop_file = (\<lambda>_. ret ()), symlink_file = (\<lambda>_ _. ret ()), unique_name = (\<lambda>_. ''u''), now_ms = (\<lambda>_. 0),
      path_variable = (\<lambda>_. None), input_files = (\<lambda>_ _. None), glob_paths = (\<lambda>_ _. Inr []), file_meta = (\<lambda>_ _. Inr (0, 0)),
      host_at = (\<lambda>_. plain_host), spawn_process = (\<lambda>_. ret (Some 0, [], [])), action_sandbox_run = None\<rparr>"


end
