(* ===== verification/Flow_Graph.thy ===== *)
theory Flow_Graph
  imports Effects Rust_Path "HOL-Library.AList"
begin

text \<open>
  Workflow graphs (\<open>tddy-graph\<close>: \<open>context.rs\<close>, \<open>graph.rs\<close>, \<open>task.rs\<close>, \<open>session.rs\<close>, \<open>hooks.rs\<close>): the key-value context of a
  run, the tasks and edges of a graph, sessions and where they are stored, and the hooks around a task.

  A \<open>Context\<close> is shared between everyone who holds it; it is the second component of the state a task and a hook run on, the
  first one being the outside world. Trait objects (\<open>dyn Task\<close>, \<open>dyn RunnerHooks\<close>, \<open>dyn SessionStorage\<close>) are records of
  functions; nothing is assumed of them unless a theorem says so. The JSON text of a session and the disk below
  \<open>FileSessionStorage\<close> are parameters, with what the code relies on as \<open>disk_ok\<close>.
\<close>

section \<open>Context\<close>

datatype json =
    JNull
  | JBool bool
  | JNum int
  | JFloat string
  | JStr string
  | JArr "json list"
  | JObj "(string \<times> json) list"

type_synonym flow_context = "string \<rightharpoonup> json"

text \<open>\<open>serde_json::from_value\<close> at the types the code asks for.\<close>

fun from_string :: "json \<Rightarrow> string option" where
  "from_string (JStr s) = Some s"
| "from_string _ = None"

fun from_bool :: "json \<Rightarrow> bool option" where
  "from_bool (JBool b) = Some b"
| "from_bool _ = None"

fun from_u64 :: "json \<Rightarrow> u64 option" where
  "from_u64 (JNum n) = (if 0 \<le> n \<and> n < 2 ^ 64 then Some (word_of_int n) else None)"
| "from_u64 _ = None"

fun from_strings :: "json \<Rightarrow> string list option" where
  "from_strings (JArr js) = those (map from_string js)"
| "from_strings _ = None"

definition new_context :: flow_context where
  "new_context = Map.empty"

definition get_sync :: "(json \<Rightarrow> 'a option) \<Rightarrow> flow_context \<Rightarrow> string \<Rightarrow> 'a option" where
  "get_sync decode ctx key = Option.bind (ctx key) decode"

definition set_sync :: "string \<Rightarrow> json \<Rightarrow> flow_context \<Rightarrow> flow_context" where
  "set_sync key v ctx = ctx(key \<mapsto> v)"

definition remove_sync :: "string \<Rightarrow> flow_context \<Rightarrow> flow_context" where
  "remove_sync key ctx = ctx(key := None)"

definition merge_json_object_sync :: "(string \<times> json) list \<Rightarrow> flow_context \<Rightarrow> flow_context" where
  "merge_json_object_sync entries ctx = fold (\<lambda>(k, v). set_sync k v) entries ctx"

text \<open>
  A context is written as one JSON object, its entries in whatever order the map yields them, and read back by inserting
  them one after the other.
\<close>

definition deserialize_context :: "(string \<times> json) list \<Rightarrow> flow_context" where
  "deserialize_context entries = fold (\<lambda>(k, v) inner. inner(k \<mapsto> v)) entries Map.empty"

definition serialized_as :: "flow_context \<Rightarrow> (string \<times> json) list \<Rightarrow> bool" where
  "serialized_as ctx entries \<longleftrightarrow> distinct (map fst entries) \<and> (\<forall>k v. (k, v) \<in> set entries \<longleftrightarrow> ctx k = Some v)"

lemma get_set_sync [simp]:
  "get_sync decode (set_sync key v ctx) key = decode v"
  "k \<noteq> key \<Longrightarrow> get_sync decode (set_sync key v ctx) k = get_sync decode ctx k"
  "get_sync decode (remove_sync key ctx) key = None"
  "k \<noteq> key \<Longrightarrow> get_sync decode (remove_sync key ctx) k = get_sync decode ctx k"
  by (simp_all add: get_sync_def set_sync_def remove_sync_def)

lemma fold_map_upds: "fold (\<lambda>(k, v) inner. inner(k \<mapsto> v)) es m = m ++ map_of (rev es)"
  by (induction es arbitrary: m) (auto simp: map_add_assoc)

lemma merge_lookup: "merge_json_object_sync es ctx = ctx ++ map_of (rev es)"
  unfolding merge_json_object_sync_def set_sync_def by (rule fold_map_upds)

lemma context_round_trip:
  assumes "serialized_as ctx entries"
  shows "deserialize_context entries = ctx"
proof
  fix k
  have d: "distinct (map fst (rev entries))"
    using assms by (simp add: serialized_as_def rev_map [symmetric])
  have "map_of (rev entries) k = Some v \<longleftrightarrow> ctx k = Some v" for v
    using assms map_of_eq_Some_iff [OF d] by (simp add: serialized_as_def)
  then show "deserialize_context entries k = ctx k"
    by (simp add: deserialize_context_def fold_map_upds) (metis not_Some_eq)
qed

section \<open>Tasks\<close>

datatype next_action =
    Continue
  | ContinueAndExecute
  | WaitForInput
  | End
  | GoTo string
  | GoBack

record task_result =
  tr_response :: string
  tr_next_action :: next_action
  tr_task_id :: string
  tr_status_message :: "string option"

type_synonym ('w, 'a) flow = "('w \<times> flow_context, string, 'a) io"

record 'w task =
  task_id :: string
  task_run :: "('w, task_result) flow"

definition echo_task :: "string \<Rightarrow> 'w task" where
  "echo_task tid =
     \<lparr>task_id = tid,
      task_run = (\<lambda>(w, ctx).
        let response = (case get_sync from_string ctx ''input'' of Some s \<Rightarrow> s | None \<Rightarrow> ''no input'')
        in ret \<lparr>tr_response = response, tr_next_action = Continue, tr_task_id = tid,
                tr_status_message = Some response\<rparr> (w, ctx))\<rparr>"

definition failing_task :: "string \<Rightarrow> 'w task" where
  "failing_task tid = \<lparr>task_id = tid, task_run = fail ''FailingTask always fails''\<rparr>"

definition end_task :: "string \<Rightarrow> 'w task" where
  "end_task tid =
     \<lparr>task_id = tid,
      task_run = ret \<lparr>tr_response = ''Workflow complete.'', tr_next_action = End, tr_task_id = tid,
                      tr_status_message = Some ''Complete.''\<rparr>\<rparr>"

definition waiting_task :: "string \<Rightarrow> 'w task" where
  "waiting_task tid =
     \<lparr>task_id = tid,
      task_run = ret \<lparr>tr_response = [], tr_next_action = WaitForInput, tr_task_id = tid,
                      tr_status_message = Some ''Waiting.''\<rparr>\<rparr>"

section \<open>Graph\<close>

datatype elicitation_event =
    DocumentApproval string
  | WorktreeConfirmation string string

datatype execution_status =
    Paused "string option"
  | WaitingForInput "string option"
  | ElicitationNeeded elicitation_event
  | Completed
  | ExecutionError string

record execution_result =
  er_status :: execution_status
  er_session_id :: string
  er_current_task_id :: "string option"

record conditional_edge =
  ce_from :: string
  ce_condition :: "flow_context \<Rightarrow> bool"
  when_true :: string
  when_false :: string

record 'w flow_graph =
  graph_id :: string
  graph_tasks :: "(string \<times> 'w task) list"
  graph_edges :: "(string \<times> string) list"
  conditional_edges :: "conditional_edge list"

definition get_task :: "'w flow_graph \<Rightarrow> string \<Rightarrow> 'w task option" where
  "get_task g tid = map_of (graph_tasks g) tid"

definition has_task :: "'w flow_graph \<Rightarrow> string \<Rightarrow> bool" where
  "has_task g tid \<longleftrightarrow> tid \<in> fst ` set (graph_tasks g)"

definition task_ids :: "'w flow_graph \<Rightarrow> string list" where
  "task_ids g = map fst (graph_tasks g)"

definition next_task_id :: "'w flow_graph \<Rightarrow> string \<Rightarrow> flow_context \<Rightarrow> string option" where
  "next_task_id g from_id ctx =
     (case List.find (\<lambda>ce. ce_from ce = from_id) (conditional_edges g) of
        Some ce \<Rightarrow>
          (let nxt = (if ce_condition ce ctx then when_true ce else when_false ce)
           in if has_task g nxt then Some nxt else None)
      | None \<Rightarrow> map_option snd (List.find (\<lambda>(f, _). f = from_id) (graph_edges g)))"

definition push_successor :: "'w flow_graph \<Rightarrow> string \<Rightarrow> string list \<Rightarrow> string list" where
  "push_successor g t out = (if has_task g t \<and> t \<notin> set out then out @ [t] else out)"

definition successors :: "'w flow_graph \<Rightarrow> string \<Rightarrow> string list" where
  "successors g from_id =
     fold (\<lambda>(f, t) out. if f = from_id then push_successor g t out else out) (graph_edges g)
       (fold (\<lambda>ce out. if ce_from ce = from_id
                       then push_successor g (when_false ce) (push_successor g (when_true ce) out)
                       else out)
         (conditional_edges g) [])"

subsection \<open>Builder\<close>

definition new_graph :: "string \<Rightarrow> 'w flow_graph" where
  "new_graph gid = \<lparr>graph_id = gid, graph_tasks = [], graph_edges = [], conditional_edges = []\<rparr>"

definition add_task :: "'w task \<Rightarrow> 'w flow_graph \<Rightarrow> 'w flow_graph" where
  "add_task t g = g\<lparr>graph_tasks := AList.update (task_id t) t (graph_tasks g)\<rparr>"

definition add_edge :: "string \<Rightarrow> string \<Rightarrow> 'w flow_graph \<Rightarrow> 'w flow_graph" where
  "add_edge f t g = g\<lparr>graph_edges := graph_edges g @ [(f, t)]\<rparr>"

definition add_conditional_edge ::
    "string \<Rightarrow> (flow_context \<Rightarrow> bool) \<Rightarrow> string \<Rightarrow> string \<Rightarrow> 'w flow_graph \<Rightarrow> 'w flow_graph" where
  "add_conditional_edge f c t e g =
     g\<lparr>conditional_edges := conditional_edges g @ [\<lparr>ce_from = f, ce_condition = c, when_true = t, when_false = e\<rparr>]\<rparr>"

lemmas builder_defs = new_graph_def add_task_def add_edge_def add_conditional_edge_def

subsection \<open>Successors\<close>

text \<open>The targets an edge of the graph names, tasks or not.\<close>

definition edge_targets :: "'w flow_graph \<Rightarrow> string \<Rightarrow> string set" where
  "edge_targets g from_id =
     {t. (from_id, t) \<in> set (graph_edges g)} \<union>
     {t. \<exists>ce\<in>set (conditional_edges g). ce_from ce = from_id \<and> (t = when_true ce \<or> t = when_false ce)}"

definition closed_graph :: "'w flow_graph \<Rightarrow> bool" where
  "closed_graph g \<longleftrightarrow> (\<forall>(f, t)\<in>set (graph_edges g). has_task g t)"

lemma has_task_iff: "has_task g tid \<longleftrightarrow> get_task g tid \<noteq> None"
  by (simp add: has_task_def get_task_def map_of_eq_None_iff image_iff)

lemma set_push_successor: "set (push_successor g t out) = (if has_task g t then insert t (set out) else set out)"
  by (auto simp: push_successor_def)

lemma distinct_push_successor: "distinct out \<Longrightarrow> distinct (push_successor g t out)"
  by (auto simp: push_successor_def)

lemma successors_static:
  "set (fold (\<lambda>(f, t) out. if f = from_id then push_successor g t out else out) es out) =
     set out \<union> {t. (from_id, t) \<in> set es \<and> has_task g t}"
  by (induction es arbitrary: out) (auto simp: set_push_successor split: if_splits)

definition branch_targets :: "'w flow_graph \<Rightarrow> string \<Rightarrow> conditional_edge \<Rightarrow> string set" where
  "branch_targets g from_id ce = (if ce_from ce = from_id then {when_true ce, when_false ce} \<inter> {t. has_task g t} else {})"

lemma set_push_branches:
  "set (if ce_from ce = from_id
        then push_successor g (when_false ce) (push_successor g (when_true ce) out) else out) =
     set out \<union> branch_targets g from_id ce"
  by (simp add: set_push_successor branch_targets_def insert_commute)

lemma successors_conditional:
  "set (fold (\<lambda>ce out. if ce_from ce = from_id
               then push_successor g (when_false ce) (push_successor g (when_true ce) out) else out) ces out) =
     set out \<union> (\<Union>ce\<in>set ces. branch_targets g from_id ce)"
proof (induction ces arbitrary: out)
  case Nil
  show ?case by simp
next
  case (Cons ce ces)
  show ?case unfolding fold.simps o_apply Cons.IH set_push_branches by (simp add: Un_assoc)
qed

lemma branch_targets_iff:
  "t \<in> branch_targets g from_id ce \<longleftrightarrow>
     ce_from ce = from_id \<and> (t = when_true ce \<or> t = when_false ce) \<and> has_task g t"
  by (simp add: branch_targets_def)

lemma set_successors: "set (successors g from_id) = {t \<in> edge_targets g from_id. has_task g t}"
proof (rule set_eqI)
  fix t
  show "t \<in> set (successors g from_id) \<longleftrightarrow> t \<in> {t \<in> edge_targets g from_id. has_task g t}"
    unfolding successors_def successors_static successors_conditional edge_targets_def
    by (simp only: branch_targets_iff Un_iff mem_Collect_eq UN_iff empty_iff list.set) blast
qed

lemma distinct_successors: "distinct (successors g from_id)"
  unfolding successors_def
proof (rule fold_invariant [where Q = "\<lambda>_. True"])
  show "distinct (fold (\<lambda>ce out. if ce_from ce = from_id
          then push_successor g (when_false ce) (push_successor g (when_true ce) out) else out)
        (conditional_edges g) [])"
    by (rule fold_invariant [where Q = "\<lambda>_. True"]) (simp_all add: distinct_push_successor)
qed (simp_all add: distinct_push_successor split: prod.splits)

lemma next_task_id_cases:
  assumes "next_task_id g from_id ctx = Some t"
  obtains (conditional) ce where "ce \<in> set (conditional_edges g)" "ce_from ce = from_id"
      "t = when_true ce \<or> t = when_false ce" "has_task g t"
    | (static) "(from_id, t) \<in> set (graph_edges g)"
proof (cases "List.find (\<lambda>ce. ce_from ce = from_id) (conditional_edges g)")
  case None
  then obtain f where f: "List.find (\<lambda>(f, _). f = from_id) (graph_edges g) = Some (f, t)"
    using assms by (auto simp: next_task_id_def)
  show thesis using find_SomeD [OF f] by (intro static) auto
next
  case (Some ce)
  define u where "u = (if ce_condition ce ctx then when_true ce else when_false ce)"
  have u: "u = when_true ce \<or> u = when_false ce" by (simp add: u_def)
  have "(if has_task g u then Some u else None) = Some t"
    using assms Some unfolding next_task_id_def Let_def u_def by simp
  then have "has_task g u" and "u = t" by (simp_all split: if_splits)
  then show thesis using conditional find_SomeD [OF Some] u by blast
qed

lemma next_task_id_target: "next_task_id g from_id ctx = Some t \<Longrightarrow> t \<in> edge_targets g from_id"
  by (erule next_task_id_cases) (auto simp: edge_targets_def)

lemma next_task_id_successor:
  assumes "closed_graph g" and "next_task_id g from_id ctx = Some t"
  shows "t \<in> set (successors g from_id)"
proof -
  have "has_task g t"
    using assms(2) by (rule next_task_id_cases) (use assms(1) in \<open>auto simp: closed_graph_def\<close>)
  then show ?thesis using next_task_id_target [OF assms(2)] by (simp add: set_successors)
qed

section \<open>Sessions\<close>

record session =
  sess_id :: string
  sess_graph_id :: string
  sess_task_id :: string
  sess_status_message :: "string option"
  sess_context :: flow_context

definition new_from_task :: "string \<Rightarrow> string \<Rightarrow> string \<Rightarrow> session" where
  "new_from_task sid gid tid =
     \<lparr>sess_id = sid, sess_graph_id = gid, sess_task_id = tid, sess_status_message = None,
      sess_context = new_context\<rparr>"

record 'w storage =
  storage_save :: "session \<Rightarrow> ('w, string, unit) io"
  storage_get :: "string \<Rightarrow> ('w, string, session option) io"
  storage_delete :: "string \<Rightarrow> ('w, string, unit) io"

text \<open>
  What the users of a storage rely on: a session saved is the one read back under its id, and reading changes nothing. The
  parameter \<open>relies\<close> is what the storage itself relies on.
\<close>

locale session_storage =
  fixes save :: "session \<Rightarrow> ('w, string, unit) io"
    and load :: "string \<Rightarrow> ('w, string, session option) io"
    and relies :: bool
  assumes load_saved: "relies \<Longrightarrow> save s w = (Inr (), w') \<Longrightarrow> load (sess_id s) w' = (Inr (Some s), w')"
    and load_pure: "snd (load sid w) = w"
begin

lemma load_unchanged: "load sid w = (r, w') \<Longrightarrow> w' = w"
  using load_pure [of sid w] by simp

end

subsection \<open>Sessions on disk\<close>

text \<open>The disk and the JSON codec below \<open>FileSessionStorage\<close>, on texts of any type.\<close>

record ('w, 't) disk =
  disk_exists :: "string \<Rightarrow> 'w \<Rightarrow> bool"
  disk_read :: "string \<Rightarrow> 'w \<Rightarrow> string + 't"
  disk_mkdirs :: "string \<Rightarrow> ('w, string, unit) io"
  disk_write :: "string \<Rightarrow> 't \<Rightarrow> ('w, string, unit) io"
  disk_remove :: "string \<Rightarrow> ('w, string, unit) io"
  session_json :: "session \<Rightarrow> string + 't"
  json_session :: "'t \<Rightarrow> string + session"

definition disk_ok :: "('w, 't) disk \<Rightarrow> bool" where
  "disk_ok d \<longleftrightarrow>
     (\<forall>p t w w'. disk_write d p t w = (Inr (), w') \<longrightarrow> disk_exists d p w' \<and> disk_read d p w' = Inr t) \<and>
     (\<forall>s t. session_json d s = Inr t \<longrightarrow> json_session d t = Inr s)"

definition workflow_engine_storage_dir :: "string \<Rightarrow> string" where
  "workflow_engine_storage_dir session_dir = path_join session_dir ''.workflow''"

definition session_file :: "string \<Rightarrow> string \<Rightarrow> string" where
  "session_file base_dir sid = path_join base_dir (sid @ ''.session.json'')"

definition file_save :: "('w, 't) disk \<Rightarrow> string \<Rightarrow> session \<Rightarrow> ('w, string, unit) io" where
  "file_save d base_dir s =
     (let path = session_file base_dir (sess_id s)
      in and_then (case path_parent path of
                     Some dir \<Rightarrow> disk_mkdirs d dir
                   | None \<Rightarrow> fail ''called Option::unwrap() on a None value'')
           (\<lambda>_. and_then (of_result (session_json d s)) (\<lambda>t. disk_write d path t)))"

definition file_get :: "('w, 't) disk \<Rightarrow> string \<Rightarrow> string \<Rightarrow> ('w, string, session option) io" where
  "file_get d base_dir sid w =
     (let path = session_file base_dir sid
      in if \<not> disk_exists d path w then (Inr None, w)
         else (try_then (disk_read d path w) (\<lambda>t. try_then (json_session d t) (\<lambda>s. Inr (Some s))), w))"

definition file_delete :: "('w, 't) disk \<Rightarrow> string \<Rightarrow> string \<Rightarrow> ('w, string, unit) io" where
  "file_delete d base_dir sid w =
     (let path = session_file base_dir sid
      in if disk_exists d path w then disk_remove d path w else (Inr (), w))"

definition file_session_storage :: "('w, 't) disk \<Rightarrow> string \<Rightarrow> 'w storage" where
  "file_session_storage d base_dir =
     \<lparr>storage_save = file_save d base_dir, storage_get = file_get d base_dir, storage_delete = file_delete d base_dir\<rparr>"

lemma file_load_saved:
  assumes "disk_ok d" and "file_save d base s w = (Inr (), w')"
  shows "file_get d base (sess_id s) w' = (Inr (Some s), w')"
  using assms by (auto simp: disk_ok_def file_save_def file_get_def Let_def io_simps)

lemma file_load_pure: "snd (file_get d base sid w) = w"
  by (simp add: file_get_def Let_def)

interpretation file_storage: session_storage "file_save d base" "file_get d base" "disk_ok d" for d base
  by unfold_locales (rule file_load_saved, assumption+, rule file_load_pure)

lemma file_storage_ops [simp]:
  "storage_save (file_session_storage d base) = file_save d base"
  "storage_get (file_session_storage d base) = file_get d base"
  "storage_delete (file_session_storage d base) = file_delete d base"
  by (simp_all add: file_session_storage_def)

text \<open>A disk in memory, whose texts are the sessions themselves.\<close>

definition memory_disk :: "(string \<rightharpoonup> session, session) disk" where
  "memory_disk =
     \<lparr>disk_exists = (\<lambda>p w. w p \<noteq> None),
      disk_read = (\<lambda>p w. ok_or ''No such file or directory'' (w p)),
      disk_mkdirs = (\<lambda>_. ret ()),
      disk_write = (\<lambda>p t w. (Inr (), w(p \<mapsto> t))),
      disk_remove = (\<lambda>p w. (Inr (), w(p := None))),
      session_json = Inr, json_session = Inr\<rparr>"

lemma memory_disk_ok: "disk_ok memory_disk"
  by (auto simp: disk_ok_def memory_disk_def)

section \<open>Hooks\<close>

record 'w hooks =
  on_enter_task :: "string \<Rightarrow> 'w \<times> flow_context \<Rightarrow> 'w \<times> flow_context"
  on_exit_task :: "string \<Rightarrow> 'w \<times> flow_context \<Rightarrow> 'w \<times> flow_context"
  before_task :: "string \<Rightarrow> ('w, unit) flow"
  after_task :: "string \<Rightarrow> task_result \<Rightarrow> ('w, unit) flow"
  elicitation_after_task :: "string \<Rightarrow> task_result \<Rightarrow> 'w \<times> flow_context \<Rightarrow> elicitation_event option \<times> ('w \<times> flow_context)"
  on_error :: "string \<Rightarrow> string \<Rightarrow> 'w \<times> flow_context \<Rightarrow> 'w \<times> flow_context"

end
