(* ===== verification/Flow_Controller.thy ===== *)
theory Flow_Controller
  imports Flow_Graph Changeset
begin

text \<open>
  The controller of an agent that drives its workflow itself (\<open>tddy-workflow-engine\<close>, \<open>workflow/controller.rs\<close>): it holds the
  position in the graph of the recipe, checks a requested transition against the edges, persists it in \<open>changeset.yaml\<close>
  and reports it. A transition asked for by a subagent is only recorded.

  The state is the two fields behind the mutex, the manifests of \<open>Changeset\<close> and the events sent. A request is
  handled under the mutex, so requests of several agents are a sequence; \<open>handle_requests\<close> runs one.
\<close>

section \<open>The controller\<close>

datatype transition_outcome =
    Committed string string string
  | RecordedProvisional string
  | Rejected string

datatype workflow_event = StateChange string string | GoalStarted string

record 'w controller =
  ctl_graph :: "'w flow_graph"
  ctl_session_dir :: "string option"
  ctl_listening :: bool
  ctl_instructions :: "string \<Rightarrow> string"

record 'y ctl_state =
  current_goal :: string
  provisional :: "string option"
  ctl_files :: "'y fs"
  ctl_sent :: "workflow_event list"

definition new_at :: "string \<Rightarrow> 'y fs \<Rightarrow> 'y ctl_state" where
  "new_at start files = \<lparr>current_goal = start, provisional = None, ctl_files = files, ctl_sent = []\<rparr>"

definition persist_state :: "'y yaml_io \<Rightarrow> string \<Rightarrow> 'y fs \<Rightarrow> string \<Rightarrow> string \<Rightarrow> workflow_error + 'y fs" where
  "persist_state io now files dir to_goal =
     try_then (read_changeset io files dir) (\<lambda>cs. write_changeset_atomic io files dir (update_state now cs to_goal))"

definition emit :: "'w controller \<Rightarrow> workflow_event \<Rightarrow> 'y ctl_state \<Rightarrow> 'y ctl_state" where
  "emit c e st = (if ctl_listening c then st\<lparr>ctl_sent := ctl_sent st @ [e]\<rparr> else st)"

definition transition ::
    "'y yaml_io \<Rightarrow> string \<Rightarrow> 'w controller \<Rightarrow> string \<Rightarrow> bool \<Rightarrow> 'y ctl_state \<Rightarrow> transition_outcome \<times> 'y ctl_state" where
  "transition io now c to_goal is_provisional st =
     (let from_goal = current_goal st; valid = successors (ctl_graph c) from_goal
      in if to_goal = from_goal
         then (Rejected (''already at goal '' @ [CHR 0x27] @ from_goal @ [CHR 0x27] @ ''; no transition performed''), st)
         else if to_goal \<notin> set valid
         then (Rejected ([CHR 0x27] @ to_goal @ [CHR 0x27] @ '' is not a valid transition from '' @ [CHR 0x27] @ from_goal @ [CHR 0x27] @
                 ''. Valid next goals: ['' @ join_with '', '' valid @ '']''), st)
         else if is_provisional then (RecordedProvisional to_goal, st\<lparr>provisional := Some to_goal\<rparr>)
         else
           (case (case ctl_session_dir c of
                    None \<Rightarrow> Inr (ctl_files st)
                  | Some sd \<Rightarrow> persist_state io now (ctl_files st) sd to_goal) of
              Inl e \<Rightarrow>
                (Rejected (''failed to persist transition to '' @ [CHR 0x27] @ to_goal @ [CHR 0x27] @ '': '' @ show_workflow_error e), st)
            | Inr files \<Rightarrow>
                (Committed from_goal to_goal (ctl_instructions c to_goal),
                 emit c (GoalStarted to_goal)
                   (emit c (StateChange from_goal to_goal)
                     (st\<lparr>ctl_files := files, current_goal := to_goal, provisional := None\<rparr>)))))"

datatype relay_outcome = RelayCommitted string | RelayProvisional string | RelayRejected string

fun relay_of :: "transition_outcome \<Rightarrow> relay_outcome" where
  "relay_of (Committed f t instructions) = RelayCommitted instructions"
| "relay_of (RecordedProvisional t) = RelayProvisional t"
| "relay_of (Rejected reason) = RelayRejected reason"

definition handle_transition ::
    "'y yaml_io \<Rightarrow> string \<Rightarrow> 'w controller \<Rightarrow> string \<Rightarrow> bool \<Rightarrow> 'y ctl_state \<Rightarrow> relay_outcome \<times> 'y ctl_state" where
  "handle_transition io now c to_goal is_provisional st =
     (case transition io now c to_goal is_provisional st of (out, st') \<Rightarrow> (relay_of out, st'))"

section \<open>Sequences of requests\<close>

text \<open>A request: the reading of the clock, the goal asked for, and whether a subagent asks.\<close>

type_synonym request = "string \<times> string \<times> bool"

fun handle_requests ::
    "'y yaml_io \<Rightarrow> 'w controller \<Rightarrow> request list \<Rightarrow> 'y ctl_state \<Rightarrow> transition_outcome list \<times> 'y ctl_state" where
  "handle_requests io c [] st = ([], st)"
| "handle_requests io c ((now, to_goal, prov) # reqs) st =
     (case transition io now c to_goal prov st of
        (out, st') \<Rightarrow> (case handle_requests io c reqs st' of (outs, st'') \<Rightarrow> (out # outs, st'')))"

fun commits :: "transition_outcome list \<Rightarrow> (string \<times> string) list" where
  "commits [] = []"
| "commits (Committed f t _ # outs) = (f, t) # commits outs"
| "commits (_ # outs) = commits outs"

fun graph_path :: "'w flow_graph \<Rightarrow> string \<Rightarrow> (string \<times> string) list \<Rightarrow> string \<Rightarrow> bool" where
  "graph_path g s [] e \<longleftrightarrow> s = e"
| "graph_path g s ((f, t) # ps) e \<longleftrightarrow> f = s \<and> t \<noteq> s \<and> t \<in> set (successors g s) \<and> graph_path g t ps e"

text \<open>What the manifest of a session holds against what it held: the states gone through since.\<close>

definition manifest_after :: "'y yaml_io \<Rightarrow> string \<Rightarrow> 'y fs \<Rightarrow> string list \<Rightarrow> 'y fs \<Rightarrow> bool" where
  "manifest_after io dir files states files' \<longleftrightarrow>
     (\<exists>cs cs'. read_changeset io files dir = Inr cs \<and> read_changeset io files' dir = Inr cs' \<and>
        map tr_state (st_history (cs_state cs')) = map tr_state (st_history (cs_state cs)) @ states \<and>
        st_current (cs_state cs') = last (st_current (cs_state cs) # states))"

definition step_ok :: "'y yaml_io \<Rightarrow> 'w controller \<Rightarrow> 'y ctl_state \<Rightarrow> transition_outcome \<Rightarrow> 'y ctl_state \<Rightarrow> bool" where
  "step_ok io c st out st' \<longleftrightarrow>
     (case out of
        Committed f t instructions \<Rightarrow>
          f = current_goal st \<and> t \<noteq> f \<and> t \<in> set (successors (ctl_graph c) f) \<and> instructions = ctl_instructions c t \<and>
          current_goal st' = t \<and> provisional st' = None \<and>
          ctl_sent st' = ctl_sent st @ (if ctl_listening c then [StateChange f t, GoalStarted t] else []) \<and>
          (\<forall>dir. ctl_session_dir c = Some dir \<longrightarrow> manifest_after io dir (ctl_files st) [t] (ctl_files st'))
      | RecordedProvisional t \<Rightarrow> t \<in> set (successors (ctl_graph c) (current_goal st)) \<and> st' = st\<lparr>provisional := Some t\<rparr>
      | Rejected _ \<Rightarrow> st' = st)"

lemma persist_state_manifest:
  assumes "yaml_ok io" and "persist_state io now files dir t = Inr files'"
  shows "manifest_after io dir files [t] files'"
proof -
  obtain cs where cs: "read_changeset io files dir = Inr cs"
    and w: "write_changeset_atomic io files dir (update_state now cs t) = Inr files'"
    using assms(2) by (auto simp: persist_state_def try_then_Inr)
  show ?thesis
    unfolding manifest_after_def
    by (intro exI [of _ cs] exI [of _ "update_state now cs t"])
      (simp add: cs read_after_write [OF assms(1) w], simp add: update_state_def)
qed

lemma transition_step:
  assumes "yaml_ok io" and "transition io now c t prov st = (out, st')"
  shows "step_ok io c st out st'"
proof -
  consider (same) "t = current_goal st" | (illegal) "t \<noteq> current_goal st" "t \<notin> set (successors (ctl_graph c) (current_goal st))"
    | (legal) "t \<noteq> current_goal st" "t \<in> set (successors (ctl_graph c) (current_goal st))"
    by blast
  then show ?thesis
  proof cases
    case legal
    show ?thesis
    proof (cases prov)
      case True
      then show ?thesis using assms(2) legal by (auto simp: transition_def Let_def step_ok_def)
    next
      case False
      let ?saved = "case ctl_session_dir c of None \<Rightarrow> Inr (ctl_files st) | Some sd \<Rightarrow> persist_state io now (ctl_files st) sd t"
      show ?thesis
      proof (cases ?saved)
        case (Inl e)
        then show ?thesis using assms(2) legal False by (auto simp: transition_def Let_def step_ok_def)
      next
        case (Inr files)
        have "manifest_after io dir (ctl_files st) [t] files" if "ctl_session_dir c = Some dir" for dir
          using Inr that persist_state_manifest [OF assms(1), of now "ctl_files st" dir t files] by simp
        then show ?thesis using assms(2) legal False Inr by (auto simp: transition_def Let_def step_ok_def emit_def)
      qed
    qed
  qed (use assms(2) in \<open>auto simp: transition_def Let_def step_ok_def\<close>)
qed

lemma manifest_after_refl: "read_changeset io files dir = Inr cs \<Longrightarrow> manifest_after io dir files [] files"
  by (simp add: manifest_after_def)

lemma manifest_after_trans:
  "manifest_after io dir f0 ss f1 \<Longrightarrow> manifest_after io dir f1 ts f2 \<Longrightarrow> manifest_after io dir f0 (ss @ ts) f2"
  unfolding manifest_after_def by (auto simp: last_append)

lemma requests_outcome:
  assumes "yaml_ok io" and "handle_requests io c reqs st = (outs, st')"
    and "ctl_session_dir c = Some dir" and "read_changeset io (ctl_files st) dir = Inr cs"
    and "set_option (provisional st) \<subseteq> set (successors (ctl_graph c) (current_goal st))"
  shows "graph_path (ctl_graph c) (current_goal st) (commits outs) (current_goal st') \<and>
    ctl_sent st' = ctl_sent st @
      (if ctl_listening c then concat (map (\<lambda>(f, t). [StateChange f t, GoalStarted t]) (commits outs)) else []) \<and>
    manifest_after io dir (ctl_files st) (map snd (commits outs)) (ctl_files st') \<and>
    set_option (provisional st') \<subseteq> set (successors (ctl_graph c) (current_goal st'))"
  using assms(2,4,5)
proof (induction reqs arbitrary: st outs cs)
  case Nil
  then show ?case using manifest_after_refl by simp
next
  case (Cons req reqs)
  obtain now t prov where req: "req = (now, t, prov)" by (cases req)
  obtain out st1 where step: "transition io now c t prov st = (out, st1)" by (cases "transition io now c t prov st")
  obtain outs1 where outs: "outs = out # outs1" and rest: "handle_requests io c reqs st1 = (outs1, st')"
    using Cons.prems(1) step by (auto simp: req split: prod.splits)
  note ok = transition_step [OF assms(1) step]
  show ?case
  proof (cases out)
    case (Committed f t' i)
    then have man: "manifest_after io dir (ctl_files st) [t'] (ctl_files st1)" and pos: "current_goal st1 = t'" "provisional st1 = None"
      using ok assms(3) by (simp_all add: step_ok_def)
    obtain cs1 where "read_changeset io (ctl_files st1) dir = Inr cs1" using man by (auto simp: manifest_after_def)
    then have IH: "graph_path (ctl_graph c) (current_goal st1) (commits outs1) (current_goal st') \<and>
        ctl_sent st' = ctl_sent st1 @
          (if ctl_listening c then concat (map (\<lambda>(f, t). [StateChange f t, GoalStarted t]) (commits outs1)) else []) \<and>
        manifest_after io dir (ctl_files st1) (map snd (commits outs1)) (ctl_files st') \<and>
        set_option (provisional st') \<subseteq> set (successors (ctl_graph c) (current_goal st'))"
      using Cons.IH [OF rest] pos by simp
    then show ?thesis
      using ok Committed pos manifest_after_trans [OF man] by (auto simp: outs step_ok_def)
  next
    case (RecordedProvisional t')
    then have "st1 = st\<lparr>provisional := Some t'\<rparr>" "t' \<in> set (successors (ctl_graph c) (current_goal st))"
      using ok by (simp_all add: step_ok_def)
    then show ?thesis
      using Cons.IH [OF rest] Cons.prems(2) RecordedProvisional by (simp add: outs)
  next
    case (Rejected reason)
    then have "st1 = st" using ok by (simp add: step_ok_def)
    then show ?thesis using Cons.IH [OF rest] Cons.prems(2,3) Rejected by (simp add: outs)
  qed
qed


definition verbatim_yaml :: "changeset yaml_io" where
  "verbatim_yaml = \<lparr>to_yaml = Inr, from_yaml = Inr, read_error = (\<lambda>_. None), write_error = (\<lambda>_ _. None)\<rparr>"

definition plan_then_red :: "unit controller" where
  "plan_then_red =
     \<lparr>ctl_graph = add_edge ''plan'' ''red'' (add_task (end_task ''red'') (add_task (end_task ''plan'') (new_graph ''g''))),
      ctl_session_dir = Some ''/s'', ctl_listening = True, ctl_instructions = (\<lambda>g. g)\<rparr>"


end
