(* ===== verification/Atomic_File.thy ===== *)
theory Atomic_File
  imports Effects Rust_Path
begin

unbundle bit_operations_syntax

text \<open>
  The replacement of a file (\<open>tddy-session-store/src/atomic_file.rs\<close>), over a directory tree that holds for every path
  the bytes and the permission bits of its file. Each system call may be refused: \<open>faults\<close> says what becomes of the
  coming calls, and with how many bytes a refused write has already gone out. \<open>fs_seen\<close> keeps every state of the tree
  between two calls, and within a write: what another process, or a machine that stops there, finds.

  \<open>seen_all\<close> says that a property holds of the tree now and held at every moment before; the lemmas of the
  calls are \<open>keeps\<close> facts of it. The theorems say what a reader can find under the target, and with which permissions.
\<close>

section \<open>The file system\<close>

record fnode =
  node_bytes :: string
  node_mode :: u32

type_synonym files = "string \<rightharpoonup> fnode"

record file_tree =
  fs_files :: files
  fs_umask :: u32
  faults :: "(string \<times> nat) option list"
  fs_seen :: "files list"

type_synonym 'a fs_io = "(file_tree, string, 'a) io"

definition fnode_of :: "string \<Rightarrow> u32 \<Rightarrow> fnode" where
  "fnode_of bytes mode = \<lparr>node_bytes = bytes, node_mode = mode\<rparr>"

definition observe :: "files list \<Rightarrow> file_tree \<Rightarrow> file_tree" where
  "observe states w = w\<lparr>fs_files := last (fs_files w # states), fs_seen := fs_seen w @ states\<rparr>"

text \<open>
  One call: \<open>good\<close> answers the states it goes through, or the error of the call; \<open>bad\<close> the states a refused call goes
  through.
\<close>

definition sys :: "(files \<Rightarrow> string + files list) \<Rightarrow> (files \<Rightarrow> nat \<Rightarrow> files list) \<Rightarrow> unit fs_io" where
  "sys good bad w =
     (case faults w of
        Some (e, n) # rest \<Rightarrow> (Inl e, observe (bad (fs_files w) n) (w\<lparr>faults := rest\<rparr>))
      | calls \<Rightarrow>
          (case good (fs_files w) of
             Inl e \<Rightarrow> (Inl e, w\<lparr>faults := tl calls\<rparr>)
           | Inr states \<Rightarrow> (Inr (), observe states (w\<lparr>faults := tl calls\<rparr>))))"

definition quiet_call :: "unit fs_io" where
  "quiet_call = sys (\<lambda>f. Inr []) (\<lambda>f n. [])"

definition open_new :: "string \<Rightarrow> u32 \<Rightarrow> unit fs_io" where
  "open_new p mode w =
     sys (\<lambda>f. if f p \<noteq> None then Inl ''AlreadyExists'' else Inr [f(p \<mapsto> fnode_of [] (mode AND NOT (fs_umask w)))])
       (\<lambda>f n. []) w"

definition written :: "string \<Rightarrow> string \<Rightarrow> files \<Rightarrow> nat \<Rightarrow> files" where
  "written p bytes f n = (case f p of None \<Rightarrow> f | Some x \<Rightarrow> f(p \<mapsto> x\<lparr>node_bytes := node_bytes x @ take n bytes\<rparr>))"

definition write_all :: "string \<Rightarrow> string \<Rightarrow> unit fs_io" where
  "write_all p bytes =
     sys (\<lambda>f. Inr (map (written p bytes f) [0..<Suc (length bytes)])) (\<lambda>f n. map (written p bytes f) [0..<Suc n])"

definition metadata :: "string \<Rightarrow> u32 fs_io" where
  "metadata p w =
     and_then (sys (\<lambda>f. if f p = None then Inl ''NotFound'' else Inr []) (\<lambda>f n. []))
       (\<lambda>_ w'. (ok_or ''NotFound'' (map_option node_mode (fs_files w' p)), w')) w"

definition set_permissions :: "string \<Rightarrow> u32 \<Rightarrow> unit fs_io" where
  "set_permissions p mode =
     sys (\<lambda>f. case f p of None \<Rightarrow> Inl ''NotFound'' | Some x \<Rightarrow> Inr [f(p \<mapsto> x\<lparr>node_mode := mode\<rparr>)]) (\<lambda>f n. [])"

definition rename :: "string \<Rightarrow> string \<Rightarrow> unit fs_io" where
  "rename p q =
     sys (\<lambda>f. case f p of None \<Rightarrow> Inl ''NotFound'' | Some x \<Rightarrow> Inr [(f(p := None))(q \<mapsto> x)]) (\<lambda>f n. [])"

definition remove_file :: "string \<Rightarrow> unit fs_io" where
  "remove_file p = sys (\<lambda>f. if f p = None then Inl ''NotFound'' else Inr [f(p := None)]) (\<lambda>f n. [])"

section \<open>The replacement\<close>

definition file_name :: "string \<Rightarrow> string option" where
  "file_name p =
     (let cs = components p in if cs = [] then None else case last cs of Normal s \<Rightarrow> Some s | _ \<Rightarrow> None)"

definition parent_dir :: "string \<Rightarrow> string" where
  "parent_dir p = (case path_parent p of Some d \<Rightarrow> if d \<noteq> [] then d else ''.'' | None \<Rightarrow> ''.'')"

definition swap_path :: "nat \<Rightarrow> string \<Rightarrow> string \<Rightarrow> string \<Rightarrow> string" where
  "swap_path pid uuid p dir =
     (let base = (case file_name p of Some n \<Rightarrow> n | None \<Rightarrow> ''file'')
      in path_join dir (''.'' @ base @ ''.'' @ show_nat pid @ ''.'' @ uuid @ ''.swap''))"

definition create_swap :: "string \<Rightarrow> u32 option \<Rightarrow> unit fs_io" where
  "create_swap swap mode = open_new swap (case mode of Some m \<Rightarrow> m | None \<Rightarrow> 0x1B6)"

definition carry_over_permissions :: "string \<Rightarrow> string \<Rightarrow> unit fs_io" where
  "carry_over_permissions final_path swap =
     and_then (attempt (metadata final_path))
       (\<lambda>meta. case meta of Inr mode \<Rightarrow> set_permissions swap mode | Inl _ \<Rightarrow> ret ())"

definition write_swap_then_rename :: "string \<Rightarrow> string \<Rightarrow> string \<Rightarrow> string \<Rightarrow> u32 option \<Rightarrow> unit fs_io" where
  "write_swap_then_rename swap final_path dir contents mode =
     and_then (write_all swap contents)
       (\<lambda>_. and_then quiet_call
       (\<lambda>_. and_then (if mode = None then carry_over_permissions final_path swap else ret ())
       (\<lambda>_. and_then (rename swap final_path)
       (\<lambda>_. and_then (attempt quiet_call)
       (\<lambda>dir_handle. case dir_handle of
            Inr _ \<Rightarrow> and_then (attempt quiet_call) (\<lambda>_. ret ())
          | Inl _ \<Rightarrow> ret ())))))"

definition write_swapped :: "nat \<Rightarrow> string \<Rightarrow> string \<Rightarrow> string \<Rightarrow> u32 option \<Rightarrow> unit fs_io" where
  "write_swapped pid uuid p contents mode =
     (let dir = parent_dir p; swap = swap_path pid uuid p dir
      in and_then quiet_call
           (\<lambda>_. and_then (create_swap swap mode)
           (\<lambda>_. and_then (attempt (write_swap_then_rename swap p dir contents mode))
           (\<lambda>r. case r of Inr _ \<Rightarrow> ret () | Inl e \<Rightarrow> and_then (attempt (remove_file swap)) (\<lambda>_. fail e)))))"

definition write_atomic :: "nat \<Rightarrow> string \<Rightarrow> string \<Rightarrow> string \<Rightarrow> unit fs_io" where
  "write_atomic pid uuid p contents = write_swapped pid uuid p contents None"

definition write_atomic_with_mode :: "nat \<Rightarrow> string \<Rightarrow> string \<Rightarrow> string \<Rightarrow> u32 \<Rightarrow> unit fs_io" where
  "write_atomic_with_mode pid uuid p contents mode = write_swapped pid uuid p contents (Some mode)"

definition write_atomic_labelled :: "nat \<Rightarrow> string \<Rightarrow> string \<Rightarrow> string \<Rightarrow> unit fs_io" where
  "write_atomic_labelled pid uuid p contents = on_err (\<lambda>e. p @ '': '' @ e) (write_atomic pid uuid p contents)"

section \<open>What the calls keep\<close>

definition seen_all :: "(files \<Rightarrow> bool) \<Rightarrow> file_tree \<Rightarrow> bool" where
  "seen_all Q w \<longleftrightarrow> Q (fs_files w) \<and> (\<forall>g \<in> set (fs_seen w). Q g)"

lemma seen_all_observe: "seen_all Q w \<Longrightarrow> (\<And>g. g \<in> set states \<Longrightarrow> Q g) \<Longrightarrow> seen_all Q (observe states w)"
  by (auto simp: seen_all_def observe_def)

lemma seen_all_mono: "seen_all P w \<Longrightarrow> (\<And>g. P g \<Longrightarrow> Q g) \<Longrightarrow> seen_all Q w"
  by (auto simp: seen_all_def)

lemma seen_all_faults [simp]: "seen_all Q (w\<lparr>faults := fs\<rparr>) = seen_all Q w"
  by (simp add: seen_all_def)

lemma observe_simps [simp]:
  "fs_files (observe states w) = last (fs_files w # states)" "faults (observe states w) = faults w"
  "fs_umask (observe states w) = fs_umask w" "observe [] w = w"
  by (simp_all add: observe_def)

text \<open>How a call ends: refused by the schedule, with an error of its own, or done.\<close>

lemma sys_cases:
  obtains (refused) e n rest where "faults w = Some (e, n) # rest"
      "sys good bad w = (Inl e, observe (bad (fs_files w) n) (w\<lparr>faults := rest\<rparr>))"
  | (error) e where "good (fs_files w) = Inl e" "sys good bad w = (Inl e, w\<lparr>faults := tl (faults w)\<rparr>)"
  | (ok) states where "good (fs_files w) = Inr states"
      "sys good bad w = (Inr (), observe states (w\<lparr>faults := tl (faults w)\<rparr>))"
  by (cases "faults w"; cases "hd (faults w)"; cases "good (fs_files w)") (auto simp: sys_def split: option.splits)

lemma keeps_sys:
  assumes "\<And>f states g. Q f \<Longrightarrow> good f = Inr states \<Longrightarrow> g \<in> set states \<Longrightarrow> Q g"
    and "\<And>f n g. Q f \<Longrightarrow> g \<in> set (bad f n) \<Longrightarrow> Q g"
  shows "keeps (seen_all Q) (sys good bad)"
  unfolding keeps_def
proof (intro allI impI)
  fix w assume Q: "seen_all Q w"
  then have "Q (fs_files w)" by (simp add: seen_all_def)
  then have "\<And>states g. good (fs_files w) = Inr states \<Longrightarrow> g \<in> set states \<Longrightarrow> Q g" "\<And>n g. g \<in> set (bad (fs_files w) n) \<Longrightarrow> Q g"
    using assms by blast+
  with Q show "seen_all Q (snd (sys good bad w))"
    by (cases rule: sys_cases [of w good bad]) (simp_all add: seen_all_observe)
qed

text \<open>The number of calls still to be refused never grows, and an error that is not the call's own uses one up.\<close>

definition refusals :: "file_tree \<Rightarrow> nat" where
  "refusals w = length (filter (\<lambda>f. f \<noteq> None) (faults w))"

lemma refusals_simps [simp]: "refusals (observe states w) = refusals w"
  by (simp add: refusals_def)

lemma refusals_tl: "refusals (w\<lparr>faults := tl (faults w)\<rparr>) \<le> refusals w"
  by (cases "faults w") (simp_all add: refusals_def)

lemma keeps_refusals_sys: "keeps (\<lambda>w. refusals w \<le> k) (sys good bad)"
  unfolding keeps_def
proof (intro allI impI)
  fix w assume k: "refusals w \<le> k"
  show "refusals (snd (sys good bad w)) \<le> k"
    by (cases rule: sys_cases [of w good bad]) (use k refusals_tl [of w] in \<open>simp_all add: refusals_def\<close>)
qed

lemma sys_refused: "sys good bad w = (Inl e, w') \<Longrightarrow> good (fs_files w) = Inr states \<Longrightarrow> refusals w' < refusals w"
  by (cases rule: sys_cases [of w good bad]) (auto simp: refusals_def)

lemma sys_done:
  "sys good bad w = (Inr (), w') \<Longrightarrow>
     \<exists>states. good (fs_files w) = Inr states \<and> w' = observe states (w\<lparr>faults := tl (faults w)\<rparr>)"
  by (cases rule: sys_cases [of w good bad]) auto

lemma keeps_refusals [keeps_intros]:
  "keeps (\<lambda>w. refusals w \<le> k) quiet_call" "keeps (\<lambda>w. refusals w \<le> k) (write_all p b)"
  "keeps (\<lambda>w. refusals w \<le> k) (rename p q)" "keeps (\<lambda>w. refusals w \<le> k) (set_permissions p m)"
  "keeps (\<lambda>w. refusals w \<le> k) (remove_file p)"
  unfolding quiet_call_def write_all_def rename_def set_permissions_def remove_file_def by (rule keeps_refusals_sys)+

section \<open>The swap file\<close>

text \<open>The tree is the one before, but for the swap file, whose permissions satisfy a predicate.\<close>

definition aside :: "files \<Rightarrow> string \<Rightarrow> (u32 \<Rightarrow> bool) \<Rightarrow> files \<Rightarrow> bool" where
  "aside f0 swap M g \<longleftrightarrow> (\<forall>p. p \<noteq> swap \<longrightarrow> g p = f0 p) \<and> (\<forall>x. g swap = Some x \<longrightarrow> M (node_mode x))"

lemma keeps_aside [keeps_intros]:
  "keeps (seen_all Q) quiet_call"
  "keeps (seen_all (aside f0 swap M)) (write_all swap contents)"
  "keeps (seen_all (aside f0 swap M)) (remove_file swap)"
  "M m \<Longrightarrow> keeps (seen_all (aside f0 swap M)) (set_permissions swap m)"
  unfolding quiet_call_def write_all_def remove_file_def set_permissions_def
  by (rule keeps_sys; auto simp: aside_def written_def split: option.splits if_splits)+

lemma open_new_cases:
  assumes "seen_all (aside f0 swap M) w" and "f0 swap = None" and "M (mode AND NOT (fs_umask w))"
    and "open_new swap mode w = (r, w')"
  shows "seen_all (aside f0 swap M) w'" and "r = Inl e \<Longrightarrow> fs_files w' = fs_files w"
    and "r = Inr () \<Longrightarrow> fs_files w swap = None \<and> fs_files w' swap = Some (fnode_of [] (mode AND NOT (fs_umask w)))"
    and "refusals w' \<le> refusals w"
proof -
  let ?good = "\<lambda>f :: files. if f swap \<noteq> None then Inl ''AlreadyExists'' else Inr [f(swap \<mapsto> fnode_of [] (mode AND NOT (fs_umask w)))]"
  have call: "sys ?good (\<lambda>f n. []) w = (r, w')" using assms(4) by (simp add: open_new_def)
  have "keeps (seen_all (aside f0 swap M)) (sys ?good (\<lambda>f n. []))"
    by (rule keeps_sys) (use assms(3) in \<open>auto simp: aside_def fnode_of_def split: if_splits\<close>)
  then show "seen_all (aside f0 swap M) w'" using assms(1) call by (rule keepsD)
  show "refusals w' \<le> refusals w" by (rule keepsD [OF keeps_refusals_sys _ call]) simp
  show "r = Inl e \<Longrightarrow> fs_files w' = fs_files w"
    using call by (cases rule: sys_cases [of w ?good "\<lambda>f n. []"]) auto
  show "r = Inr () \<Longrightarrow> fs_files w swap = None \<and> fs_files w' swap = Some (fnode_of [] (mode AND NOT (fs_umask w)))"
    using call sys_done [of ?good "\<lambda>f n. []" w w'] by (auto split: if_splits)
qed

lemma quiet_call_files: "quiet_call w = (r, w') \<Longrightarrow> fs_files w' = fs_files w \<and> fs_umask w' = fs_umask w"
  unfolding quiet_call_def by (cases rule: sys_cases [of w "\<lambda>f. Inr []" "\<lambda>f n. []"]) auto

lemma quiet_call_refused: "quiet_call w = (Inl e, w') \<Longrightarrow> refusals w' < refusals w"
  unfolding quiet_call_def by (rule sys_refused) simp_all

lemma write_all_done:
  "write_all p b w = (Inr (), w') \<Longrightarrow> fs_files w p = Some (fnode_of [] m) \<Longrightarrow> fs_files w' = (fs_files w)(p \<mapsto> fnode_of b m)"
  unfolding write_all_def by (drule sys_done) (auto simp: written_def fnode_of_def)

lemma write_all_refused: "write_all p b w = (Inl e, w') \<Longrightarrow> refusals w' < refusals w"
  unfolding write_all_def by (rule sys_refused) simp_all

lemma rename_done:
  "rename p q w = (Inr (), w') \<Longrightarrow> \<exists>x. fs_files w p = Some x \<and> w' = observe [((fs_files w)(p := None))(q \<mapsto> x)] (w\<lparr>faults := tl (faults w)\<rparr>)"
  unfolding rename_def by (drule sys_done) (auto split: option.splits)

lemma rename_refused:
  "rename p q w = (Inl e, w') \<Longrightarrow> fs_files w p = Some x \<Longrightarrow> refusals w' < refusals w \<and> w' = w\<lparr>faults := tl (faults w)\<rparr>"
  unfolding rename_def
  by (cases rule: sys_cases [of w "\<lambda>f. case f p of None \<Rightarrow> Inl ''NotFound'' | Some x \<Rightarrow> Inr [(f(p := None))(q \<mapsto> x)]" "\<lambda>f n. []"])
    (auto simp: refusals_def)

lemma set_permissions_done:
  "set_permissions p m w = (Inr (), w') \<Longrightarrow> \<exists>x. fs_files w p = Some x \<and> fs_files w' = (fs_files w)(p \<mapsto> x\<lparr>node_mode := m\<rparr>)"
  unfolding set_permissions_def by (drule sys_done) (auto split: option.splits)

lemma set_permissions_refused:
  "set_permissions p m w = (Inl e, w') \<Longrightarrow> fs_files w p = Some x \<Longrightarrow> refusals w' < refusals w"
  unfolding set_permissions_def by (erule sys_refused) auto

lemma metadata_cases:
  assumes "metadata p w = (r, w')"
  shows "fs_files w' = fs_files w" and "fs_seen w' = fs_seen w" and "refusals w' \<le> refusals w"
    and "r = Inr m \<Longrightarrow> map_option node_mode (fs_files w p) = Some m"
    and "r = Inl e \<Longrightarrow> fs_files w p \<noteq> None \<Longrightarrow> refusals w' < refusals w"
proof -
  let ?good = "\<lambda>f :: files. if f p = None then Inl ''NotFound'' else Inr []"
  have "metadata p w = (r, w') \<longleftrightarrow> and_then (sys ?good (\<lambda>f n. []))
       (\<lambda>_ w'. (ok_or ''NotFound'' (map_option node_mode (fs_files w' p)), w')) w = (r, w')"
    by (simp add: metadata_def)
  then show "fs_files w' = fs_files w" and "fs_seen w' = fs_seen w" and "refusals w' \<le> refusals w"
    and "r = Inr m \<Longrightarrow> map_option node_mode (fs_files w p) = Some m"
    and "r = Inl e \<Longrightarrow> fs_files w p \<noteq> None \<Longrightarrow> refusals w' < refusals w"
    using assms refusals_tl [of w]
    by (cases rule: sys_cases [of w ?good "\<lambda>f n. []"]; auto simp: and_then_def observe_def refusals_def ok_or_def split: if_splits)+
qed

lemma carry_over_cases:
  assumes "carry_over_permissions final swap w = (r, w')" and x: "fs_files w swap = Some x" and "swap \<noteq> final"
    and "seen_all (aside f0 swap M) w" and "\<And>y. fs_files w final = Some y \<Longrightarrow> M (node_mode y)"
  shows "seen_all (aside f0 swap M) w'" and "r = Inl e \<Longrightarrow> refusals w' < refusals w" and "refusals w' \<le> refusals w"
    and "r = Inr () \<Longrightarrow> \<exists>m. fs_files w' swap = Some (x\<lparr>node_mode := m\<rparr>) \<and>
           (refusals w = 0 \<longrightarrow> m = (case fs_files w final of None \<Rightarrow> node_mode x | Some y \<Rightarrow> node_mode y))"
proof -
  obtain meta v where meta: "metadata final w = (meta, v)" by (cases "metadata final w")
  note facts = metadata_cases [OF meta]
  have v: "seen_all (aside f0 swap M) v" using assms(4) facts(1,2) by (simp add: seen_all_def)
  consider (absent) k where "meta = Inl k" "r = Inr ()" "w' = v"
    | (present) m where "meta = Inr m" "set_permissions swap m v = (r, w')"
    using assms(1) meta by (cases meta) (auto simp: carry_over_permissions_def and_then_def attempt_def ret_def)
  note split = this
  show "seen_all (aside f0 swap M) w'"
  proof (cases rule: split)
    case present
    then have "M m" using facts(4) assms(5) by auto
    then show ?thesis using keepsD [OF keeps_aside(4) v present(2)] by simp
  qed (use v in simp)
  show "refusals w' < refusals w" if "r = Inl e"
  proof (cases rule: split)
    case present
    then have "refusals w' < refusals v" using that facts(1) x set_permissions_refused [of swap m v e w' x] by simp
    then show ?thesis using facts(3) by simp
  qed (use that in simp)
  show "refusals w' \<le> refusals w"
  proof (cases rule: split)
    case present
    then show ?thesis using keepsD [OF keeps_refusals(4) facts(3)] by simp
  qed (use facts(3) in simp)
  show "\<exists>m. fs_files w' swap = Some (x\<lparr>node_mode := m\<rparr>) \<and>
           (refusals w = 0 \<longrightarrow> m = (case fs_files w final of None \<Rightarrow> node_mode x | Some y \<Rightarrow> node_mode y))" if "r = Inr ()"
  proof (cases rule: split)
    case absent
    then have "fs_files w' swap = Some (x\<lparr>node_mode := node_mode x\<rparr>)" using facts(1) x by simp
    moreover have "refusals w = 0 \<Longrightarrow> fs_files w final = None" using facts(5) [OF absent(1)] by linarith
    ultimately show ?thesis by (intro exI [of _ "node_mode x"]) auto
  next
    case present
    then have "fs_files w' swap = Some (x\<lparr>node_mode := m\<rparr>)" "map_option node_mode (fs_files w final) = Some m"
      using that set_permissions_done [of swap m v w'] facts(1,4) x by auto
    then show ?thesis by auto
  qed
qed

text \<open>
  The permissions the replacement ends with: those asked for, or those of the target it replaces when they can be read,
  or those of a new file.
\<close>

definition final_mode :: "u32 \<Rightarrow> u32 option \<Rightarrow> fnode option \<Rightarrow> u32" where
  "final_mode umask mode target =
     (case mode of
        Some m \<Rightarrow> m AND NOT umask
      | None \<Rightarrow> (case target of Some y \<Rightarrow> node_mode y | None \<Rightarrow> 0x1B6 AND NOT umask))"

lemma and_then_run: "m w = (r, w') \<Longrightarrow> and_then m f w = (case r of Inl e \<Rightarrow> (Inl e, w') | Inr a \<Rightarrow> f a w')"
  by (simp add: and_then_def split: sum.splits)

text \<open>What follows the rename changes nothing and never fails.\<close>

definition sync_dir :: "unit fs_io" where
  "sync_dir =
     and_then (attempt quiet_call)
       (\<lambda>dir_handle. case dir_handle of
            Inr _ \<Rightarrow> and_then (attempt quiet_call) (\<lambda>_. ret ())
          | Inl _ \<Rightarrow> ret ())"

lemma sync_dir_cases:
  assumes "sync_dir w = (r, w')"
  shows "r = Inr ()" and "fs_files w' = fs_files w" and "seen_all Q w \<Longrightarrow> seen_all Q w'"
proof -
  have "keeps (seen_all Q) sync_dir" unfolding sync_dir_def by (intro keeps_intros)
  then show "seen_all Q w \<Longrightarrow> seen_all Q w'" using assms by (metis keepsD)
  show "r = Inr ()" "fs_files w' = fs_files w"
    using assms quiet_call_files
    by (auto simp: sync_dir_def and_then_def attempt_def ret_def split: prod.splits sum.splits)
qed

lemma write_swap_then_rename_outcome:
  assumes w: "seen_all (aside f0 swap M) w" and new: "fs_files w swap = Some (fnode_of [] m0)" and apart: "swap \<noteq> final"
    and M: "\<And>y. mode = None \<Longrightarrow> f0 final = Some y \<Longrightarrow> M (node_mode y)"
    and run: "write_swap_then_rename swap final dir contents mode w = (r, w')"
  shows "r = Inl e \<Longrightarrow> seen_all (aside f0 swap M) w' \<and> refusals w' < refusals w"
    and "r = Inr () \<Longrightarrow> \<exists>m. M m \<and> fs_files w' = (f0(swap := None))(final \<mapsto> fnode_of contents m) \<and>
           (\<forall>g \<in> set (fs_seen w'). aside f0 swap M g \<or> g = fs_files w') \<and>
           (refusals w = 0 \<longrightarrow> m = (if mode = None then case f0 final of None \<Rightarrow> m0 | Some y \<Rightarrow> node_mode y else m0))"
proof -
  obtain r1 w1 where c1: "write_all swap contents w = (r1, w1)" by (cases "write_all swap contents w")
  have a1: "seen_all (aside f0 swap M) w1" by (rule keepsD [OF keeps_aside(2) w c1])
  have n1: "refusals w1 \<le> refusals w" by (rule keepsD [OF keeps_refusals(2) _ c1]) simp
  obtain r2 w2 where c2: "quiet_call w1 = (r2, w2)" by (cases "quiet_call w1")
  have a2: "seen_all (aside f0 swap M) w2" by (rule keepsD [OF keeps_aside(1) a1 c2])
  have n2: "refusals w2 \<le> refusals w1" by (rule keepsD [OF keeps_refusals(1) _ c2]) simp
  let ?carry = "if mode = None then carry_over_permissions final swap else ret ()"
  obtain r3 w3 where c3: "?carry w2 = (r3, w3)" by (cases "?carry w2")
  obtain r4 w4 where c4: "rename swap final w3 = (r4, w4)" by (cases "rename swap final w3")
  have f0: "fs_files w2 final = f0 final" using a2 apart by (simp add: seen_all_def aside_def)
  have s2: "fs_files w2 swap = Some (fnode_of contents m0)" if "r1 = Inr ()"
    using write_all_done [of swap contents w w1 m0] new c1 that quiet_call_files [OF c2] by simp
  have carried: "seen_all (aside f0 swap M) w3 \<and> refusals w3 \<le> refusals w2 \<and> (\<forall>e. r3 = Inl e \<longrightarrow> refusals w3 < refusals w2) \<and>
      (r3 = Inr () \<longrightarrow> (\<exists>m. fs_files w3 swap = Some (fnode_of contents m) \<and>
         (refusals w2 = 0 \<longrightarrow> m = (if mode = None then case f0 final of None \<Rightarrow> m0 | Some y \<Rightarrow> node_mode y else m0))))"
    if "r1 = Inr ()"
  proof (cases "mode = None")
    case True
    then have run3: "carry_over_permissions final swap w2 = (r3, w3)" using c3 by simp
    have My: "fs_files w2 final = Some y \<Longrightarrow> M (node_mode y)" for y using M [OF True] f0 by simp
    note facts = carry_over_cases [OF run3 s2 [OF that] apart a2 My]
    have shapes: "node_mode (fnode_of contents m0) = m0" "(fnode_of contents m0)\<lparr>node_mode := m\<rparr> = fnode_of contents m" for m
      by (simp_all add: fnode_of_def)
    show ?thesis
      using facts(1-3) facts(4) [unfolded shapes f0] True by simp
  next
    case False
    then show ?thesis using c3 a2 s2 [OF that] by (auto simp: ret_def)
  qed
  have run': "(case r1 of Inl e \<Rightarrow> (Inl e, w1) | Inr _ \<Rightarrow> (case r2 of Inl e \<Rightarrow> (Inl e, w2) | Inr _ \<Rightarrow>
      (case r3 of Inl e \<Rightarrow> (Inl e, w3) | Inr _ \<Rightarrow> (case r4 of Inl e \<Rightarrow> (Inl e, w4) | Inr _ \<Rightarrow> sync_dir w4)))) = (r, w')"
    using run unfolding write_swap_then_rename_def sync_dir_def [symmetric]
      and_then_run [where m = "write_all swap contents", OF c1] and_then_run [where m = quiet_call, OF c2]
      and_then_run [where m = ?carry, OF c3] and_then_run [where m = "rename swap final", OF c4] .
  show "seen_all (aside f0 swap M) w' \<and> refusals w' < refusals w" if bad: "r = Inl e"
  proof -
    consider "r1 = Inl e" "w' = w1" | "r1 = Inr ()" "r2 = Inl e" "w' = w2" | "r1 = Inr ()" "r3 = Inl e" "w' = w3"
      | "r1 = Inr ()" "r3 = Inr ()" "r4 = Inl e" "w' = w4"
      using run' bad sync_dir_cases(1) [of w4 r w'] by (auto split: sum.splits)
    then show ?thesis
    proof cases
      case 1
      then show ?thesis using a1 write_all_refused [of swap contents w e w1] c1 by simp
    next
      case 2
      then show ?thesis using a2 quiet_call_refused [of w1 e w2] c2 n1 by simp
    next
      case 3
      then show ?thesis using carried n1 n2 by fastforce
    next
      case 4
      then obtain m where "fs_files w3 swap = Some (fnode_of contents m)" using carried by blast
      then have w4: "refusals w4 < refusals w3" "w4 = w3\<lparr>faults := tl (faults w3)\<rparr>"
        using rename_refused [of swap final w3 e w4] c4 4(3) by blast+
      have "seen_all (aside f0 swap M) w4" unfolding w4(2) using carried [OF 4(1)] by simp
      then show ?thesis using carried [OF 4(1)] w4(1) n1 n2 4(4) by simp
    qed
  qed
  show "\<exists>m. M m \<and> fs_files w' = (f0(swap := None))(final \<mapsto> fnode_of contents m) \<and>
           (\<forall>g \<in> set (fs_seen w'). aside f0 swap M g \<or> g = fs_files w') \<and>
           (refusals w = 0 \<longrightarrow> m = (if mode = None then case f0 final of None \<Rightarrow> m0 | Some y \<Rightarrow> node_mode y else m0))" if "r = Inr ()"
  proof -
    have ok: "r1 = Inr ()" "r3 = Inr ()" "r4 = Inr ()" "sync_dir w4 = (r, w')"
      using run' that by (auto split: sum.splits)
    obtain m where m: "fs_files w3 swap = Some (fnode_of contents m)"
      and exact: "refusals w2 = 0 \<longrightarrow> m = (if mode = None then case f0 final of None \<Rightarrow> m0 | Some y \<Rightarrow> node_mode y else m0)"
      using carried [OF ok(1)] ok(2) by (elim conjE) (drule (1) mp, elim exE conjE, rule that)
    let ?g = "(f0(swap := None))(final \<mapsto> fnode_of contents m)"
    have a3: "seen_all (aside f0 swap M) w3" using carried [OF ok(1)] by blast
    then have "(fs_files w3)(swap := None) = f0(swap := None)" by (auto simp: seen_all_def aside_def)
    then have w4: "w4 = observe [?g] (w3\<lparr>faults := tl (faults w3)\<rparr>)"
      using rename_done [of swap final w3 w4] c4 ok(3) m by auto
    have "seen_all (\<lambda>g. aside f0 swap M g \<or> g = ?g) w4"
      unfolding w4 by (rule seen_all_observe) (use a3 in \<open>auto elim: seen_all_mono\<close>)
    then have "seen_all (\<lambda>g. aside f0 swap M g \<or> g = ?g) w'" by (rule sync_dir_cases(3) [OF ok(4)])
    moreover have "fs_files w' = ?g" using sync_dir_cases(2) [OF ok(4)] w4 by simp
    moreover have "M m" using a3 m by (simp add: seen_all_def aside_def fnode_of_def)
    ultimately show ?thesis using exact n1 n2 by (intro exI [of _ m]) (auto simp: seen_all_def)
  qed
qed

section \<open>What a reader finds\<close>

lemma Normal_no_slash: "Normal n \<in> set (components p) \<Longrightarrow> CHR ''/'' \<notin> set n"
  using split_on_pieces [of n "CHR ''/''" p]
  by (auto simp: components_def Let_def set_map_filter piece_component_def split: if_splits)

lemma show_nat_no_slash: "CHR ''/'' \<notin> set (show_nat n)"
proof (induction n rule: show_nat.induct)
  case (1 n)
  have "CHR ''/'' \<noteq> digit_char d" if "d < 10" for d
  proof
    assume "CHR ''/'' = digit_char d"
    then have "of_char (CHR ''/'') = 48 + d" using digit_char_code [OF that] by simp
    then show False by simp
  qed
  from this [of n] this [of "n mod 10"] 1 show ?case by (subst show_nat.simps) simp
qed

lemma open_new_taken:
  assumes "fs_files w p \<noteq> None" and "open_new p m w = (r, w')"
  shows "(\<exists>e. r = Inl e) \<and> fs_files w' = fs_files w \<and> fs_seen w' = fs_seen w"
proof -
  let ?good = "\<lambda>f :: files. if f p \<noteq> None then Inl ''AlreadyExists'' else Inr [f(p \<mapsto> fnode_of [] (m AND NOT (fs_umask w)))]"
  show ?thesis
    using assms by (cases rule: sys_cases [of w ?good "\<lambda>f n. []"]) (auto simp: open_new_def observe_def)
qed

lemma remove_file_clean: "remove_file p w = (r, w') \<Longrightarrow> refusals w = 0 \<Longrightarrow> fs_files w' p = None"
  unfolding remove_file_def
  by (cases rule: sys_cases [of w "\<lambda>f. if f p = None then Inl ''NotFound'' else Inr [f(p := None)]" "\<lambda>f n. []"])
    (auto simp: refusals_def split: if_splits)

lemma file_name_last: "components p = cs @ [Normal n] \<Longrightarrow> file_name p = Some n"
  by (simp add: file_name_def)

lemma option_case_Some: "x = Some n \<Longrightarrow> (case x of Some n \<Rightarrow> n | None \<Rightarrow> d) = n"
  by simp

lemma swap_path_apart:
  assumes "CHR ''/'' \<notin> set uuid"
  shows "swap_path pid uuid p dir \<noteq> p"
proof
  let ?base = "case file_name p of Some n \<Rightarrow> n | None \<Rightarrow> ''file''"
  let ?name = "''.'' @ ?base @ ''.'' @ show_nat pid @ ''.'' @ uuid @ ''.swap''"
  have "CHR ''/'' \<notin> set ?base"
  proof (cases "file_name p")
    case (Some n)
    then have "Normal n \<in> set (components p)"
      by (auto simp: file_name_def Let_def split: if_splits component.splits dest: last_in_set)
    then show ?thesis using Some Normal_no_slash by simp
  qed simp
  moreover have "CHR ''/'' \<notin> set (show_nat pid)" by (rule show_nat_no_slash)
  ultimately have "names_one_directory ?name"
    unfolding names_one_directory_iff using assms by simp
  then have last: "components (swap_path pid uuid p dir) = components dir @ [Normal ?name]"
    by (simp only: swap_path_def Let_def components_join)
  assume "swap_path pid uuid p dir = p"
  then have "components p = components dir @ [Normal ?name]" using last by simp
  then have "file_name p = Some ?name" by (rule file_name_last)
  then have "?base = ?name" by (rule option_case_Some)
  then have "length ?base = length ?name" by simp
  then show False by simp
qed

lemma write_swapped_run:
  assumes uuid: "CHR ''/'' \<notin> set uuid" and seen: "fs_seen w = []"
    and M: "M (final_mode (fs_umask w) mode None)" "\<And>y. mode = None \<Longrightarrow> fs_files w p = Some y \<Longrightarrow> M (node_mode y)"
    and run: "write_swapped pid uuid p contents mode w = (r, w')"
  defines "swap \<equiv> swap_path pid uuid p (parent_dir p)"
  shows "r = Inl e \<Longrightarrow> seen_all (\<lambda>g. aside (fs_files w) swap M g \<or> g = fs_files w) w' \<and> (refusals w \<le> 1 \<longrightarrow> fs_files w' = fs_files w)"
    and "r = Inr () \<Longrightarrow> fs_files w swap = None \<and> (\<exists>m. M m \<and> fs_files w' = (fs_files w)(p \<mapsto> fnode_of contents m) \<and>
           (\<forall>g \<in> set (fs_seen w'). aside (fs_files w) swap M g \<or> g = fs_files w') \<and>
           (refusals w = 0 \<longrightarrow> m = final_mode (fs_umask w) mode (fs_files w p)))"
proof -
  let ?f = "fs_files w"
  have apart: "swap \<noteq> p" unfolding swap_def by (rule swap_path_apart [OF uuid])
  let ?m = "case mode of Some m \<Rightarrow> m | None \<Rightarrow> 0x1B6"
  let ?body = "write_swap_then_rename swap p (parent_dir p) contents mode"
  obtain r1 w1 where c1: "quiet_call w = (r1, w1)" by (cases "quiet_call w")
  obtain r2 w2 where c2: "create_swap swap mode w1 = (r2, w2)" by (cases "create_swap swap mode w1")
  obtain r3 w3 where c3: "?body w2 = (r3, w3)" by (cases "?body w2")
  have f1: "fs_files w1 = ?f" "fs_umask w1 = fs_umask w" using quiet_call_files [OF c1] by simp_all
  have same1: "seen_all (\<lambda>g. g = ?f) w1" by (rule keepsD [OF keeps_aside(1) _ c1]) (simp add: seen_all_def seen)
  have n1: "refusals w1 \<le> refusals w" by (rule keepsD [OF keeps_refusals(1) _ c1]) simp
  have c2': "open_new swap ?m w1 = (r2, w2)" using c2 by (simp add: create_swap_def)
  have Mm: "M (?m AND NOT (fs_umask w1))" using M(1) f1(2) by (simp add: final_mode_def split: option.splits)
  obtain r4 w4 where c4: "remove_file swap w3 = (r4, w4)" by (cases "remove_file swap w3")
  have c3': "attempt ?body w2 = (Inr r3, w3)" and c4': "attempt (remove_file swap) w3 = (Inr r4, w4)"
    by (simp_all add: attempt_def c3 c4)
  have tail: "(case r3 of Inl e \<Rightarrow> and_then (attempt (remove_file swap)) (\<lambda>_. fail e) | Inr _ \<Rightarrow> ret ()) w3 =
      (case r3 of Inl e \<Rightarrow> (Inl e, w4) | Inr _ \<Rightarrow> (Inr (), w3))"
    by (cases r3) (simp_all add: and_then_run [where m = "attempt (remove_file swap)", OF c4'] fail_def ret_def)
  have run': "(case r1 of Inl e \<Rightarrow> (Inl e, w1) | Inr _ \<Rightarrow> (case r2 of Inl e \<Rightarrow> (Inl e, w2) | Inr _ \<Rightarrow>
      (case r3 of Inl e \<Rightarrow> (Inl e, w4) | Inr _ \<Rightarrow> (Inr (), w3)))) = (r, w')"
    using run unfolding write_swapped_def Let_def swap_def [symmetric]
      and_then_run [where m = quiet_call, OF c1] and_then_run [where m = "create_swap swap mode", OF c2]
      and_then_run [where m = "attempt ?body", OF c3'] sum.case(2) tail .
  have created: "?f swap = None" "seen_all (aside ?f swap M) w2"
      "fs_files w2 swap = Some (fnode_of [] (?m AND NOT (fs_umask w)))" "refusals w2 \<le> refusals w" if "r2 = Inr ()"
  proof -
    show none: "?f swap = None"
      using open_new_taken [OF _ c2'] that unfolding f1 by (metis sum.distinct(1))
    have a1: "seen_all (aside ?f swap M) w1" using same1 none by (elim seen_all_mono) (auto simp: aside_def)
    note opened = open_new_cases [OF a1 none Mm c2']
    show "seen_all (aside ?f swap M) w2" "fs_files w2 swap = Some (fnode_of [] (?m AND NOT (fs_umask w)))" "refusals w2 \<le> refusals w"
      using opened(1) opened(3) [OF that] opened(4) n1 f1 by simp_all
  qed
  note outcome = write_swap_then_rename_outcome [OF created(2,3) apart M(2) c3]
  show "seen_all (\<lambda>g. aside ?f swap M g \<or> g = ?f) w' \<and> (refusals w \<le> 1 \<longrightarrow> fs_files w' = ?f)" if bad: "r = Inl e"
  proof -
    consider "w' = w1" | k where "r2 = Inl k" "w' = w2" | k where "r2 = Inr ()" "r3 = Inl k" "w' = w4"
      using run' bad by (auto split: sum.splits)
    then show ?thesis
    proof cases
      case 1
      then show ?thesis using same1 f1 by (auto simp: seen_all_def)
    next
      case 2
      show ?thesis
      proof (cases "?f swap = None")
        case True
        have a1: "seen_all (aside ?f swap M) w1" using same1 True by (elim seen_all_mono) (auto simp: aside_def)
        show ?thesis
          using open_new_cases(1,2) [OF a1 True Mm c2'] 2 f1 by (auto simp: seen_all_def)
      next
        case False
        then show ?thesis using open_new_taken [of w1 swap ?m r2 w2] c2' same1 f1 2 by (auto simp: seen_all_def)
      qed
    next
      case 3
      then have w3: "seen_all (aside ?f swap M) w3" "refusals w3 < refusals w2" using outcome(1) by blast+
      have w4: "seen_all (aside ?f swap M) w4" by (rule keepsD [OF keeps_aside(3) w3(1) c4])
      have "fs_files w4 = ?f" if "refusals w \<le> 1"
      proof -
        have "refusals w3 = 0" using w3(2) created(4) 3(1) that by simp
        then have "fs_files w4 swap = ?f swap" using remove_file_clean [OF c4] created(1) 3(1) by simp
        then show ?thesis using w4 by (auto simp: seen_all_def aside_def)
      qed
      then show ?thesis using w4 3 by (auto simp: seen_all_def)
    qed
  qed
  show "?f swap = None \<and> (\<exists>m. M m \<and> fs_files w' = ?f(p \<mapsto> fnode_of contents m) \<and>
           (\<forall>g \<in> set (fs_seen w'). aside ?f swap M g \<or> g = fs_files w') \<and>
           (refusals w = 0 \<longrightarrow> m = final_mode (fs_umask w) mode (?f p)))" if "r = Inr ()"
  proof -
    have ok: "r2 = Inr ()" "r3 = Inr ()" "w' = w3" using run' that by (auto split: sum.splits)
    have gone: "?f(swap := None) = ?f" using created(1) ok(1) by auto
    have "\<exists>m. M m \<and> fs_files w3 = (?f(swap := None))(p \<mapsto> fnode_of contents m) \<and>
        (\<forall>g \<in> set (fs_seen w3). aside ?f swap M g \<or> g = fs_files w3) \<and>
        (refusals w2 = 0 \<longrightarrow> m = (if mode = None then case ?f p of None \<Rightarrow> ?m AND NOT (fs_umask w) | Some y \<Rightarrow> node_mode y
           else ?m AND NOT (fs_umask w)))"
      by (rule outcome(2) [OF ok(1) ok(1) _ _ ok(2)])
    then obtain m where "M m \<and> fs_files w3 = (?f(swap := None))(p \<mapsto> fnode_of contents m) \<and>
        (\<forall>g \<in> set (fs_seen w3). aside ?f swap M g \<or> g = fs_files w3) \<and>
        (refusals w2 = 0 \<longrightarrow> m = (if mode = None then case ?f p of None \<Rightarrow> ?m AND NOT (fs_umask w) | Some y \<Rightarrow> node_mode y
           else ?m AND NOT (fs_umask w)))" ..
    moreover have "(if mode = None then case ?f p of None \<Rightarrow> ?m AND NOT (fs_umask w) | Some y \<Rightarrow> node_mode y else ?m AND NOT (fs_umask w)) =
        final_mode (fs_umask w) mode (?f p)"
      by (simp add: final_mode_def split: option.splits)
    ultimately show ?thesis
      using gone created(1,4) [OF ok(1)] ok(3) by (intro conjI exI [of _ m]) auto
  qed
qed

text \<open>
  C30. Whatever calls are refused, and wherever the process stops, a reader of the target finds the whole old file or the whole
  new contents, and no other file changes but the swap file. An error leaves the target as it was, and the whole tree when
  the removal of the swap file is not refused too; success leaves the new contents, no swap file, and, when no
  call was refused, the permissions asked for or those of the file replaced.
\<close>

theorem replacement_is_atomic:
  assumes "CHR ''/'' \<notin> set uuid"
    and "write_swapped pid uuid p contents mode (w\<lparr>fs_seen := []\<rparr>) = (r, w')"
  shows "(\<forall>g \<in> insert (fs_files w') (set (fs_seen w')).
            (g p = fs_files w p \<or> map_option node_bytes (g p) = Some contents) \<and>
            (\<forall>q. q \<noteq> p \<longrightarrow> q \<noteq> swap_path pid uuid p (parent_dir p) \<longrightarrow> g q = fs_files w q)) \<and>
         (case r of
            Inl e \<Rightarrow> fs_files w' p = fs_files w p \<and> (refusals w \<le> 1 \<longrightarrow> fs_files w' = fs_files w)
          | Inr _ \<Rightarrow> \<exists>m. fs_files w' = (fs_files w)(p \<mapsto> fnode_of contents m) \<and>
                       (refusals w = 0 \<longrightarrow> m = final_mode (fs_umask w) mode (fs_files w p)))"
proof -
  let ?swap = "swap_path pid uuid p (parent_dir p)" and ?w = "w\<lparr>fs_seen := []\<rparr>"
  have apart: "?swap \<noteq> p" by (rule swap_path_apart [OF assms(1)])
  have refusals: "refusals ?w = refusals w" by (simp add: refusals_def)
  note run = write_swapped_run [where M = "\<lambda>_. True", OF assms(1) _ _ _ assms(2)]
  show ?thesis
  proof (cases r)
    case (Inl e)
    then show ?thesis using run(1) apart refusals by (auto simp: seen_all_def aside_def)
  next
    case (Inr u)
    then show ?thesis using run(2) apart refusals by (auto simp: aside_def fnode_of_def)
  qed
qed

text \<open>
  C31. A file written with permissions of its own is never readable beyond them: at no moment has the swap file, or the target
  once it is replaced, a permission bit that was not asked for.
\<close>

theorem secret_never_wider:
  assumes "CHR ''/'' \<notin> set uuid"
    and "write_atomic_with_mode pid uuid p contents mode (w\<lparr>fs_seen := []\<rparr>) = (r, w')"
    and "g \<in> set (fs_seen w')" and "q = p \<or> q = swap_path pid uuid p (parent_dir p)" and "g q = Some x" and "g q \<noteq> fs_files w q"
  shows "node_mode x AND NOT mode = 0"
proof -
  let ?M = "\<lambda>m :: u32. m AND NOT mode = 0" and ?swap = "swap_path pid uuid p (parent_dir p)"
  have "?M (final_mode (fs_umask w) (Some mode) None)"
    by (simp add: final_mode_def bit_eq_iff bit_simps)
  note run = write_swapped_run [where M = ?M, OF assms(1) _ _ _ assms(2) [unfolded write_atomic_with_mode_def], simplified, OF this]
  have apart: "?swap \<noteq> p" by (rule swap_path_apart [OF assms(1)])
  show ?thesis
  proof (cases r)
    case (Inl e)
    then have "aside (fs_files w) ?swap ?M g" using run(1) assms(3,5,6) by (auto simp: seen_all_def)
    then show ?thesis using assms(4-6) apart by (auto simp: aside_def)
  next
    case (Inr u)
    then obtain m where "?M m" "fs_files w' = (fs_files w)(p \<mapsto> fnode_of contents m)"
      and "aside (fs_files w) ?swap ?M g \<or> g = fs_files w'"
      using run(2) assms(3) by fastforce
    then show ?thesis using assms(4-6) apart by (auto simp: aside_def fnode_of_def)
  qed
qed

definition key_tree :: file_tree where
  "key_tree = \<lparr>fs_files = [''/s/k'' \<mapsto> fnode_of ''old'' 0x180], fs_umask = 0x12, faults = [], fs_seen = []\<rparr>"

lemma key_swap: "swap_path 7 ''u'' ''/s/k'' (parent_dir ''/s/k'') = ''/s/.k.7.u.swap''"
  by code_simp

lemmas call_defs = sys_def quiet_call_def open_new_def write_all_def written_def metadata_def set_permissions_def rename_def
  and_then_def attempt_def ret_def ok_or_def observe_def fnode_of_def

lemmas replace_defs = write_swapped_def write_swap_then_rename_def create_swap_def carry_over_permissions_def

lemma key_replaced: "fst (write_swapped 7 ''u'' ''/s/k'' ''new'' mode key_tree) = Inr ()"
  unfolding replace_defs Let_def key_swap
  by (cases mode) (simp_all add: call_defs key_tree_def upt_rec)

text \<open>
  Without permissions of its own the replacement takes those of the target only after the contents are in the swap
  file: a file of the owner's alone, rewritten under the usual mask, is for a moment readable by everybody.
\<close>

theorem replacement_briefly_wider:
  "\<exists>g \<in> set (fs_seen (snd (write_atomic 7 ''u'' ''/s/k'' ''new'' key_tree))).
     g ''/s/.k.7.u.swap'' = Some (fnode_of ''new'' 0x1A4) \<and> map_option node_mode (g ''/s/k'') = Some 0x180"
  unfolding write_atomic_def replace_defs Let_def key_swap
  by (simp add: call_defs key_tree_def upt_rec)

theorem replacement_is_atomic_witness:
  "CHR ''/'' \<notin> set ''u'' \<and> fst (write_swapped 7 ''u'' ''/s/k'' ''new'' None key_tree) = Inr () \<and>
   fs_files (snd (write_swapped 7 ''u'' ''/s/k'' ''new'' None key_tree)) = [''/s/k'' \<mapsto> fnode_of ''new'' 0x180]"
proof -
  have start: "key_tree\<lparr>fs_seen := []\<rparr> = key_tree" by (simp add: key_tree_def)
  obtain w' where run: "write_swapped 7 ''u'' ''/s/k'' ''new'' None key_tree = (Inr (), w')"
    using key_replaced [of None] by (metis prod.collapse)
  show ?thesis
    using replacement_is_atomic [of "''u''" 7 "''/s/k''" "''new''" None key_tree "Inr ()" w'] run start
    by (auto simp: key_tree_def refusals_def final_mode_def fnode_of_def)
qed

theorem secret_never_wider_witness:
  "\<exists>g x. g \<in> set (fs_seen (snd (write_atomic_with_mode 7 ''u'' ''/s/k'' ''new'' 0x180 key_tree))) \<and>
     g ''/s/.k.7.u.swap'' = Some x \<and> node_bytes x = ''new'' \<and> node_mode x AND NOT 0x180 = 0"
proof -
  let ?run = "write_atomic_with_mode 7 ''u'' ''/s/k'' ''new'' 0x180 key_tree"
  have start: "key_tree\<lparr>fs_seen := []\<rparr> = key_tree" by (simp add: key_tree_def)
  have "\<exists>g \<in> set (fs_seen (snd ?run)). \<exists>x. g ''/s/.k.7.u.swap'' = Some x \<and> node_bytes x = ''new''"
    unfolding write_atomic_with_mode_def replace_defs Let_def key_swap
    by (simp add: call_defs key_tree_def upt_rec)
  then obtain g x where g: "g \<in> set (fs_seen (snd ?run))" "g ''/s/.k.7.u.swap'' = Some x" "node_bytes x = ''new''" by blast
  have "node_mode x AND NOT 0x180 = 0"
    using secret_never_wider [of "''u''" 7 "''/s/k''" "''new''" "0x180" key_tree "fst ?run" "snd ?run" g "''/s/.k.7.u.swap''" x] g start
    by (simp add: key_swap key_tree_def)
  with g show ?thesis by blast
qed

end
