(* ===== verification/Invoke_Cache.thy ===== *)
theory Invoke_Cache
  imports Flow_Graph Atomic_File
begin

text \<open>
  The action cache of a session (\<open>tddy-workflow-engine\<close>, \<open>workflow/action_cache.rs\<close>): the fingerprint of what an agent is
  asked, the hash it rests on, and the document \<open>action-cache.json\<close> in which submitted outputs are kept.

  The hash works on 64-bit words that wrap. The JSON of the fingerprint envelope and the text of the document are made by a
  library: they are arguments (\<open>envelope_json\<close>, \<open>cache_codec\<close>). The file is read and replaced in the tree of \<open>Atomic_File\<close>. The entries of a document are a \<open>HashMap\<close>; a lookup
  walks them in some order, so it takes an enumeration of the map.
\<close>

unbundle bit_operations_syntax

section \<open>FNV-1a\<close>

definition fnv_offset :: u64 where
  "fnv_offset = 0xcbf29ce484222325"

definition fnv_prime :: u64 where
  "fnv_prime = 0x100000001b3"

definition fnv_step :: "u64 \<Rightarrow> char \<Rightarrow> u64" where
  "fnv_step hash byte = (hash XOR of_nat (of_char byte)) * fnv_prime"

definition fnv1a64 :: "string \<Rightarrow> u64" where
  "fnv1a64 data = foldl fnv_step fnv_offset data"

text \<open>The prime is odd, so a step can be undone: no step loses a bit of the hash.\<close>

definition fnv_inverse :: u64 where
  "fnv_inverse = 0xce965057aff6957b"

lemma fnv_prime_inverse: "fnv_prime * fnv_inverse = 1"
  by (simp add: fnv_prime_def fnv_inverse_def)

lemma fnv_mult_cancel: "a * fnv_prime = b * fnv_prime \<longleftrightarrow> a = b"
proof
  assume "a * fnv_prime = b * fnv_prime"
  then have "a * (fnv_prime * fnv_inverse) = b * (fnv_prime * fnv_inverse)" by (simp add: mult.assoc [symmetric])
  then show "a = b" by (simp add: fnv_prime_inverse)
qed simp

lemma xor_cancel: "(a XOR c = b XOR c) \<longleftrightarrow> a = (b :: u64)" "(c XOR a = c XOR b) \<longleftrightarrow> a = b"
  by (metis xor.assoc xor.commute xor_self_eq xor.right_neutral)+

lemma byte_word_inject: "(of_nat (of_char c) :: u64) = of_nat (of_char d) \<longleftrightarrow> c = d"
proof
  assume eq: "(of_nat (of_char c) :: u64) = of_nat (of_char d)"
  have small: "(of_char x :: nat) < 2 ^ 64" for x
    using nat_of_char_less_256 [of x] by (rule less_trans) simp
  have "unat (of_nat (of_char x) :: u64) = of_char x" for x
    using small [of x] by (simp add: unat_of_nat)
  then have "(of_char c :: nat) = of_char d" using eq by metis
  then show "c = d" by (simp add: of_char_eq_iff)
qed simp

lemma fnv_step_state: "fnv_step a c = fnv_step b c \<longleftrightarrow> a = b"
  by (simp add: fnv_step_def fnv_mult_cancel xor_cancel)

lemma fnv_step_byte: "fnv_step a c = fnv_step a d \<longleftrightarrow> c = d"
  by (simp add: fnv_step_def fnv_mult_cancel xor_cancel byte_word_inject)

lemma fnv_fold_state: "foldl fnv_step a cs = foldl fnv_step b cs \<longleftrightarrow> a = b"
  by (induction cs arbitrary: a b) (simp_all add: fnv_step_state)

text \<open>
  C35. Two texts that differ in exactly one byte have different hashes.
\<close>

theorem fnv_separates_one_byte: "fnv1a64 (as @ c # bs) = fnv1a64 (as @ d # bs) \<longleftrightarrow> c = d"
  by (simp add: fnv1a64_def fnv_fold_state fnv_step_byte)

text \<open>\<open>{:016x}\<close>.\<close>

definition hex_digit :: "nat \<Rightarrow> char" where
  "hex_digit n = (if n < 10 then char_of (48 + n) else char_of (87 + n))"

fun hex_digits :: "nat \<Rightarrow> nat \<Rightarrow> string" where
  "hex_digits 0 m = []"
| "hex_digits (Suc n) m = hex_digits n (m div 16) @ [hex_digit (m mod 16)]"

definition hex16 :: "u64 \<Rightarrow> string" where
  "hex16 w = hex_digits 16 (unat w)"

lemma hex_digit_inject:
  assumes "a < 16" and "b < 16"
  shows "hex_digit a = hex_digit b \<longleftrightarrow> a = b"
proof
  assume eq: "hex_digit a = hex_digit b"
  have code: "(of_char (hex_digit n) :: nat) = (if n < 10 then 48 + n else 87 + n)" if "n < 16" for n
    using that by (simp add: hex_digit_def of_char_of)
  have "(of_char (hex_digit a) :: nat) = of_char (hex_digit b)" using eq by simp
  then show "a = b" unfolding code [OF assms(1)] code [OF assms(2)] by (simp split: if_splits)
qed simp

lemma base_digit_inject:
  fixes x y r s :: nat
  assumes "r < b" and "s < b"
  shows "b * x + r = b * y + s \<longleftrightarrow> x = y \<and> r = s"
proof
  assume eq: "b * x + r = b * y + s"
  have "(b * x + r) div b = x" "(b * y + s) div b = y" "(b * x + r) mod b = r" "(b * y + s) mod b = s"
    using assms by simp_all
  then show "x = y \<and> r = s" using eq by metis
qed simp

lemma hex_digits_inject: "hex_digits n a = hex_digits n b \<longleftrightarrow> a mod 16 ^ n = b mod 16 ^ n"
proof (induction n arbitrary: a b)
  case (Suc n)
  have split: "m mod 16 ^ Suc n = 16 * (m div 16 mod 16 ^ n) + m mod 16" for m :: nat
    by (simp add: mod_mult2_eq)
  have "hex_digits (Suc n) a = hex_digits (Suc n) b \<longleftrightarrow>
          a div 16 mod 16 ^ n = b div 16 mod 16 ^ n \<and> a mod 16 = b mod 16"
    by (simp add: Suc.IH hex_digit_inject)
  also have "\<dots> \<longleftrightarrow> a mod 16 ^ Suc n = b mod 16 ^ Suc n"
    unfolding split by (subst base_digit_inject) simp_all
  finally show ?case .
qed simp

lemma hex16_inject: "hex16 a = hex16 b \<longleftrightarrow> a = b"
proof -
  have "unat w mod 16 ^ 16 = unat w" for w :: u64
    using unat_u64_less [of w] by simp
  then show ?thesis by (simp add: hex16_def hex_digits_inject word_unat_eq_iff)
qed

section \<open>Fingerprints\<close>

record action_fingerprint_parts =
  fp_goal_id :: string
  fp_effective_prompt :: string
  fp_system_prompt :: "string option"
  fp_model :: "string option"

record fingerprint_envelope =
  env_alg :: string
  env_v :: u32
  env_goal_id :: string
  env_effective_prompt :: string
  env_system_prompt :: string
  env_model :: string

definition fingerprint_algorithm_id :: string where
  "fingerprint_algorithm_id = ''tddy_fp_v1''"

definition trimmed_or_empty :: "string option \<Rightarrow> string" where
  "trimmed_or_empty x =
     (case x of None \<Rightarrow> [] | Some s \<Rightarrow> let t = trim s in if t \<noteq> [] then t else [])"

definition canonical_envelope :: "action_fingerprint_parts \<Rightarrow> fingerprint_envelope" where
  "canonical_envelope p =
     \<lparr>env_alg = fingerprint_algorithm_id, env_v = 1, env_goal_id = trim (fp_goal_id p),
      env_effective_prompt = trim (fp_effective_prompt p), env_system_prompt = trimmed_or_empty (fp_system_prompt p),
      env_model = trimmed_or_empty (fp_model p)\<rparr>"

definition fingerprint_action_inputs ::
    "(fingerprint_envelope \<Rightarrow> string option) \<Rightarrow> action_fingerprint_parts \<Rightarrow> string option" where
  "fingerprint_action_inputs envelope_json p =
     (case envelope_json (canonical_envelope p) of
        None \<Rightarrow> None
      | Some bytes \<Rightarrow> Some (fingerprint_algorithm_id @ '':'' @ hex16 (fnv1a64 bytes)))"

definition stable_action_cache_key :: "string \<Rightarrow> string \<Rightarrow> string \<Rightarrow> string" where
  "stable_action_cache_key gid tid goal = trim gid @ ''|'' @ trim tid @ ''|'' @ trim goal"

definition entry_storage_bucket_key :: "string \<Rightarrow> string \<Rightarrow> string" where
  "entry_storage_bucket_key action_key fingerprint =
     replace_str ''-'' ''_'' fingerprint_algorithm_id @ ''_'' @ hex16 (fnv1a64 (action_key @ [char_of (0 :: nat)] @ fingerprint))"

lemma fingerprint_equal_iff:
  "fingerprint_action_inputs j p = Some f \<Longrightarrow> fingerprint_action_inputs j q = Some g \<Longrightarrow>
     f = g \<longleftrightarrow> fnv1a64 (the (j (canonical_envelope p))) = fnv1a64 (the (j (canonical_envelope q)))"
  by (auto simp: fingerprint_action_inputs_def hex16_inject split: option.splits)

section \<open>The document\<close>

record action_cache_document =
  schema_version :: u32
  cache_entries :: "string \<rightharpoonup> json"

definition action_cache_schema_version :: u32 where
  "action_cache_schema_version = 1"

definition raised_version :: "u32 \<Rightarrow> u32" where
  "raised_version v = max (max v action_cache_schema_version) 1"

definition fresh_document :: action_cache_document where
  "fresh_document = \<lparr>schema_version = action_cache_schema_version, cache_entries = Map.empty\<rparr>"

definition cache_entry_json :: "string \<Rightarrow> string \<Rightarrow> string \<Rightarrow> string \<Rightarrow> json" where
  "cache_entry_json action_key fingerprint goal out =
     JObj [(''action_key'', JStr action_key), (''fingerprint'', JStr fingerprint),
           (''fingerprint_algorithm_id'', JStr fingerprint_algorithm_id), (''goal_id'', JStr goal), (''output'', JStr out)]"

definition merge_action_cache_entry_stub ::
    "action_cache_document \<Rightarrow> string \<Rightarrow> string \<Rightarrow> string \<Rightarrow> string \<Rightarrow> string \<Rightarrow> action_cache_document" where
  "merge_action_cache_entry_stub doc storage_key action_key fingerprint goal out =
     doc\<lparr>schema_version := raised_version (schema_version doc),
         cache_entries := (cache_entries doc)(storage_key \<mapsto> cache_entry_json action_key fingerprint goal out)\<rparr>"

fun as_object :: "json \<Rightarrow> (string \<times> json) list option" where
  "as_object (JObj m) = Some m"
| "as_object _ = None"

fun normalize_cache_output_payload :: "(json \<Rightarrow> string) \<Rightarrow> json \<Rightarrow> string option" where
  "normalize_cache_output_payload show_json (JStr body) = Some body"
| "normalize_cache_output_payload show_json other = Some (show_json other)"

definition entry_string :: "json \<Rightarrow> string \<Rightarrow> string option" where
  "entry_string entry key = Option.bind (as_object entry) (\<lambda>m. Option.bind (map_of m key) from_string)"

text \<open>The walk over the entries; the first one that has not the expected shape ends it.\<close>

fun find_cached :: "(json \<Rightarrow> string) \<Rightarrow> string \<Rightarrow> string \<Rightarrow> (string \<times> json) list \<Rightarrow> string option" where
  "find_cached show_json action_key fingerprint [] = None"
| "find_cached show_json action_key fingerprint ((bucket, entry) # es) =
     (case entry_string entry ''action_key'' of
        None \<Rightarrow> None
      | Some ak \<Rightarrow>
          (case entry_string entry ''fingerprint'' of
             None \<Rightarrow> None
           | Some fp \<Rightarrow>
               if ak = action_key \<and> fp = fingerprint
               then Option.bind (Option.bind (as_object entry) (\<lambda>m. map_of m ''output'')) (normalize_cache_output_payload show_json)
               else find_cached show_json action_key fingerprint es))"

section \<open>Files\<close>

text \<open>What \<open>serde_json\<close> and a \<open>HashMap\<close> do: parsing, printing, and some order of the entries.\<close>

record cache_codec =
  parse_document :: "string \<Rightarrow> string + action_cache_document"
  print_document :: "action_cache_document \<Rightarrow> string + string"
  enumerate_entries :: "(string \<rightharpoonup> json) \<Rightarrow> (string \<times> json) list"
  show_json :: "json \<Rightarrow> string"

definition codec_ok :: "cache_codec \<Rightarrow> bool" where
  "codec_ok c \<longleftrightarrow>
     (\<forall>doc t. print_document c doc = Inr t \<longrightarrow> parse_document c t = Inr doc) \<and>
     (\<forall>m. finite (dom m) \<longrightarrow> serialized_as m (enumerate_entries c m))"

definition action_cache_file_path :: "string \<Rightarrow> string" where
  "action_cache_file_path session_dir = path_join (workflow_engine_storage_dir session_dir) ''action-cache.json''"

definition read_to_string :: "string \<Rightarrow> string fs_io" where
  "read_to_string p =
     and_then (sys (\<lambda>f. if f p = None then Inl ''NotFound'' else Inr []) (\<lambda>f n. []))
       (\<lambda>_ w. (ok_or ''NotFound'' (map_option node_bytes (fs_files w p)), w))"

definition lookup_cached_completed_submit :: "cache_codec \<Rightarrow> string \<Rightarrow> string \<Rightarrow> string \<Rightarrow> string option fs_io" where
  "lookup_cached_completed_submit c session_dir action_key fingerprint w =
     (let path = action_cache_file_path session_dir
      in if fs_files w path = None then ret None w
         else and_then (attempt (read_to_string path))
           (\<lambda>r. case r of
                Inl _ \<Rightarrow> ret None
              | Inr raw \<Rightarrow>
                  (case parse_document c raw of
                     Inl _ \<Rightarrow> ret None
                   | Inr doc \<Rightarrow>
                       ret (find_cached (show_json c) action_key fingerprint (enumerate_entries c (cache_entries doc))))) w)"

definition load_or_default_action_cache_document :: "cache_codec \<Rightarrow> string \<Rightarrow> action_cache_document fs_io" where
  "load_or_default_action_cache_document c path w =
     (if fs_files w path = None then ret fresh_document w
      else and_then (attempt (read_to_string path))
        (\<lambda>r. case r of
             Inr raw \<Rightarrow>
               (case parse_document c raw of
                  Inr doc \<Rightarrow> ret (doc\<lparr>schema_version := raised_version (schema_version doc)\<rparr>)
                | Inl _ \<Rightarrow> ret fresh_document)
           | Inl e \<Rightarrow> if e = ''NotFound'' then ret fresh_document else fail e) w)"

definition flush_action_cache_document_atomic ::
    "cache_codec \<Rightarrow> nat \<Rightarrow> string \<Rightarrow> string \<Rightarrow> action_cache_document \<Rightarrow> unit fs_io" where
  "flush_action_cache_document_atomic c pid uuid path doc =
     and_then (of_result (print_document c doc)) (\<lambda>serialized. write_atomic pid uuid path serialized)"

definition persist_successful_submit_to_action_cache ::
    "cache_codec \<Rightarrow> nat \<Rightarrow> string \<Rightarrow> string \<Rightarrow> string \<Rightarrow> string \<Rightarrow> string \<Rightarrow> string \<Rightarrow> unit fs_io" where
  "persist_successful_submit_to_action_cache c pid uuid session_dir goal action_key fingerprint out =
     (let path = action_cache_file_path session_dir;
          bucket = entry_storage_bucket_key action_key fingerprint
      in and_then (load_or_default_action_cache_document c path)
           (\<lambda>doc. flush_action_cache_document_atomic c pid uuid path
              (merge_action_cache_entry_stub doc bucket action_key fingerprint goal out)))"

definition disable_action_cache_via_env :: "string option \<Rightarrow> bool" where
  "disable_action_cache_via_env env =
     (case env of Some v \<Rightarrow> map ascii_lower (trim v) \<in> {''1'', ''true'', ''yes''} | None \<Rightarrow> False)"

definition action_cache_disabled :: "string option \<Rightarrow> flow_context \<Rightarrow> bool" where
  "action_cache_disabled env ctx \<longleftrightarrow>
     (case get_sync from_bool ctx ''disable_action_cache'' of Some b \<Rightarrow> b | None \<Rightarrow> False) \<or>
     disable_action_cache_via_env env"

section \<open>What is served\<close>

text \<open>
  The documents the code writes: finitely many entries, each of them one that \<open>merge_action_cache_entry_stub\<close> makes, in the
  bucket of its action key and fingerprint.
\<close>

definition cache_doc_inv :: "action_cache_document \<Rightarrow> bool" where
  "cache_doc_inv doc \<longleftrightarrow>
     finite (dom (cache_entries doc)) \<and>
     (\<forall>k e. cache_entries doc k = Some e \<longrightarrow>
        (\<exists>ak fp goal out. e = cache_entry_json ak fp goal out \<and> k = entry_storage_bucket_key ak fp))"

text \<open>The output a document holds for an action key and a fingerprint.\<close>

definition cached_output :: "action_cache_document \<Rightarrow> string \<Rightarrow> string \<Rightarrow> string option" where
  "cached_output doc ak fp =
     Option.bind (cache_entries doc (entry_storage_bucket_key ak fp))
       (\<lambda>e. if entry_string e ''action_key'' = Some ak \<and> entry_string e ''fingerprint'' = Some fp
            then entry_string e ''output'' else None)"

lemma entry_fields [simp]:
  "entry_string (cache_entry_json ak fp goal out) ''action_key'' = Some ak"
  "entry_string (cache_entry_json ak fp goal out) ''fingerprint'' = Some fp"
  "entry_string (cache_entry_json ak fp goal out) ''output'' = Some out"
  "Option.bind (as_object (cache_entry_json ak fp goal out)) (\<lambda>m. map_of m ''output'') = Some (JStr out)"
  by (simp_all add: entry_string_def cache_entry_json_def)

lemma fresh_document_inv: "cache_doc_inv fresh_document"
  by (simp add: cache_doc_inv_def fresh_document_def)

lemma merge_inv:
  "cache_doc_inv doc \<Longrightarrow> cache_doc_inv (merge_action_cache_entry_stub doc (entry_storage_bucket_key ak fp) ak fp goal out)"
  by (auto simp: cache_doc_inv_def merge_action_cache_entry_stub_def)

lemma cached_output_merge:
  "cached_output (merge_action_cache_entry_stub doc (entry_storage_bucket_key ak fp) ak fp goal out) ak' fp' =
     (if ak' = ak \<and> fp' = fp then Some out
      else if entry_storage_bucket_key ak' fp' = entry_storage_bucket_key ak fp then None else cached_output doc ak' fp')"
  by (auto simp: cached_output_def merge_action_cache_entry_stub_def)

text \<open>A walk over well-formed entries finds the one entry of the asked bucket, whatever the order.\<close>

lemma find_cached_enumerated:
  assumes "distinct (map fst es)"
    and "\<And>k e. (k, e) \<in> set es \<Longrightarrow> \<exists>ak fp goal out. e = cache_entry_json ak fp goal out \<and> k = entry_storage_bucket_key ak fp"
  shows "find_cached sj ak fp es =
     Option.bind (map_of es (entry_storage_bucket_key ak fp))
       (\<lambda>e. if entry_string e ''action_key'' = Some ak \<and> entry_string e ''fingerprint'' = Some fp
            then entry_string e ''output'' else None)"
  using assms
proof (induction es)
  case (Cons ke es)
  obtain k e where ke: "ke = (k, e)" by (cases ke)
  obtain ak' fp' goal out where e: "e = cache_entry_json ak' fp' goal out" and k: "k = entry_storage_bucket_key ak' fp'"
    using Cons.prems(2) [of k e] unfolding ke by (meson list.set_intros(1))
  have IH: "find_cached sj ak fp es =
      Option.bind (map_of es (entry_storage_bucket_key ak fp))
        (\<lambda>e. if entry_string e ''action_key'' = Some ak \<and> entry_string e ''fingerprint'' = Some fp
             then entry_string e ''output'' else None)"
    using Cons.IH Cons.prems by simp
  show ?case
  proof (cases "ak' = ak \<and> fp' = fp")
    case True
    then show ?thesis using ke e k by simp
  next
    case False
    have "map_of es k = None" using Cons.prems(1) ke by (simp add: map_of_eq_None_iff)
    then show ?thesis using False IH ke e k by auto
  qed
qed simp

text \<open>What a lookup answers when its read is not refused depends on the bytes of the cache file alone.\<close>

definition answer_for :: "cache_codec \<Rightarrow> string \<Rightarrow> string \<Rightarrow> string option \<Rightarrow> string option" where
  "answer_for c ak fp raw =
     Option.bind raw (\<lambda>raw. case parse_document c raw of
        Inl _ \<Rightarrow> None
      | Inr doc \<Rightarrow> find_cached (show_json c) ak fp (enumerate_entries c (cache_entries doc)))"

lemma read_to_string_calm:
  "faults w = [] \<Longrightarrow> fs_files w p = Some x \<Longrightarrow> read_to_string p w = (Inr (node_bytes x), w)"
  by (simp add: read_to_string_def and_then_def sys_def)

lemma lookup_answer:
  "faults w = [] \<Longrightarrow> fst (lookup_cached_completed_submit c dir ak fp w) =
     Inr (answer_for c ak fp (map_option node_bytes (fs_files w (action_cache_file_path dir))))"
  by (cases "fs_files w (action_cache_file_path dir)")
    (simp_all add: lookup_cached_completed_submit_def Let_def answer_for_def ret_def and_then_def attempt_def read_to_string_calm
      split: sum.splits)

lemma same_option: "(\<And>v. a = Some v \<longleftrightarrow> b = Some v) \<Longrightarrow> a = b"
  by (cases a; cases b) auto

lemma answer_for_document:
  assumes "codec_ok c" and "print_document c doc = Inr raw" and "cache_doc_inv doc"
  shows "answer_for c ak fp (Some raw) = cached_output doc ak fp"
proof -
  let ?es = "enumerate_entries c (cache_entries doc)"
  have es: "serialized_as (cache_entries doc) ?es"
    using assms(1,3) by (simp add: codec_ok_def cache_doc_inv_def)
  then have d: "distinct (map fst ?es)" and mem: "(k, e) \<in> set ?es \<longleftrightarrow> cache_entries doc k = Some e" for k e
    by (simp_all add: serialized_as_def)
  have same: "map_of ?es k = Some v \<longleftrightarrow> cache_entries doc k = Some v" for k v
    using map_of_eq_Some_iff [OF d] mem by simp
  have lookup: "map_of ?es k = cache_entries doc k" for k
    by (rule same_option) (rule same)
  have shape: "\<exists>ak fp goal out. e = cache_entry_json ak fp goal out \<and> k = entry_storage_bucket_key ak fp" if "(k, e) \<in> set ?es" for k e
    using assms(3) that mem unfolding cache_doc_inv_def by blast
  have "find_cached (show_json c) ak fp ?es =
      Option.bind (map_of ?es (entry_storage_bucket_key ak fp))
        (\<lambda>e. if entry_string e ''action_key'' = Some ak \<and> entry_string e ''fingerprint'' = Some fp
             then entry_string e ''output'' else None)"
    by (rule find_cached_enumerated [OF d]) (rule shape)
  then have "find_cached (show_json c) ak fp ?es = cached_output doc ak fp"
    by (simp only: cached_output_def lookup)
  moreover have "parse_document c raw = Inr doc" using assms(1,2) by (simp add: codec_ok_def)
  ultimately show ?thesis by (simp add: answer_for_def)
qed

lemma load_files:
  assumes "load_or_default_action_cache_document c p w = (r, v)"
  shows "fs_files v = fs_files w" and "fs_seen v = fs_seen w"
proof -
  have "fs_files v = fs_files w \<and> fs_seen v = fs_seen w" if "read_to_string q w = (r, v)" for q r
    using that by (cases rule: sys_cases [of w "\<lambda>f. if f q = None then Inl ''NotFound'' else Inr []" "\<lambda>f n. []"])
      (auto simp: read_to_string_def and_then_def split: if_splits)
  then show "fs_files v = fs_files w" and "fs_seen v = fs_seen w"
    using assms by (auto simp: load_or_default_action_cache_document_def io_simps ret_def fail_def and_then_def attempt_def
        split: if_splits prod.splits sum.splits)
qed

text \<open>How the cache file changes while an output is persisted: not at all, or at once into the merged document.\<close>

lemma persist_cases:
  assumes uuid: "CHR ''/'' \<notin> set uuid" and seen: "fs_seen w = []"
    and load: "load_or_default_action_cache_document c (action_cache_file_path dir) w = (Inr doc, v)"
    and persist: "persist_successful_submit_to_action_cache c pid uuid dir goal ak fp out w = (r, w')"
  shows "\<exists>raw. (r = Inr () \<longrightarrow> print_document c (merge_action_cache_entry_stub doc (entry_storage_bucket_key ak fp) ak fp goal out) = Inr raw \<and>
              map_option node_bytes (fs_files w' (action_cache_file_path dir)) = Some raw) \<and>
           (r \<noteq> Inr () \<longrightarrow> fs_files w' (action_cache_file_path dir) = fs_files w (action_cache_file_path dir)) \<and>
           (\<forall>g \<in> set (fs_seen w'). g (action_cache_file_path dir) = fs_files w (action_cache_file_path dir) \<or>
              g (action_cache_file_path dir) = fs_files w' (action_cache_file_path dir))"
proof -
  let ?p = "action_cache_file_path dir"
  let ?doc = "merge_action_cache_entry_stub doc (entry_storage_bucket_key ak fp) ak fp goal out"
  have v: "fs_files v = fs_files w" "fs_seen v = []" using load_files [OF load] seen by simp_all
  have flush: "and_then (of_result (print_document c ?doc)) (write_atomic pid uuid ?p) v = (r, w')"
    using persist load
    by (simp add: persist_successful_submit_to_action_cache_def Let_def flush_action_cache_document_atomic_def and_then_step)
  show ?thesis
  proof (cases "print_document c ?doc")
    case (Inl e)
    then have "r = Inl e" "w' = v" using flush by (simp_all add: and_then_def of_result_def)
    then show ?thesis using v by simp
  next
    case (Inr raw)
    then have "write_swapped pid uuid ?p raw None v = (r, w')"
      using flush by (simp add: and_then_def of_result_def write_atomic_def)
    note run = write_swapped_run [where M = "\<lambda>_. True", OF uuid v(2) _ _ this, simplified, unfolded v(1)]
    have apart: "swap_path pid uuid ?p (parent_dir ?p) \<noteq> ?p" by (rule swap_path_apart [OF uuid])
    show ?thesis
    proof (cases r)
      case (Inl e)
      then show ?thesis using run(1) apart by (auto simp: seen_all_def aside_def)
    next
      case r: (Inr u)
      then obtain m where m: "fs_files w' = (fs_files w)(?p \<mapsto> fnode_of raw m)"
        "\<forall>g \<in> set (fs_seen w'). aside (fs_files w) (swap_path pid uuid ?p (parent_dir ?p)) (\<lambda>_. True) g \<or> g = fs_files w'"
        using run(2) by auto
      then have "\<forall>g \<in> set (fs_seen w'). g ?p = fs_files w ?p \<or> g ?p = fs_files w' ?p"
        using apart unfolding aside_def by metis
      then show ?thesis using r m(1) Inr by (intro exI [of _ raw]) (simp add: fnode_of_def)
    qed
  qed
qed

text \<open>
  C34. Persisting a submitted output makes the next lookup with the same action key and fingerprint answer it, whatever order
  the entries are walked in, and leaves every other answer as it was, except that a pair whose bucket collides is
  forgotten: a collision never serves the output of another action. A lookup at any moment while the file is
  replaced, whatever calls are refused, answers as before or as after.
\<close>

theorem persisted_submit_is_served:
  assumes "codec_ok c" and "CHR ''/'' \<notin> set uuid" and "fs_seen w = []"
    and "load_or_default_action_cache_document c (action_cache_file_path dir) w = (Inr doc, v)" and "cache_doc_inv doc"
    and "persist_successful_submit_to_action_cache c pid uuid dir goal ak fp out w = (r, w')"
  shows "(r = Inr () \<longrightarrow> fst (lookup_cached_completed_submit c dir ak' fp' (w'\<lparr>faults := []\<rparr>)) =
            Inr (if ak' = ak \<and> fp' = fp then Some out
                 else if entry_storage_bucket_key ak' fp' = entry_storage_bucket_key ak fp then None else cached_output doc ak' fp')) \<and>
         (\<forall>g \<in> insert (fs_files w') (set (fs_seen w')).
            fst (lookup_cached_completed_submit c dir ak' fp' (w\<lparr>fs_files := g, faults := []\<rparr>)) \<in>
              {fst (lookup_cached_completed_submit c dir ak' fp' (w\<lparr>faults := []\<rparr>)),
               fst (lookup_cached_completed_submit c dir ak' fp' (w'\<lparr>faults := []\<rparr>))})"
proof -
  let ?doc = "merge_action_cache_entry_stub doc (entry_storage_bucket_key ak fp) ak fp goal out"
  obtain raw where raw: "r = Inr () \<longrightarrow> print_document c ?doc = Inr raw \<and>
        map_option node_bytes (fs_files w' (action_cache_file_path dir)) = Some raw"
    and seen: "\<forall>g \<in> set (fs_seen w'). g (action_cache_file_path dir) = fs_files w (action_cache_file_path dir) \<or>
        g (action_cache_file_path dir) = fs_files w' (action_cache_file_path dir)"
    using persist_cases [OF assms(2-4,6)] by blast
  have "r = Inr () \<longrightarrow> fst (lookup_cached_completed_submit c dir ak' fp' (w'\<lparr>faults := []\<rparr>)) = Inr (cached_output ?doc ak' fp')"
    using raw answer_for_document [OF assms(1) _ merge_inv [OF assms(5)]] by (auto simp: lookup_answer)
  moreover have "\<forall>g \<in> insert (fs_files w') (set (fs_seen w')).
      fst (lookup_cached_completed_submit c dir ak' fp' (w\<lparr>fs_files := g, faults := []\<rparr>)) \<in>
        {fst (lookup_cached_completed_submit c dir ak' fp' (w\<lparr>faults := []\<rparr>)),
         fst (lookup_cached_completed_submit c dir ak' fp' (w'\<lparr>faults := []\<rparr>))}"
    using seen by (auto simp: lookup_answer)
  ultimately show ?thesis by (simp only: cached_output_merge)
qed

text \<open>
  One entry of another shape ends the walk: with the same document the answer depends on the order of the map.
\<close>

theorem malformed_entry_hides_others:
  "find_cached sj ak fp [(k, cache_entry_json ak fp goal out), (k', JNull)] = Some out \<and>
   find_cached sj ak fp [(k', JNull), (k, cache_entry_json ak fp goal out)] = None"
proof -
  have "entry_string JNull ''action_key'' = None" by (simp add: entry_string_def)
  then show ?thesis by simp
qed

definition sample_document :: action_cache_document where
  "sample_document = merge_action_cache_entry_stub fresh_document (entry_storage_bucket_key ''a'' ''f'') ''a'' ''f'' ''g'' ''{}''"

definition sample_codec :: cache_codec where
  "sample_codec =
     \<lparr>parse_document = (\<lambda>raw. if raw = ''x'' then Inr sample_document else Inl ''syntax''),
      print_document = (\<lambda>doc. if doc = sample_document then Inr ''x'' else Inl ''unsupported''),
      enumerate_entries = (\<lambda>m. map (\<lambda>k. (k, the (m k))) (sorted_list_of_set (dom m))),
      show_json = (\<lambda>_. [])\<rparr>"

lemma sample_codec_ok: "codec_ok sample_codec"
  by (auto simp: codec_ok_def sample_codec_def serialized_as_def comp_def dom_def image_iff)

definition bare_tree :: file_tree where
  "bare_tree = \<lparr>fs_files = Map.empty, fs_umask = 0x12, faults = [], fs_seen = []\<rparr>"

lemma sample_swap:
  "swap_path 7 ''u'' (action_cache_file_path ''/s'') (parent_dir (action_cache_file_path ''/s'')) =
     ''/s/.workflow/.action-cache.json.7.u.swap''"
  by code_simp

lemma sample_persisted:
  "fst (persist_successful_submit_to_action_cache sample_codec 7 ''u'' ''/s'' ''g'' ''a'' ''f'' ''{}'' bare_tree) = Inr ()"
proof -
  have load: "load_or_default_action_cache_document sample_codec (action_cache_file_path ''/s'') bare_tree = (Inr fresh_document, bare_tree)"
    by (simp add: load_or_default_action_cache_document_def bare_tree_def ret_def)
  have print: "print_document sample_codec
      (merge_action_cache_entry_stub fresh_document (entry_storage_bucket_key ''a'' ''f'') ''a'' ''f'' ''g'' ''{}'') = Inr ''x''"
    by (simp add: sample_codec_def sample_document_def)
  have "fst (write_atomic 7 ''u'' (action_cache_file_path ''/s'') ''x'' bare_tree) = Inr ()"
    unfolding write_atomic_def replace_defs Let_def sample_swap
    by (simp add: call_defs bare_tree_def upt_rec)
  then show ?thesis
    by (simp add: persist_successful_submit_to_action_cache_def Let_def flush_action_cache_document_atomic_def and_then_def
        of_result_def load print)
qed

theorem persisted_submit_is_served_witness:
  "codec_ok sample_codec \<and>
   fst (lookup_cached_completed_submit sample_codec ''/s'' ''a'' ''f''
     ((snd (persist_successful_submit_to_action_cache sample_codec 7 ''u'' ''/s'' ''g'' ''a'' ''f'' ''{}'' bare_tree))\<lparr>faults := []\<rparr>)) =
   Inr (Some ''{}'')"
proof -
  let ?run = "persist_successful_submit_to_action_cache sample_codec 7 ''u'' ''/s'' ''g'' ''a'' ''f'' ''{}'' bare_tree"
  have load: "load_or_default_action_cache_document sample_codec (action_cache_file_path ''/s'') bare_tree = (Inr fresh_document, bare_tree)"
    by (simp add: load_or_default_action_cache_document_def bare_tree_def ret_def)
  have run: "?run = (Inr (), snd ?run)" using sample_persisted by (metis prod.collapse)
  have "fs_seen bare_tree = []" "CHR ''/'' \<notin> set ''u''" by (simp_all add: bare_tree_def)
  then show ?thesis
    using persisted_submit_is_served [OF sample_codec_ok _ _ load fresh_document_inv run, of "''a''" "''f''"] sample_codec_ok by simp
qed

end
