(* ===== verification/Flow_Engine.thy ===== *)
theory Flow_Engine
  imports Flow_Graph
begin

text \<open>
  Running a workflow: one step of a session (\<open>tddy-graph\<close>, \<open>runner.rs\<close>) and the loops over steps
  (\<open>tddy-workflow-engine\<close>, \<open>workflow/engine.rs\<close>).

  A step loads the session, runs its task between the hooks, and saves where the session goes on. The loop of the engine runs
  steps as long as they pause; nothing bounds it, so it is a partial function, and \<open>workflow_returns\<close> shows that it ends on
  graphs whose edges lead downwards.
\<close>

section \<open>One step\<close>

definition effect :: "('s \<Rightarrow> 's) \<Rightarrow> ('s, 'e, unit) io" where
  "effect f s = (Inr (), f s)"

record 'w runner =
  runner_graph :: "'w flow_graph"
  runner_storage :: "'w storage"
  runner_hooks :: "'w hooks option"

definition enter_task :: "'w hooks option \<Rightarrow> string \<Rightarrow> ('w, unit) flow" where
  "enter_task hooks tid =
     (case hooks of
        None \<Rightarrow> ret ()
      | Some h \<Rightarrow> and_then (before_task h tid) (\<lambda>_. effect (on_enter_task h tid)))"

definition run_task :: "'w hooks option \<Rightarrow> string \<Rightarrow> 'w task \<Rightarrow> ('w, task_result) flow" where
  "run_task hooks tid t s =
     (case task_run t s of
        (Inr r, s') \<Rightarrow> (Inr r, case hooks of None \<Rightarrow> s' | Some h \<Rightarrow> on_exit_task h tid s')
      | (Inl e, s') \<Rightarrow>
          (Inl e, case hooks of None \<Rightarrow> s' | Some h \<Rightarrow> on_error h tid e (on_exit_task h tid s')))"

definition leave_task :: "'w hooks option \<Rightarrow> string \<Rightarrow> task_result \<Rightarrow> ('w, unit) flow" where
  "leave_task hooks tid r = (case hooks of None \<Rightarrow> ret () | Some h \<Rightarrow> after_task h tid r)"

definition ask_elicitation :: "'w hooks option \<Rightarrow> string \<Rightarrow> task_result \<Rightarrow> ('w, elicitation_event option) flow" where
  "ask_elicitation hooks tid r s =
     (case hooks of
        None \<Rightarrow> (Inr None, s)
      | Some h \<Rightarrow> (case elicitation_after_task h tid r s of (ev, s') \<Rightarrow> (Inr ev, s')))"

text \<open>The session shares its context with the task, so what is saved is the context as it is now.\<close>

definition save_session :: "'w storage \<Rightarrow> session \<Rightarrow> ('w, unit) flow" where
  "save_session st sess = (\<lambda>(w, ctx). case storage_save st (sess\<lparr>sess_context := ctx\<rparr>) w of (r, w') \<Rightarrow> (r, (w', ctx)))"

definition stay :: "'w runner \<Rightarrow> string \<Rightarrow> session \<Rightarrow> task_result \<Rightarrow> execution_status \<Rightarrow> string option \<Rightarrow>
    ('w, execution_result) flow" where
  "stay rn sid sess r status current =
     and_then (save_session (runner_storage rn) (sess\<lparr>sess_status_message := tr_status_message r\<rparr>))
       (\<lambda>_. ret \<lparr>er_status = status, er_session_id = sid, er_current_task_id = current\<rparr>)"

definition advance :: "'w runner \<Rightarrow> string \<Rightarrow> session \<Rightarrow> task_result \<Rightarrow> string \<Rightarrow> ('w, execution_result) flow" where
  "advance rn sid sess r nxt =
     and_then (leave_task (runner_hooks rn) (sess_task_id sess) r)
       (\<lambda>_. and_then (ask_elicitation (runner_hooks rn) (sess_task_id sess) r)
         (\<lambda>elicitation.
           and_then (save_session (runner_storage rn)
                       (sess\<lparr>sess_task_id := nxt, sess_status_message := tr_status_message r\<rparr>))
             (\<lambda>_. ret \<lparr>er_status = (case elicitation of
                                      Some event \<Rightarrow> ElicitationNeeded event
                                    | None \<Rightarrow> Paused (Some ''Step complete'')),
                       er_session_id = sid, er_current_task_id = Some nxt\<rparr>)))"

definition finish_step :: "'w runner \<Rightarrow> string \<Rightarrow> session \<Rightarrow> task_result \<Rightarrow> ('w, execution_result) flow" where
  "finish_step rn sid sess r =
     (let wait = stay rn sid sess r (WaitingForInput (tr_status_message r)) (Some (sess_task_id sess));
          follow = (\<lambda>(w, ctx). case next_task_id (runner_graph rn) (sess_task_id sess) ctx of
                      Some nxt \<Rightarrow> advance rn sid sess r nxt (w, ctx)
                    | None \<Rightarrow> wait (w, ctx))
      in case tr_next_action r of
           WaitForInput \<Rightarrow> wait
         | End \<Rightarrow> and_then (leave_task (runner_hooks rn) (sess_task_id sess) r) (\<lambda>_. stay rn sid sess r Completed None)
         | Continue \<Rightarrow> follow
         | ContinueAndExecute \<Rightarrow> follow
         | GoTo tid \<Rightarrow> advance rn sid sess r tid
         | GoBack \<Rightarrow> fail ''GoBack not implemented'')"

definition engine_context :: "session \<Rightarrow> flow_context" where
  "engine_context sess =
     set_sync ''workflow_engine_current_task_id'' (JStr (sess_task_id sess))
       (set_sync ''workflow_engine_graph_id'' (JStr (sess_graph_id sess)) (sess_context sess))"

definition in_context :: "flow_context \<Rightarrow> ('w, 'a) flow \<Rightarrow> ('w, string, 'a) io" where
  "in_context ctx m w = (case m (w, ctx) of (r, (w', _)) \<Rightarrow> (r, w'))"

definition step_task :: "'w runner \<Rightarrow> string \<Rightarrow> session \<Rightarrow> 'w task \<Rightarrow> ('w, execution_result) flow" where
  "step_task rn sid sess t =
     and_then (enter_task (runner_hooks rn) (sess_task_id sess))
       (\<lambda>_. and_then (run_task (runner_hooks rn) (sess_task_id sess) t) (finish_step rn sid sess))"

definition run :: "'w runner \<Rightarrow> string \<Rightarrow> ('w, string, execution_result) io" where
  "run rn sid =
     and_then (storage_get (runner_storage rn) sid)
       (\<lambda>found. case found of
          None \<Rightarrow> fail ''Session not found''
        | Some sess \<Rightarrow>
            (case get_task (runner_graph rn) (sess_task_id sess) of
               None \<Rightarrow> fail ''Task not found''
             | Some t \<Rightarrow> in_context (engine_context sess) (step_task rn sid sess t)))"

section \<open>The engine\<close>

record 'w engine =
  engine_start_goal :: string
  engine_runner :: "'w runner"
  engine_backend_name :: string
  engine_uuid :: "'w \<Rightarrow> string \<times> 'w"

definition workflow_session_id_from_context :: "'w engine \<Rightarrow> ('w, string) flow" where
  "workflow_session_id_from_context e =
     (\<lambda>(w, ctx).
        (case get_sync from_string ctx ''session_id'' of
           Some s \<Rightarrow> if trim s \<noteq> [] then (Inr s, (w, ctx))
                     else (case engine_uuid e w of (u, w') \<Rightarrow> (Inr u, (w', set_sync ''session_id'' (JStr u) ctx)))
         | None \<Rightarrow> (case engine_uuid e w of (u, w') \<Rightarrow> (Inr u, (w', set_sync ''session_id'' (JStr u) ctx)))))"

definition open_session :: "'w engine \<Rightarrow> string \<Rightarrow> flow_context \<Rightarrow> ('w, string, string) io" where
  "open_session e goal context_values =
     (let values = (if context_values ''backend_name'' = None
                    then context_values(''backend_name'' \<mapsto> JStr (engine_backend_name e)) else context_values)
      in in_context values
           (and_then (workflow_session_id_from_context e)
             (\<lambda>sid. and_then
                (save_session (runner_storage (engine_runner e))
                   \<lparr>sess_id = sid, sess_graph_id = graph_id (runner_graph (engine_runner e)), sess_task_id = goal,
                    sess_status_message = None, sess_context = new_context\<rparr>)
                (\<lambda>_. ret sid))))"

definition run_goal :: "'w engine \<Rightarrow> string \<Rightarrow> flow_context \<Rightarrow> ('w, string, execution_result) io" where
  "run_goal e goal context_values =
     and_then (open_session e goal context_values) (\<lambda>sid. run (engine_runner e) sid)"

partial_function (option) run_while_paused ::
    "'w runner \<Rightarrow> string \<Rightarrow> execution_result \<Rightarrow> 'w \<Rightarrow> ((string + execution_result) \<times> 'w) option" where
  "run_while_paused rn sid res w =
     (case er_status res of
        Paused _ \<Rightarrow>
          (case run rn sid w of
             (Inl e, w') \<Rightarrow> Some (Inl e, w')
           | (Inr res', w') \<Rightarrow> run_while_paused rn sid res' w')
      | _ \<Rightarrow> Some (Inr res, w))"

definition run_workflow_from ::
    "'w engine \<Rightarrow> string \<Rightarrow> flow_context \<Rightarrow> 'w \<Rightarrow> ((string + execution_result) \<times> 'w) option" where
  "run_workflow_from e goal context_values w =
     (case open_session e goal context_values w of
        (Inl err, w') \<Rightarrow> Some (Inl err, w')
      | (Inr sid, w') \<Rightarrow>
          (case run (engine_runner e) sid w' of
             (Inl err, w'') \<Rightarrow> Some (Inl err, w'')
           | (Inr res, w'') \<Rightarrow> run_while_paused (engine_runner e) sid res w''))"

definition run_full_workflow ::
    "'w engine \<Rightarrow> flow_context \<Rightarrow> 'w \<Rightarrow> ((string + execution_result) \<times> 'w) option" where
  "run_full_workflow e context_values w = run_workflow_from e (engine_start_goal e) context_values w"

definition run_session :: "'w engine \<Rightarrow> string \<Rightarrow> ('w, string, execution_result) io" where
  "run_session e sid = run (engine_runner e) sid"

definition update_session_context :: "'w engine \<Rightarrow> string \<Rightarrow> (string \<times> json) list \<Rightarrow> ('w, string, unit) io" where
  "update_session_context e sid updates =
     and_then (storage_get (runner_storage (engine_runner e)) sid)
       (\<lambda>found. case found of
          None \<Rightarrow> fail ''Session not found''
        | Some sess \<Rightarrow>
            storage_save (runner_storage (engine_runner e))
              (sess\<lparr>sess_context := fold (\<lambda>(k, v). set_sync k v) updates (sess_context sess)\<rparr>))"

definition get_session :: "'w engine \<Rightarrow> string \<Rightarrow> ('w, string, session option) io" where
  "get_session e sid = storage_get (runner_storage (engine_runner e)) sid"

section \<open>Where a step leaves the session\<close>

text \<open>The ids a task may jump to.\<close>

definition jumps_to :: "'w task \<Rightarrow> string \<Rightarrow> bool" where
  "jumps_to t tid \<longleftrightarrow> (\<exists>s r s'. task_run t s = (Inr r, s') \<and> tr_next_action r = GoTo tid)"

definition moves :: "'w flow_graph \<Rightarrow> string \<Rightarrow> string \<Rightarrow> bool" where
  "moves g a b \<longleftrightarrow> b \<in> edge_targets g a \<or> (\<exists>t. get_task g a = Some t \<and> jumps_to t b)"

text \<open>What a successful step says about the session before and after it.\<close>

definition step_outcome :: "'w flow_graph \<Rightarrow> session \<Rightarrow> session \<Rightarrow> execution_result \<Rightarrow> bool" where
  "step_outcome g s s' res \<longleftrightarrow>
     sess_id s' = sess_id s \<and> sess_graph_id s' = sess_graph_id s \<and>
     (case er_status res of
        Completed \<Rightarrow> sess_task_id s' = sess_task_id s \<and> er_current_task_id res = None
      | WaitingForInput m \<Rightarrow> sess_task_id s' = sess_task_id s \<and> er_current_task_id res = Some (sess_task_id s) \<and>
                             m = sess_status_message s'
      | Paused m \<Rightarrow> moves g (sess_task_id s) (sess_task_id s') \<and> er_current_task_id res = Some (sess_task_id s')
      | ElicitationNeeded ev \<Rightarrow> moves g (sess_task_id s) (sess_task_id s') \<and>
                                er_current_task_id res = Some (sess_task_id s')
      | ExecutionError m \<Rightarrow> False)"

text \<open>A step that succeeds has saved the session last, so the storage holds it.\<close>

definition saved_in :: "'w storage \<Rightarrow> session \<Rightarrow> 'w \<Rightarrow> bool" where
  "saved_in st s w \<longleftrightarrow> (\<exists>v. storage_save st s v = (Inr (), w))"

lemma save_session_Inr:
  "save_session st sess (w, ctx) = (Inr (), (w', ctx')) \<longleftrightarrow>
     ctx' = ctx \<and> storage_save st (sess\<lparr>sess_context := ctx\<rparr>) w = (Inr (), w')"
  by (auto simp: save_session_def split: prod.splits)

lemma stay_saves:
  assumes "stay rn sid sess r status current (w, ctx) = (Inr res, (w', ctx'))"
  shows "\<exists>s'. saved_in (runner_storage rn) s' w' \<and> sess_id s' = sess_id sess \<and> sess_graph_id s' = sess_graph_id sess \<and>
           sess_task_id s' = sess_task_id sess \<and> sess_status_message s' = tr_status_message r \<and>
           res = \<lparr>er_status = status, er_session_id = sid, er_current_task_id = current\<rparr>"
  using assms unfolding stay_def saved_in_def
  by (auto simp: io_simps save_session_Inr
      intro!: exI [of _ "sess\<lparr>sess_status_message := tr_status_message r, sess_context := ctx\<rparr>"])

lemma advance_saves:
  assumes "advance rn sid sess r nxt (w, ctx) = (Inr res, (w', ctx'))"
  shows "\<exists>s'. saved_in (runner_storage rn) s' w' \<and> sess_id s' = sess_id sess \<and> sess_graph_id s' = sess_graph_id sess \<and>
           sess_task_id s' = nxt \<and> er_current_task_id res = Some nxt \<and>
           ((\<exists>m. er_status res = Paused m) \<or> (\<exists>ev. er_status res = ElicitationNeeded ev))"
proof -
  obtain ev w1 c1 where
    save: "save_session (runner_storage rn) (sess\<lparr>sess_task_id := nxt, sess_status_message := tr_status_message r\<rparr>) (w1, c1) =
             (Inr (), (w', ctx'))" and
    res: "res = \<lparr>er_status = (case ev of Some event \<Rightarrow> ElicitationNeeded event | None \<Rightarrow> Paused (Some ''Step complete'')),
                 er_session_id = sid, er_current_task_id = Some nxt\<rparr>"
    using assms unfolding advance_def by (auto simp: io_simps)
  show ?thesis
    using save unfolding save_session_Inr saved_in_def
    by (intro exI [of _ "sess\<lparr>sess_task_id := nxt, sess_status_message := tr_status_message r, sess_context := c1\<rparr>"])
      (auto simp: res split: option.splits)
qed

lemma run_task_Inr:
  "run_task hooks tid t s = (Inr r, s') \<Longrightarrow> \<exists>s1. task_run t s = (Inr r, s1)"
  by (auto simp: run_task_def split: prod.splits sum.splits)

lemma finish_step_saves:
  assumes fin: "finish_step rn sid sess r (w, ctx) = (Inr res, (w', ctx'))"
    and jump: "\<And>tid. tr_next_action r = GoTo tid \<Longrightarrow> moves (runner_graph rn) (sess_task_id sess) tid"
  shows "\<exists>s'. saved_in (runner_storage rn) s' w' \<and> step_outcome (runner_graph rn) sess s' res"
proof -
  have waits: ?thesis
    if "stay rn sid sess r (WaitingForInput (tr_status_message r)) (Some (sess_task_id sess)) (w, ctx) = (Inr res, (w', ctx'))"
    using stay_saves [OF that] by (fastforce simp: step_outcome_def)
  have moved: ?thesis
    if "advance rn sid sess r nxt (w, ctx) = (Inr res, (w', ctx'))" "moves (runner_graph rn) (sess_task_id sess) nxt" for nxt
    using advance_saves [OF that(1)] that(2) by (fastforce simp: step_outcome_def)
  have follows: ?thesis
    if f: "(case next_task_id (runner_graph rn) (sess_task_id sess) ctx of
              Some nxt \<Rightarrow> advance rn sid sess r nxt (w, ctx)
            | None \<Rightarrow> stay rn sid sess r (WaitingForInput (tr_status_message r)) (Some (sess_task_id sess)) (w, ctx)) =
            (Inr res, (w', ctx'))"
  proof (cases "next_task_id (runner_graph rn) (sess_task_id sess) ctx")
    case None
    then show ?thesis using f waits by simp
  next
    case (Some nxt)
    have "moves (runner_graph rn) (sess_task_id sess) nxt"
      using next_task_id_target [OF Some] by (simp add: moves_def)
    then show ?thesis using f Some moved by simp
  qed
  show ?thesis
  proof (cases "tr_next_action r")
    case End
    then obtain w1 c1 where "stay rn sid sess r Completed None (w1, c1) = (Inr res, (w', ctx'))"
      using fin by (auto simp: finish_step_def io_simps)
    then show ?thesis using stay_saves by (fastforce simp: step_outcome_def)
  next
    case GoBack
    then show ?thesis using fin by (simp add: finish_step_def io_simps)
  next
    case (GoTo tid)
    then show ?thesis using fin jump moved by (simp add: finish_step_def)
  qed (use fin waits follows in \<open>simp_all add: finish_step_def\<close>)
qed

lemma run_saves:
  assumes "run rn sid w = (Inr res, w')"
  shows "\<exists>sess t w1 s'. storage_get (runner_storage rn) sid w = (Inr (Some sess), w1) \<and>
           get_task (runner_graph rn) (sess_task_id sess) = Some t \<and>
           saved_in (runner_storage rn) s' w' \<and> step_outcome (runner_graph rn) sess s' res"
proof -
  obtain found w1 where found: "storage_get (runner_storage rn) sid w = (Inr found, w1)"
    and rest: "(case found of
          None \<Rightarrow> fail ''Session not found''
        | Some sess \<Rightarrow>
            (case get_task (runner_graph rn) (sess_task_id sess) of
               None \<Rightarrow> fail ''Task not found''
             | Some t \<Rightarrow> in_context (engine_context sess) (step_task rn sid sess t))) w1 = (Inr res, w')"
    using assms unfolding run_def and_then_Inr by blast
  obtain sess where got: "storage_get (runner_storage rn) sid w = (Inr (Some sess), w1)" and sess: "found = Some sess"
    using found rest by (cases found) (auto simp: io_simps)
  obtain t where t: "get_task (runner_graph rn) (sess_task_id sess) = Some t"
    and step: "in_context (engine_context sess) (step_task rn sid sess t) w1 = (Inr res, w')"
    using rest sess by (cases "get_task (runner_graph rn) (sess_task_id sess)") (auto simp: io_simps)
  obtain ctx' where "step_task rn sid sess t (w1, engine_context sess) = (Inr res, (w', ctx'))"
    using step by (auto simp: in_context_def split: prod.splits)
  then obtain r s2 w2 c2 where ran: "run_task (runner_hooks rn) (sess_task_id sess) t s2 = (Inr r, (w2, c2))"
    and fin: "finish_step rn sid sess r (w2, c2) = (Inr res, (w', ctx'))"
    unfolding step_task_def by (auto simp: io_simps)
  have "moves (runner_graph rn) (sess_task_id sess) tid" if "tr_next_action r = GoTo tid" for tid
    using run_task_Inr [OF ran] that t unfolding moves_def jumps_to_def by blast
  from finish_step_saves [OF fin this] show ?thesis using got t by blast
qed

section \<open>Workflows end\<close>

text \<open>Edges lead downwards, and no task jumps.\<close>

definition descends :: "'w flow_graph \<Rightarrow> (string \<Rightarrow> nat) \<Rightarrow> bool" where
  "descends g rank \<longleftrightarrow> (\<forall>a b. moves g a b \<longrightarrow> rank b < rank a)"

context session_storage
begin

lemma stored_after:
  assumes "relies" and "storage_save st = save" and "saved_in st s w"
  shows "load (sess_id s) w = (Inr (Some s), w)"
  using assms load_saved by (auto simp: saved_in_def)

lemma step_stored:
  assumes "relies" and st: "storage_save (runner_storage rn) = save" "storage_get (runner_storage rn) = load"
    and run: "run rn sid w = (Inr res, w')"
  obtains s s' where "load sid w = (Inr (Some s), w)" "has_task (runner_graph rn) (sess_task_id s)"
    "load (sess_id s) w' = (Inr (Some s'), w')" "step_outcome (runner_graph rn) s s' res"
proof -
  obtain s t w1 s' where got: "load sid w = (Inr (Some s), w1)"
    and t: "get_task (runner_graph rn) (sess_task_id s) = Some t"
    and saved: "saved_in (runner_storage rn) s' w'" and out: "step_outcome (runner_graph rn) s s' res"
    using run_saves [OF run] st by auto
  have "load (sess_id s') w' = (Inr (Some s'), w')" by (rule stored_after [OF assms(1) st(1) saved])
  then have "load (sess_id s) w' = (Inr (Some s'), w')" using out by (simp add: step_outcome_def)
  then show thesis using that got load_unchanged [OF got] t out by (simp add: has_task_iff)
qed

lemma loop_returns:
  assumes "relies" and st: "storage_save (runner_storage rn) = save" "storage_get (runner_storage rn) = load"
    and down: "descends (runner_graph rn) rank"
    and "load sid w = (Inr (Some s), w)" and "sess_id s = sid"
  shows "\<exists>r. run_while_paused rn sid res w = Some r"
  using assms(5,6)
proof (induction "rank (sess_task_id s)" arbitrary: s w res rule: less_induct)
  case less
  show ?case
  proof (cases "er_status res")
    case (Paused m)
    show ?thesis
    proof (cases "run rn sid w")
      case (Pair r w')
      show ?thesis
      proof (cases r)
        case (Inl e)
        then show ?thesis using Paused Pair by (subst run_while_paused.simps) simp
      next
        case (Inr res')
        obtain s0 s' where s0: "load sid w = (Inr (Some s0), w)"
          and got: "load (sess_id s0) w' = (Inr (Some s'), w')" and out: "step_outcome (runner_graph rn) s0 s' res'"
          using step_stored [OF assms(1) st] Pair Inr by metis
        have "s0 = s" using s0 less.prems by simp
        then have got': "load sid w' = (Inr (Some s'), w')" and id': "sess_id s' = sid"
          using got out less.prems by (simp_all add: step_outcome_def)
        show ?thesis
        proof (cases "\<exists>m'. er_status res' = Paused m'")
          case True
          then have "moves (runner_graph rn) (sess_task_id s) (sess_task_id s')"
            using out \<open>s0 = s\<close> by (auto simp: step_outcome_def)
          then have "rank (sess_task_id s') < rank (sess_task_id s)" using down by (simp add: descends_def)
          then have "\<exists>r. run_while_paused rn sid res' w' = Some r" using less.hyps got' id' by blast
          then show ?thesis using Paused Pair Inr by (subst run_while_paused.simps) simp
        next
          case False
          then have "run_while_paused rn sid res' w' = Some (Inr res', w')"
            by (subst run_while_paused.simps) (simp split: execution_status.splits)
          then show ?thesis using Paused Pair Inr by (subst run_while_paused.simps) simp
        qed
      qed
    qed
  qed (subst run_while_paused.simps, simp)+
qed

lemma opened_stored:
  assumes "relies" and "storage_save (runner_storage (engine_runner e)) = save"
    and "open_session e goal values w = (Inr sid, w')"
  shows "\<exists>s. load sid w' = (Inr (Some s), w') \<and> sess_id s = sid \<and> sess_task_id s = goal"
proof -
  define fresh where "fresh = (\<lambda>ctx. \<lparr>sess_id = sid, sess_graph_id = graph_id (runner_graph (engine_runner e)), sess_task_id = goal,
                     sess_status_message = None, sess_context = ctx\<rparr>)"
  obtain w1 ctx where "save (fresh ctx) w1 = (Inr (), w')"
    using assms(2,3) unfolding open_session_def in_context_def Let_def fresh_def
    by (auto simp: io_simps save_session_Inr split: prod.splits)
  then have "load sid w' = (Inr (Some (fresh ctx)), w')"
    using load_saved [OF assms(1)] by (fastforce simp: fresh_def)
  then show ?thesis by (auto simp: fresh_def)
qed

lemma workflow_returns:
  assumes "relies" and "storage_save (runner_storage (engine_runner e)) = save"
    and "storage_get (runner_storage (engine_runner e)) = load" and "descends (runner_graph (engine_runner e)) rank"
  shows "\<exists>r. run_workflow_from e goal values w = Some r"
proof (cases "open_session e goal values w")
  case (Pair r w')
  show ?thesis
  proof (cases r)
    case (Inl err)
    then show ?thesis using Pair by (simp add: run_workflow_from_def)
  next
    case sid: (Inr sid)
    obtain s where s: "load sid w' = (Inr (Some s), w')" "sess_id s = sid"
      using opened_stored [OF assms(1,2)] Pair sid by blast
    show ?thesis
    proof (cases "run (engine_runner e) sid w'")
      case run: (Pair r' w'')
      show ?thesis
      proof (cases r')
        case (Inl err)
        then show ?thesis using Pair sid run by (simp add: run_workflow_from_def)
      next
        case (Inr res)
        obtain s0 s' where "load sid w' = (Inr (Some s0), w')" "load (sess_id s0) w'' = (Inr (Some s'), w'')"
          "step_outcome (runner_graph (engine_runner e)) s0 s' res"
          using step_stored [OF assms(1-3)] run Inr by metis
        then have "load sid w'' = (Inr (Some s'), w'')" "sess_id s' = sid"
          using s by (simp_all add: step_outcome_def)
        then show ?thesis
          using loop_returns [OF assms] Pair sid run Inr by (simp add: run_workflow_from_def)
      qed
    qed
  qed
qed

end

section \<open>The calls around a task\<close>

text \<open>
  A runner that also keeps the list of what it called. The tasks, hooks and storage do what they did; only the list is
  added to.
\<close>

datatype hook_call =
    Before string
  | Entered string
  | Ran string
  | Exited string
  | Errored string
  | After string
  | Elicited string

definition lifted :: "('w, 'a) flow \<Rightarrow> ('w \<times> hook_call list, 'a) flow" where
  "lifted m = (\<lambda>((w, log), ctx). case m (w, ctx) of (r, (w', ctx')) \<Rightarrow> (r, ((w', log), ctx')))"

definition noting :: "hook_call \<Rightarrow> ('w, 'a) flow \<Rightarrow> ('w \<times> hook_call list, 'a) flow" where
  "noting c m = (\<lambda>((w, log), ctx). lifted m ((w, log @ [c]), ctx))"

definition noting_effect ::
    "hook_call \<Rightarrow> ('w \<times> flow_context \<Rightarrow> 'w \<times> flow_context) \<Rightarrow>
     ('w \<times> hook_call list) \<times> flow_context \<Rightarrow> ('w \<times> hook_call list) \<times> flow_context" where
  "noting_effect c f = (\<lambda>((w, log), ctx). case f (w, ctx) of (w', ctx') \<Rightarrow> ((w', log @ [c]), ctx'))"

definition noting_hooks :: "'w hooks \<Rightarrow> ('w \<times> hook_call list) hooks" where
  "noting_hooks h =
     \<lparr>on_enter_task = (\<lambda>tid. noting_effect (Entered tid) (on_enter_task h tid)),
      on_exit_task = (\<lambda>tid. noting_effect (Exited tid) (on_exit_task h tid)),
      before_task = (\<lambda>tid. noting (Before tid) (before_task h tid)),
      after_task = (\<lambda>tid r. noting (After tid) (after_task h tid r)),
      elicitation_after_task = (\<lambda>tid r ((w, log), ctx).
        case elicitation_after_task h tid r (w, ctx) of (ev, (w', ctx')) \<Rightarrow> (ev, ((w', log @ [Elicited tid]), ctx'))),
      on_error = (\<lambda>tid e. noting_effect (Errored tid) (on_error h tid e))\<rparr>"

definition noting_task :: "string \<times> 'w task \<Rightarrow> string \<times> ('w \<times> hook_call list) task" where
  "noting_task = (\<lambda>(k, t). (k, \<lparr>task_id = task_id t, task_run = noting (Ran k) (task_run t)\<rparr>))"

definition on_world :: "('w, 'e, 'a) io \<Rightarrow> ('w \<times> 'l, 'e, 'a) io" where
  "on_world m = (\<lambda>(w, log). case m w of (r, w') \<Rightarrow> (r, (w', log)))"

definition noting_runner :: "'w runner \<Rightarrow> ('w \<times> hook_call list) runner" where
  "noting_runner rn =
     \<lparr>runner_graph = \<lparr>graph_id = graph_id (runner_graph rn),
                       graph_tasks = map noting_task (graph_tasks (runner_graph rn)),
                       graph_edges = graph_edges (runner_graph rn),
                       conditional_edges = conditional_edges (runner_graph rn)\<rparr>,
      runner_storage = \<lparr>storage_save = (\<lambda>s. on_world (storage_save (runner_storage rn) s)),
                         storage_get = (\<lambda>sid. on_world (storage_get (runner_storage rn) sid)),
                         storage_delete = (\<lambda>sid. on_world (storage_delete (runner_storage rn) sid))\<rparr>,
      runner_hooks = map_option noting_hooks (runner_hooks rn)\<rparr>"

text \<open>
  \<open>recounts L m' m\<close>: \<open>m'\<close> does what \<open>m\<close> does and adds to the list one of the call sequences \<open>L\<close> allows for the result.
\<close>

definition recounts :: "(string + 'a \<Rightarrow> hook_call list set) \<Rightarrow> ('w \<times> hook_call list, 'a) flow \<Rightarrow> ('w, 'a) flow \<Rightarrow> bool" where
  "recounts L m' m \<longleftrightarrow>
     (\<forall>w log ctx. \<exists>ext r w' ctx'. m (w, ctx) = (r, (w', ctx')) \<and>
        m' ((w, log), ctx) = (r, ((w', log @ ext), ctx')) \<and> ext \<in> L r)"

lemma recountsE:
  assumes "recounts L m' m"
  obtains ext r w' ctx' where "m (w, ctx) = (r, (w', ctx'))" "m' ((w, log), ctx) = (r, ((w', log @ ext), ctx'))" "ext \<in> L r"
  using assms unfolding recounts_def by blast

lemma recounts_pure: "[] \<in> L (Inr a) \<Longrightarrow> recounts L (ret a) (ret a)" "[] \<in> L (Inl e) \<Longrightarrow> recounts L (fail e) (fail e)"
  by (simp_all add: recounts_def ret_def fail_def)

lemma recounts_noting: "(\<And>r. [c] \<in> L r) \<Longrightarrow> recounts L (noting c m) m"
  by (auto simp: recounts_def noting_def lifted_def split: prod.splits)

lemma recounts_effect: "[c] \<in> L (Inr ()) \<Longrightarrow> recounts L (effect (noting_effect c f)) (effect f)"
  by (auto simp: recounts_def effect_def noting_effect_def split: prod.splits)

lemma recounts_and_then:
  assumes m: "recounts L1 m' m" and f: "\<And>a. recounts (L2 a) (f' a) (f a)"
    and stop: "\<And>e. L1 (Inl e) \<subseteq> L (Inl e)"
    and join: "\<And>a r x y. x \<in> L1 (Inr a) \<Longrightarrow> y \<in> L2 a r \<Longrightarrow> x @ y \<in> L r"
  shows "recounts L (and_then m' f') (and_then m f)"
  unfolding recounts_def
proof (intro allI)
  fix w log ctx
  obtain x r w1 c1 where 1: "m (w, ctx) = (r, (w1, c1))" "m' ((w, log), ctx) = (r, ((w1, log @ x), c1))" "x \<in> L1 r"
    using m by (rule recountsE)
  show "\<exists>ext r w' ctx'. and_then m f (w, ctx) = (r, (w', ctx')) \<and>
          and_then m' f' ((w, log), ctx) = (r, ((w', log @ ext), ctx')) \<and> ext \<in> L r"
  proof (cases r)
    case (Inl e)
    then show ?thesis using 1 stop [of e] by (auto simp: and_then_def)
  next
    case (Inr a)
    obtain y r' w2 c2 where 2: "f a (w1, c1) = (r', (w2, c2))" "f' a ((w1, log @ x), c1) = (r', ((w2, (log @ x) @ y), c2))"
        "y \<in> L2 a r'"
      using f [of a] by (rule recountsE)
    have "x @ y \<in> L r'" using join 1 2 Inr by blast
    then show ?thesis using 1 2 Inr by (intro exI [of _ "x @ y"]) (simp add: and_then_def)
  qed
qed

definition closing_calls :: "string \<Rightarrow> string + execution_result \<Rightarrow> hook_call list set" where
  "closing_calls tid r =
     (case r of
        Inl e \<Rightarrow> {[], [After tid], [After tid, Elicited tid]}
      | Inr res \<Rightarrow>
          (case er_status res of
             WaitingForInput m \<Rightarrow> {[]}
           | Completed \<Rightarrow> {[After tid]}
           | _ \<Rightarrow> {[After tid, Elicited tid]}))"

definition step_calls :: "string \<Rightarrow> string + execution_result \<Rightarrow> hook_call list set" where
  "step_calls tid r =
     (\<lambda>x. [Before tid, Entered tid, Ran tid, Exited tid] @ x) ` closing_calls tid r \<union>
     (case r of Inl e \<Rightarrow> {[Before tid], [Before tid, Entered tid, Ran tid, Exited tid, Errored tid]} | Inr res \<Rightarrow> {})"

lemma recounts_save: "(\<And>r. [] \<in> L r) \<Longrightarrow>
    recounts L (save_session (runner_storage (noting_runner rn)) s) (save_session (runner_storage rn) s)"
  by (auto simp: recounts_def save_session_def noting_runner_def on_world_def split: prod.splits)

lemma recounts_stay:
  assumes "\<And>e. [] \<in> L (Inl e)" and "[] \<in> L (Inr \<lparr>er_status = status, er_session_id = sid, er_current_task_id = current\<rparr>)"
  shows "recounts L (stay (noting_runner rn) sid sess r status current) (stay rn sid sess r status current)"
  unfolding stay_def
  by (rule recounts_and_then [where ?L1.0 = "\<lambda>_. {[]}" and ?L2.0 = "\<lambda>_ r. if r = Inr \<lparr>er_status = status, er_session_id = sid, er_current_task_id = current\<rparr> then {[]} else {}"])
    (use assms in \<open>auto intro: recounts_save recounts_pure split: if_splits\<close>)

lemma recounts_leave:
  assumes "runner_hooks rn = Some h" and "\<And>x. [After tid] \<in> L x"
  shows "recounts L (leave_task (runner_hooks (noting_runner rn)) tid r) (leave_task (runner_hooks rn) tid r)"
  using assms by (simp add: leave_task_def noting_runner_def noting_hooks_def recounts_noting)

lemma recounts_elicit:
  assumes "runner_hooks rn = Some h" and "\<And>x. [Elicited tid] \<in> L x"
  shows "recounts L (ask_elicitation (runner_hooks (noting_runner rn)) tid r) (ask_elicitation (runner_hooks rn) tid r)"
  using assms by (auto simp: recounts_def ask_elicitation_def noting_runner_def noting_hooks_def split: prod.splits)

lemma recounts_advance:
  assumes h: "runner_hooks rn = Some h"
  shows "recounts (closing_calls (sess_task_id sess)) (advance (noting_runner rn) sid sess r nxt) (advance rn sid sess r nxt)"
  unfolding advance_def
proof (rule recounts_and_then [where ?L1.0 = "\<lambda>_. {[After (sess_task_id sess)]}"
      and ?L2.0 = "\<lambda>_ x. case x of Inl e \<Rightarrow> {[Elicited (sess_task_id sess)]} | Inr res \<Rightarrow>
        (if (\<exists>m. er_status res = Paused m) \<or> (\<exists>ev. er_status res = ElicitationNeeded ev)
         then {[Elicited (sess_task_id sess)]} else {})"])
  show "recounts (\<lambda>_. {[After (sess_task_id sess)]}) (leave_task (runner_hooks (noting_runner rn)) (sess_task_id sess) r)
          (leave_task (runner_hooks rn) (sess_task_id sess) r)"
    using h by (rule recounts_leave) simp
next
  fix a :: unit
  let ?res = "\<lambda>ev. \<lparr>er_status = (case ev of Some event \<Rightarrow> ElicitationNeeded event | None \<Rightarrow> Paused (Some ''Step complete'')),
                    er_session_id = sid, er_current_task_id = Some nxt\<rparr>"
  show "recounts (\<lambda>x. case x of Inl e \<Rightarrow> {[Elicited (sess_task_id sess)]} | Inr res \<Rightarrow>
        (if (\<exists>m. er_status res = Paused m) \<or> (\<exists>ev. er_status res = ElicitationNeeded ev)
         then {[Elicited (sess_task_id sess)]} else {}))
     (and_then (ask_elicitation (runner_hooks (noting_runner rn)) (sess_task_id sess) r)
       (\<lambda>ev. and_then (save_session (runner_storage (noting_runner rn))
            (sess\<lparr>sess_task_id := nxt, sess_status_message := tr_status_message r\<rparr>)) (\<lambda>_. ret (?res ev))))
     (and_then (ask_elicitation (runner_hooks rn) (sess_task_id sess) r)
       (\<lambda>ev. and_then (save_session (runner_storage rn)
            (sess\<lparr>sess_task_id := nxt, sess_status_message := tr_status_message r\<rparr>)) (\<lambda>_. ret (?res ev))))"
  proof (rule recounts_and_then [where ?L1.0 = "\<lambda>_. {[Elicited (sess_task_id sess)]}"
        and ?L2.0 = "\<lambda>ev x. if x = Inr (?res ev) \<or> (\<exists>e. x = Inl e) then {[]} else {}"])
    show "recounts (\<lambda>_. {[Elicited (sess_task_id sess)]}) (ask_elicitation (runner_hooks (noting_runner rn)) (sess_task_id sess) r)
            (ask_elicitation (runner_hooks rn) (sess_task_id sess) r)"
      using h by (rule recounts_elicit) simp
  next
    fix ev
    show "recounts (\<lambda>x. if x = Inr (?res ev) \<or> (\<exists>e. x = Inl e) then {[]} else {})
        (and_then (save_session (runner_storage (noting_runner rn))
            (sess\<lparr>sess_task_id := nxt, sess_status_message := tr_status_message r\<rparr>)) (\<lambda>_. ret (?res ev)))
        (and_then (save_session (runner_storage rn)
            (sess\<lparr>sess_task_id := nxt, sess_status_message := tr_status_message r\<rparr>)) (\<lambda>_. ret (?res ev)))"
      by (rule recounts_and_then [where ?L1.0 = "\<lambda>_. {[]}" and ?L2.0 = "\<lambda>_ x. if x = Inr (?res ev) then {[]} else {}"])
        (auto intro: recounts_save recounts_pure split: if_splits)
  qed (auto split: if_splits option.splits)
qed (auto simp: closing_calls_def split: sum.splits if_splits execution_status.splits)

lemma noting_graph:
  "has_task (runner_graph (noting_runner rn)) = has_task (runner_graph rn)"
  "graph_edges (runner_graph (noting_runner rn)) = graph_edges (runner_graph rn)"
  "conditional_edges (runner_graph (noting_runner rn)) = conditional_edges (runner_graph rn)"
  by (force simp: has_task_def noting_task_def noting_runner_def)+

lemma noting_next_task_id [simp]: "next_task_id (runner_graph (noting_runner rn)) = next_task_id (runner_graph rn)"
  unfolding next_task_id_def [abs_def] noting_graph by (rule refl)

lemma noting_get_task:
  "get_task (runner_graph (noting_runner rn)) tid =
     map_option (\<lambda>t. \<lparr>task_id = task_id t, task_run = noting (Ran tid) (task_run t)\<rparr>) (get_task (runner_graph rn) tid)"
proof -
  have "map_of (map noting_task ts) tid =
          map_option (\<lambda>t. \<lparr>task_id = task_id t, task_run = noting (Ran tid) (task_run t)\<rparr>) (map_of ts tid)" for ts
    by (induction ts) (auto simp: noting_task_def)
  then show ?thesis by (simp add: get_task_def noting_runner_def)
qed

lemma recounts_finish:
  assumes h: "runner_hooks rn = Some h"
  shows "recounts (closing_calls (sess_task_id sess)) (finish_step (noting_runner rn) sid sess r) (finish_step rn sid sess r)"
proof -
  let ?C = "closing_calls (sess_task_id sess)"
  have wait: "recounts ?C (stay (noting_runner rn) sid sess r (WaitingForInput m) c) (stay rn sid sess r (WaitingForInput m) c)" for m c
    by (rule recounts_stay) (simp_all add: closing_calls_def)
  have follow: "recounts ?C
      (\<lambda>(w, ctx). case next_task_id (runner_graph rn) (sess_task_id sess) ctx of
          Some nxt \<Rightarrow> advance (noting_runner rn) sid sess r nxt (w, ctx)
        | None \<Rightarrow> stay (noting_runner rn) sid sess r (WaitingForInput m) c (w, ctx))
      (\<lambda>(w, ctx). case next_task_id (runner_graph rn) (sess_task_id sess) ctx of
          Some nxt \<Rightarrow> advance rn sid sess r nxt (w, ctx)
        | None \<Rightarrow> stay rn sid sess r (WaitingForInput m) c (w, ctx))" for m c
    using wait [of m c] recounts_advance [OF h, of sess sid r]
    unfolding recounts_def by (auto split: option.splits)
  have finish: "recounts ?C
      (and_then (leave_task (runner_hooks (noting_runner rn)) (sess_task_id sess) r) (\<lambda>_. stay (noting_runner rn) sid sess r Completed None))
      (and_then (leave_task (runner_hooks rn) (sess_task_id sess) r) (\<lambda>_. stay rn sid sess r Completed None))"
  proof (rule recounts_and_then [where ?L1.0 = "\<lambda>_. {[After (sess_task_id sess)]}"
        and ?L2.0 = "\<lambda>_ x. if x = Inr \<lparr>er_status = Completed, er_session_id = sid, er_current_task_id = None\<rparr> \<or> (\<exists>e. x = Inl e) then {[]} else {}"])
    show "recounts (\<lambda>_. {[After (sess_task_id sess)]}) (leave_task (runner_hooks (noting_runner rn)) (sess_task_id sess) r)
            (leave_task (runner_hooks rn) (sess_task_id sess) r)"
      using h by (rule recounts_leave) simp
  qed (auto intro: recounts_stay simp: closing_calls_def split: if_splits)
  show ?thesis
    unfolding finish_step_def Let_def noting_next_task_id
    using wait follow finish recounts_advance [OF h]
    by (auto split: next_action.splits intro!: recounts_pure(2) simp: closing_calls_def)
qed

lemma recounts_step:
  assumes h: "runner_hooks rn = Some h"
  shows "recounts (step_calls (sess_task_id sess))
           (step_task (noting_runner rn) sid sess \<lparr>task_id = task_id t, task_run = noting (Ran (sess_task_id sess)) (task_run t)\<rparr>)
           (step_task rn sid sess t)"
proof -
  let ?t = "sess_task_id sess"
  have enter: "recounts (\<lambda>x. case x of Inl e \<Rightarrow> {[Before ?t]} | Inr u \<Rightarrow> {[Before ?t, Entered ?t]})
      (enter_task (runner_hooks (noting_runner rn)) ?t) (enter_task (runner_hooks rn) ?t)"
    unfolding enter_task_def using h
    by (auto simp: noting_runner_def noting_hooks_def
        intro!: recounts_and_then [where ?L1.0 = "\<lambda>_. {[Before ?t]}" and ?L2.0 = "\<lambda>_ x. case x of Inl e \<Rightarrow> {} | Inr u \<Rightarrow> {[Entered ?t]}"]
          recounts_noting recounts_effect split: sum.splits)
  have ran: "recounts (\<lambda>x. case x of Inl e \<Rightarrow> {[Ran ?t, Exited ?t, Errored ?t]} | Inr u \<Rightarrow> {[Ran ?t, Exited ?t]})
      (run_task (runner_hooks (noting_runner rn)) ?t \<lparr>task_id = task_id t, task_run = noting (Ran ?t) (task_run t)\<rparr>)
      (run_task (runner_hooks rn) ?t t)"
    unfolding recounts_def run_task_def using h
    by (auto simp: noting_runner_def noting_hooks_def noting_def lifted_def noting_effect_def split: prod.splits sum.splits)
  have rest: "recounts (\<lambda>x. (\<lambda>y. [Ran ?t, Exited ?t] @ y) ` closing_calls ?t x \<union>
                 (case x of Inl e \<Rightarrow> {[Ran ?t, Exited ?t, Errored ?t]} | Inr u \<Rightarrow> {}))
      (and_then (run_task (runner_hooks (noting_runner rn)) ?t \<lparr>task_id = task_id t, task_run = noting (Ran ?t) (task_run t)\<rparr>)
         (finish_step (noting_runner rn) sid sess))
      (and_then (run_task (runner_hooks rn) ?t t) (finish_step rn sid sess))"
    by (rule recounts_and_then [OF ran recounts_finish [OF h]]) auto
  show ?thesis
    unfolding step_task_def
    by (rule recounts_and_then [OF enter rest]) (auto simp: step_calls_def split: sum.splits)
qed


section \<open>Sessions keep to their graph\<close>

text \<open>Every edge and every jump leads to a task.\<close>

definition closed_flow :: "'w flow_graph \<Rightarrow> bool" where
  "closed_flow g \<longleftrightarrow> (\<forall>a b. moves g a b \<longrightarrow> has_task g b)"

lemma closed_flowI:
  assumes "\<And>a b. b \<in> edge_targets g a \<Longrightarrow> has_task g b"
    and "\<And>k t tid. (k, t) \<in> set (graph_tasks g) \<Longrightarrow> jumps_to t tid \<Longrightarrow> has_task g tid"
  shows "closed_flow g"
  using assms unfolding closed_flow_def moves_def get_task_def by (blast dest: map_of_SomeD)

text \<open>
  C33. On a graph whose edges and jumps lead to tasks, a step that succeeds leaves in the store a session of the same id at a task
  of the graph, the one its answer names: it moved along an edge or a jump if the answer says so, and stayed where it was
  otherwise. No answer carries an error, and the step after it finds its task.
\<close>

theorem step_keeps_session_on_graph:
  assumes "disk_ok d" and "runner_storage rn = file_session_storage d base" and "closed_flow (runner_graph rn)"
    and "run rn sid w = (Inr res, w')"
  shows "\<exists>s s'. file_get d base sid w = (Inr (Some s), w) \<and> file_get d base (sess_id s) w' = (Inr (Some s'), w') \<and>
           step_outcome (runner_graph rn) s s' res \<and> has_task (runner_graph rn) (sess_task_id s) \<and>
           has_task (runner_graph rn) (sess_task_id s')"
proof -
  obtain s s' where s: "file_get d base sid w = (Inr (Some s), w)" "has_task (runner_graph rn) (sess_task_id s)"
    and s': "file_get d base (sess_id s) w' = (Inr (Some s'), w')" and out: "step_outcome (runner_graph rn) s s' res"
    using file_storage.step_stored [OF assms(1) _ _ assms(4), of base] assms(2) by auto
  have "has_task (runner_graph rn) (sess_task_id s')"
    using out s(2) assms(3) by (auto simp: step_outcome_def closed_flow_def split: execution_status.splits)
  then show ?thesis using s s' out by blast
qed

section \<open>Examples\<close>

definition quiet_hooks :: "'w hooks" where
  "quiet_hooks =
     \<lparr>on_enter_task = (\<lambda>_ s. s), on_exit_task = (\<lambda>_ s. s), before_task = (\<lambda>_. ret ()), after_task = (\<lambda>_ _. ret ()),
      elicitation_after_task = (\<lambda>_ _ s. (None, s)), on_error = (\<lambda>_ _ s. s)\<rparr>"

definition echo_then_end :: "(string \<rightharpoonup> session) flow_graph" where
  "echo_then_end = add_edge ''a'' ''end'' (add_task (end_task ''end'') (add_task (echo_task ''a'') (new_graph ''g'')))"

definition memory_runner :: "(string \<rightharpoonup> session) flow_graph \<Rightarrow> (string \<rightharpoonup> session) runner" where
  "memory_runner g = \<lparr>runner_graph = g, runner_storage = file_session_storage memory_disk ''d'', runner_hooks = Some quiet_hooks\<rparr>"

lemma memory_runner_graph: "runner_graph (memory_runner g) = g"
  by (simp add: memory_runner_def)

definition at_task :: "string \<Rightarrow> string \<rightharpoonup> session" where
  "at_task tid = [session_file ''d'' ''s'' \<mapsto> new_from_task ''s'' ''g'' tid]"

lemma task_id_of [simp]: "task_id (echo_task k) = k" "task_id (end_task k) = k"
  by (simp_all add: echo_task_def end_task_def)

lemma no_jumps [simp]: "\<not> jumps_to (echo_task k) tid" "\<not> jumps_to (end_task k) tid"
  by (auto simp: jumps_to_def echo_task_def end_task_def ret_def Let_def split: prod.splits)

lemma echo_then_end_closed: "closed_flow echo_then_end"
  by (rule closed_flowI) (auto simp: echo_then_end_def builder_defs edge_targets_def has_task_def)

lemma run_found:
  assumes "storage_get (runner_storage rn) sid w = (Inr (Some sess), w)"
    and "get_task (runner_graph rn) (sess_task_id sess) = Some t"
  shows "run rn sid w = in_context (engine_context sess) (step_task rn sid sess t) w"
  using assms by (simp add: run_def and_then_def)

lemma memory_get: "file_get memory_disk ''d'' ''s'' (at_task tid) = (Inr (Some (new_from_task ''s'' ''g'' tid)), at_task tid)"
  by (simp add: file_get_def memory_disk_def at_task_def ok_or_def)

lemma session_dir: "path_parent (session_file ''d'' ''s'') = Some ''d''"
  by code_simp

lemma memory_save: "sess_id s = ''s'' \<Longrightarrow> file_save memory_disk ''d'' s w = (Inr (), w(session_file ''d'' ''s'' \<mapsto> s))"
  by (simp add: file_save_def memory_disk_def session_dir and_then_def ret_def of_result_def)

lemma echo_run:
  assumes t: "get_task g ''a'' = Some (echo_task ''a'')" and nxt: "\<And>ctx. next_task_id g ''a'' ctx = Some n"
  shows "run (memory_runner g) ''s'' (at_task ''a'') =
     (Inr \<lparr>er_status = Paused (Some ''Step complete''), er_session_id = ''s'', er_current_task_id = Some n\<rparr>,
      (at_task ''a'')(session_file ''d'' ''s'' \<mapsto>
         \<lparr>sess_id = ''s'', sess_graph_id = ''g'', sess_task_id = n, sess_status_message = Some ''no input'',
          sess_context = engine_context (new_from_task ''s'' ''g'' ''a'')\<rparr>))"
proof -
  have no_input: "get_sync from_string (engine_context (new_from_task ''s'' ''g'' ''a'')) ''input'' = None"
    by (simp add: engine_context_def new_from_task_def new_context_def get_sync_def set_sync_def)
  have ran: "task_run (echo_task ''a'') (w, engine_context (new_from_task ''s'' ''g'' ''a'')) =
      (Inr \<lparr>tr_response = ''no input'', tr_next_action = Continue, tr_task_id = ''a'', tr_status_message = Some ''no input''\<rparr>,
       (w, engine_context (new_from_task ''s'' ''g'' ''a'')))" for w :: "string \<rightharpoonup> session"
    by (simp add: echo_task_def no_input ret_def Let_def)
  show ?thesis
    by (subst run_found [where sess = "new_from_task ''s'' ''g'' ''a''" and t = "echo_task ''a''"])
      (simp_all add: memory_runner_def memory_get t new_from_task_def in_context_def step_task_def and_then_def enter_task_def
        quiet_hooks_def effect_def ret_def run_task_def ran [unfolded new_from_task_def] finish_step_def nxt advance_def
        leave_task_def ask_elicitation_def save_session_def memory_save)
qed

lemma echo_then_end_steps:
  "get_task echo_then_end ''a'' = Some (echo_task ''a'')" "next_task_id echo_then_end ''a'' ctx = Some ''end''"
  by (simp_all add: get_task_def next_task_id_def echo_then_end_def builder_defs)

theorem step_keeps_session_on_graph_witness:
  "\<exists>res w' s'. run (memory_runner echo_then_end) ''s'' (at_task ''a'') = (Inr res, w') \<and>
     file_get memory_disk ''d'' ''s'' w' = (Inr (Some s'), w') \<and>
     er_current_task_id res = Some (sess_task_id s') \<and> has_task echo_then_end (sess_task_id s')"
proof -
  note ran = echo_run [OF echo_then_end_steps]
  have "disk_ok memory_disk" "closed_flow (runner_graph (memory_runner echo_then_end))"
    "runner_storage (memory_runner echo_then_end) = file_session_storage memory_disk ''d''"
    by (simp_all add: memory_disk_ok echo_then_end_closed memory_runner_def)
  from step_keeps_session_on_graph [OF this(1,3,2) ran] obtain s s' where
    s: "file_get memory_disk ''d'' ''s'' (at_task ''a'') = (Inr (Some s), at_task ''a'')" and
    s': "file_get memory_disk ''d'' (sess_id s) (snd (run (memory_runner echo_then_end) ''s'' (at_task ''a''))) =
           (Inr (Some s'), snd (run (memory_runner echo_then_end) ''s'' (at_task ''a'')))"
      "step_outcome echo_then_end s s' (projr (fst (run (memory_runner echo_then_end) ''s'' (at_task ''a''))))"
      "has_task echo_then_end (sess_task_id s')"
    unfolding ran fst_conv snd_conv sum.sel memory_runner_graph by blast
  have "sess_id s = ''s''" using s by (auto simp: memory_get new_from_task_def)
  then show ?thesis using s' unfolding ran by (fastforce simp: step_outcome_def)
qed


text \<open>
  An edge added with \<open>add_edge\<close> is followed whether or not its target is a task, while \<open>successors\<close> leaves such a target
  out: the session is saved at a task that does not exist, and no later step finds it.
\<close>

definition dangling_graph :: "(string \<rightharpoonup> session) flow_graph" where
  "dangling_graph = add_edge ''a'' ''b'' (add_task (echo_task ''a'') (new_graph ''g''))"

theorem dangling_edge_strands_session:
  "successors dangling_graph ''a'' = [] \<and>
   (\<exists>res w'. run (memory_runner dangling_graph) ''s'' (at_task ''a'') = (Inr res, w') \<and>
      er_current_task_id res = Some ''b'' \<and> run (memory_runner dangling_graph) ''s'' w' = (Inl ''Task not found'', w'))"
proof -
  have steps: "get_task dangling_graph ''a'' = Some (echo_task ''a'')" "next_task_id dangling_graph ''a'' ctx = Some ''b''" for ctx
    by (simp_all add: get_task_def next_task_id_def dangling_graph_def builder_defs)
  have "get_task dangling_graph ''b'' = None" by (simp add: get_task_def dangling_graph_def builder_defs)
  then show ?thesis
    unfolding echo_run [OF steps]
    by (simp add: successors_def push_successor_def has_task_def dangling_graph_def builder_defs)
      (simp add: run_def memory_runner_def and_then_def file_get_def memory_disk_def at_task_def ok_or_def fail_def)
qed

end
