(* ===== verification/Invoke_Task.thy ===== *)
theory Invoke_Task
  imports Invoke_Cache Flow_Engine Errors
begin

text \<open>
  The task that asks a coding agent to reach a goal (\<open>tddy-workflow-engine\<close>, \<open>workflow/backend_invoke_task.rs\<close>), with the
  channel through which an agent submits its result (\<open>tddy-toolcall\<close>), the request and the answer of a backend
  (\<open>tddy-agent-backend\<close>) and the remote environment of a session (\<open>workflow/mod.rs\<close>).

  A backend is a parameter: while it runs an agent may submit, change files and anything outside, which is the state
  \<open>site\<close>. The state of a task adds the list of requests made so far and the context. The sinks of a request
  only show output and are left out; questions are kept as the JSON they are stored as.
\<close>

section \<open>Requests and answers\<close>

datatype session_mode = Fresh string | Resume string

datatype permission_hint = ReadOnly | AcceptEdits

record goal_hints =
  display_name :: string
  permission :: permission_hint
  allowed_tools :: "string list"
  default_model :: "string option"
  hint_agent_output :: bool
  agent_cli_plan_mode :: bool
  claude_nonzero_exit_ok_if_structured_response :: bool

record remote_tool_env =
  daemon_url :: string
  daemon_socket :: "string option"
  remote_session_id :: string
  session_token :: string
  daemon_instance_id :: "string option"
  livekit_url :: "string option"
  livekit_room :: "string option"
  server_identity :: "string option"
  livekit_token :: "string option"

definition extract_remote_env_from_ctx :: "(string \<rightharpoonup> string) \<Rightarrow> remote_tool_env option" where
  "extract_remote_env_from_ctx m =
     Option.bind (m ''remote_daemon_url'') (\<lambda>url.
     Option.bind (m ''remote_session_id'') (\<lambda>sid.
     Option.bind (m ''remote_session_token'') (\<lambda>tok.
       Some \<lparr>daemon_url = url, daemon_socket = m ''remote_daemon_socket'', remote_session_id = sid, session_token = tok,
             daemon_instance_id = m ''remote_daemon_instance_id'', livekit_url = m ''remote_livekit_url'',
             livekit_room = m ''remote_livekit_room'', server_identity = m ''remote_server_identity'',
             livekit_token = m ''remote_livekit_token''\<rparr>)))"

definition opt_pair :: "string \<Rightarrow> string option \<Rightarrow> (string \<times> string) list" where
  "opt_pair k v = (case v of Some s \<Rightarrow> [(k, s)] | None \<Rightarrow> [])"

definition env_pairs :: "remote_tool_env \<Rightarrow> (string \<times> string) list" where
  "env_pairs e =
     [(''TDDY_REMOTE_DAEMON_URL'', daemon_url e), (''TDDY_REMOTE_SESSION_ID'', remote_session_id e),
      (''TDDY_REMOTE_SESSION_TOKEN'', session_token e)] @
     opt_pair ''TDDY_REMOTE_DAEMON_SOCKET'' (daemon_socket e) @
     opt_pair ''TDDY_REMOTE_DAEMON_INSTANCE_ID'' (daemon_instance_id e) @
     opt_pair ''TDDY_REMOTE_LIVEKIT_URL'' (livekit_url e) @
     opt_pair ''TDDY_REMOTE_LIVEKIT_ROOM'' (livekit_room e) @
     opt_pair ''TDDY_REMOTE_SERVER_IDENTITY'' (server_identity e) @
     opt_pair ''TDDY_REMOTE_LIVEKIT_TOKEN'' (livekit_token e)"

record invoke_request =
  req_prompt :: string
  req_system_prompt :: "string option"
  req_goal_id :: string
  req_submit_key :: string
  req_hints :: goal_hints
  req_model :: "string option"
  req_session :: "session_mode option"
  req_working_dir :: "string option"
  req_debug :: bool
  req_agent_output :: bool
  req_conversation_output_path :: "string option"
  req_inherit_stdin :: bool
  req_extra_allowed_tools :: "string list option"
  req_socket_path :: "string option"
  req_session_dir :: "string option"
  req_remote :: "remote_tool_env option"

record invoke_response =
  resp_output :: string
  resp_session_id :: "string option"
  resp_questions :: "json list"

section \<open>Submissions\<close>

type_synonym slot = "(string \<times> string) option"

definition store_submit :: "string \<Rightarrow> string \<Rightarrow> slot \<Rightarrow> slot" where
  "store_submit goal json_str s = Some (goal, json_str)"

definition take_for_goal :: "string \<Rightarrow> slot \<Rightarrow> string option \<times> slot" where
  "take_for_goal goal s =
     (case s of
        Some (g, json_str) \<Rightarrow> if g = goal then (Some json_str, None) else (None, Some (g, json_str))
      | None \<Rightarrow> (None, None))"

record 'v site =
  site_tree :: file_tree
  site_channel :: slot
  site_global :: slot
  site_outside :: 'v

record 'v backend =
  backend_name :: string
  backend_invoke :: "invoke_request \<Rightarrow> ('v site, backend_error, invoke_response) io"
  has_submit_channel :: bool
  action_invoke_cache_eligible :: bool

text \<open>The channel of the backend first, then the slot of the process.\<close>

definition take_submit :: "'v backend \<Rightarrow> string \<Rightarrow> 'v site \<Rightarrow> string option \<times> 'v site" where
  "take_submit b key s =
     (case (if has_submit_channel b then take_for_goal key (site_channel s) else (None, site_channel s)) of
        (Some out, ch) \<Rightarrow> (Some out, s\<lparr>site_channel := ch\<rparr>)
      | (None, ch) \<Rightarrow>
          (case take_for_goal key (site_global s) of
             (out, gl) \<Rightarrow> (out, s\<lparr>site_channel := ch, site_global := gl\<rparr>)))"

definition resolve_effective_session_id :: "string option \<Rightarrow> string option \<Rightarrow> string option" where
  "resolve_effective_session_id process_id backend_id =
     (case process_id of Some pid \<Rightarrow> if trim pid \<noteq> [] then Some pid else backend_id | None \<Rightarrow> backend_id)"

section \<open>The task\<close>

type_synonym ('v, 'a) turn = "('v site \<times> invoke_request list, 'a) flow"

definition on_tree :: "'a fs_io \<Rightarrow> ('v, 'a) turn" where
  "on_tree m st =
     (case st of ((s, log), ctx) \<Rightarrow> (case m (site_tree s) of (r, t) \<Rightarrow> (r, ((s\<lparr>site_tree := t\<rparr>, log), ctx))))"

definition get_context :: "('v, flow_context) turn" where
  "get_context st = (Inr (snd st), st)"

definition put :: "string \<Rightarrow> json \<Rightarrow> ('v, unit) turn" where
  "put key v st = (case st of (w, ctx) \<Rightarrow> (Inr (), (w, set_sync key v ctx)))"

definition call_backend :: "'v backend \<Rightarrow> invoke_request \<Rightarrow> ('v, invoke_response) turn" where
  "call_backend b req st =
     (case st of ((s, log), ctx) \<Rightarrow>
        (case backend_invoke b req s of (r, s') \<Rightarrow> (map_err show_backend_error r, ((s', log @ [req]), ctx))))"

definition collect_submit :: "'v backend \<Rightarrow> string \<Rightarrow> ('v, string option) turn" where
  "collect_submit b key st =
     (case st of ((s, log), ctx) \<Rightarrow> (case take_submit b key s of (out, s') \<Rightarrow> (Inr out, ((s', log), ctx))))"

text \<open>The surroundings: the clock of names, the environment variable that disables the cache, the two codecs.\<close>

record surroundings =
  host_pid :: nat
  host_uuid :: "file_tree \<Rightarrow> string"
  host_cache_env :: "string option"
  host_codec :: cache_codec
  host_envelope :: "fingerprint_envelope \<Rightarrow> string option"

record 'v invoke_task =
  it_id :: string
  it_goal_id :: string
  it_submit_key :: string
  it_hints :: goal_hints
  it_backend :: "'v backend"
  it_gate :: "flow_context \<Rightarrow> file_tree \<Rightarrow> json list option \<times> file_tree"
  it_requires_submit :: bool

definition max_attempts :: nat where
  "max_attempts = 8"

definition missing_submit_remediation_line :: "string \<Rightarrow> string" where
  "missing_submit_remediation_line submit_key =
     ''Agent finished without calling tddy-tools submit for goal '' @ [CHR 0x27] @ submit_key @ [CHR 0x27] @
     ''. Ensure tddy-tools is on PATH and the agent follows the system prompt.''"

definition remediation_suffix :: "string \<Rightarrow> string" where
  "remediation_suffix key = [CHR 0x0A, CHR 0x0A] @ ''---'' @ [CHR 0x0A] @ missing_submit_remediation_line key @ [CHR 0x0A]"

definition missing_submit_error :: "string \<Rightarrow> string" where
  "missing_submit_error key = show_workflow_error (ParseError (Malformed (missing_submit_remediation_line key)))"

definition flag :: "flow_context \<Rightarrow> string \<Rightarrow> bool \<Rightarrow> bool" where
  "flag ctx key dflt = (case get_sync from_bool ctx key of Some b \<Rightarrow> b | None \<Rightarrow> dflt)"

definition or_else :: "'a option \<Rightarrow> 'a option \<Rightarrow> 'a option" where
  "or_else x y = (case x of Some a \<Rightarrow> Some a | None \<Rightarrow> y)"

definition is_codex :: "'v backend \<Rightarrow> bool" where
  "is_codex b \<longleftrightarrow> backend_name b \<in> {''codex'', ''codex-acp''}"

definition choose_session :: "'v backend \<Rightarrow> flow_context \<Rightarrow> session_mode option" where
  "choose_session b ctx =
     (let is_resume = flag ctx ''is_resume'' True
      in if is_codex b
         then if is_resume
              then (case get_sync from_string ctx ''codex_thread_id'' of
                      Some s \<Rightarrow> if trim s \<noteq> [] then Some (Resume s) else None
                    | None \<Rightarrow> None)
              else map_option Fresh (get_sync from_string ctx ''session_id'')
         else map_option (\<lambda>sid. if is_resume then Resume sid else Fresh sid) (get_sync from_string ctx ''session_id''))"

definition remote_ctx_keys :: "string list" where
  "remote_ctx_keys =
     [''remote_daemon_url'', ''remote_session_id'', ''remote_session_token'', ''remote_daemon_instance_id'',
      ''remote_livekit_url'', ''remote_livekit_room'', ''remote_server_identity'', ''remote_livekit_token'']"

definition remote_map :: "flow_context \<Rightarrow> string \<rightharpoonup> string" where
  "remote_map ctx k = (if k \<in> set remote_ctx_keys then get_sync from_string ctx k else None)"

definition build_request ::
    "'v invoke_task \<Rightarrow> session_mode option \<Rightarrow> string option \<Rightarrow> string option \<Rightarrow> flow_context \<Rightarrow> string \<Rightarrow> invoke_request" where
  "build_request it session session_dir working_dir ctx prompt =
     \<lparr>req_prompt = prompt, req_system_prompt = get_sync from_string ctx ''system_prompt'', req_goal_id = it_goal_id it,
      req_submit_key = it_submit_key it, req_hints = it_hints it, req_model = get_sync from_string ctx ''model'',
      req_session = session, req_working_dir = working_dir, req_debug = flag ctx ''debug'' False,
      req_agent_output = flag ctx ''agent_output'' False,
      req_conversation_output_path = get_sync from_string ctx ''conversation_output_path'',
      req_inherit_stdin = flag ctx ''inherit_stdin'' False,
      req_extra_allowed_tools = get_sync from_strings ctx ''allowed_tools'',
      req_socket_path = get_sync from_string ctx ''socket_path'', req_session_dir = session_dir,
      req_remote = extract_remote_env_from_ctx (remote_map ctx)\<rparr>"

definition step_complete :: "string \<Rightarrow> string \<Rightarrow> task_result" where
  "step_complete tid response =
     \<lparr>tr_response = response, tr_next_action = Continue, tr_task_id = tid, tr_status_message = Some (tid @ '' step complete'')\<rparr>"

definition needs_input :: "string \<Rightarrow> string \<Rightarrow> string \<Rightarrow> task_result" where
  "needs_input tid response msg =
     \<lparr>tr_response = response, tr_next_action = WaitForInput, tr_task_id = tid, tr_status_message = Some msg\<rparr>"

text \<open>Where a submitted output is kept: the directory, the action key and the digest, unless the cache is off.\<close>

definition cache_place :: "surroundings \<Rightarrow> 'v invoke_task \<Rightarrow> string option \<Rightarrow> string \<Rightarrow> string option \<Rightarrow> flow_context \<Rightarrow> (string \<times> string \<times> string) option" where
  "cache_place h it session_dir graph_for_cache fingerprint ctx =
     (case (session_dir, fingerprint) of
        (Some sd, Some digest) \<Rightarrow>
          if \<not> action_cache_disabled (host_cache_env h) ctx \<and> action_invoke_cache_eligible (it_backend it)
          then Some (sd, stable_action_cache_key graph_for_cache (it_id it) (it_goal_id it), digest) else None
      | _ \<Rightarrow> None)"

definition remember_thread :: "surroundings \<Rightarrow> 'v invoke_task \<Rightarrow> string option \<Rightarrow> invoke_response \<Rightarrow> ('v, unit) turn" where
  "remember_thread h it session_dir response =
     (case (is_codex (it_backend it), resp_session_id response) of
        (True, Some tid) \<Rightarrow>
          if trim tid \<noteq> []
          then and_then (put ''codex_thread_id'' (JStr tid))
                 (\<lambda>_. case session_dir of
                        Some sd \<Rightarrow>
                          and_then (attempt (on_tree (\<lambda>t. write_atomic (host_pid h) (host_uuid h t) (path_join sd ''codex_thread_id'') (trim tid) t)))
                            (\<lambda>_. ret ())
                      | None \<Rightarrow> ret ())
          else ret ()
      | _ \<Rightarrow> ret ())"

definition save_submitted ::
    "surroundings \<Rightarrow> 'v invoke_task \<Rightarrow> string option \<Rightarrow> string \<Rightarrow> string option \<Rightarrow> flow_context \<Rightarrow> string \<Rightarrow> ('v, unit) turn" where
  "save_submitted h it session_dir graph_for_cache fingerprint ctx out =
     (case cache_place h it session_dir graph_for_cache fingerprint ctx of
        Some (sd, key, digest) \<Rightarrow>
          and_then (attempt (on_tree (\<lambda>t. persist_successful_submit_to_action_cache (host_codec h) (host_pid h) (host_uuid h t)
                                             sd (it_goal_id it) key digest out t)))
            (\<lambda>_. ret ())
      | None \<Rightarrow> ret ())"

definition finish_submitted ::
    "surroundings \<Rightarrow> 'v invoke_task \<Rightarrow> string option \<Rightarrow> string \<Rightarrow> string option \<Rightarrow> invoke_response \<Rightarrow> string \<Rightarrow> ('v, task_result) turn" where
  "finish_submitted h it session_dir graph_for_cache fingerprint response out =
     and_then (put ''output'' (JStr out))
       (\<lambda>_. and_then get_context
       (\<lambda>ctx. and_then (save_submitted h it session_dir graph_for_cache fingerprint ctx out)
       (\<lambda>_. and_then
          (case resolve_effective_session_id (get_sync from_string ctx ''session_id'') (resp_session_id response) of
             Some eff \<Rightarrow> put ''session_id'' (JStr eff)
           | None \<Rightarrow> ret ())
       (\<lambda>_. ret (step_complete (it_id it) out)))))"

definition finish_unsubmitted :: "'v invoke_task \<Rightarrow> invoke_response \<Rightarrow> ('v, task_result) turn \<Rightarrow> ('v, task_result) turn" where
  "finish_unsubmitted it response again =
     (if resp_questions response \<noteq> []
      then and_then (put ''pending_questions'' (JArr (resp_questions response)))
             (\<lambda>_. ret (needs_input (it_id it) (resp_output response) ''Clarification needed''))
      else if \<not> it_requires_submit it
      then and_then get_context
             (\<lambda>ctx. and_then (on_tree (\<lambda>t. case it_gate it ctx t of (qs, t') \<Rightarrow> (Inr qs, t')))
             (\<lambda>gate. case gate of
                  Some qs \<Rightarrow>
                    and_then (put ''pending_questions'' (JArr qs))
                      (\<lambda>_. ret (needs_input (it_id it) (resp_output response) ''Host clarification needed''))
                | None \<Rightarrow>
                    and_then (put ''output'' (JStr (resp_output response)))
                      (\<lambda>_. ret (step_complete (it_id it) (resp_output response)))))
      else again)"

text \<open>The loop, with the number of attempts left.\<close>

fun invoke_attempts ::
    "surroundings \<Rightarrow> 'v invoke_task \<Rightarrow> session_mode option \<Rightarrow> string option \<Rightarrow> string option \<Rightarrow> string \<Rightarrow> string option \<Rightarrow> nat \<Rightarrow> string \<Rightarrow>
     ('v, task_result) turn" where
  "invoke_attempts h it session session_dir working_dir gr fp 0 prompt = fail (missing_submit_error (it_submit_key it))"
| "invoke_attempts h it session session_dir working_dir gr fp (Suc n) prompt =
     and_then get_context
       (\<lambda>ctx. and_then (call_backend (it_backend it) (build_request it session session_dir working_dir ctx prompt))
       (\<lambda>response. and_then (remember_thread h it session_dir response)
       (\<lambda>_. and_then (collect_submit (it_backend it) (it_submit_key it))
       (\<lambda>submitted. case submitted of
            Some out \<Rightarrow> finish_submitted h it session_dir gr fp response out
          | None \<Rightarrow>
              finish_unsubmitted it response
                (if n = 0 then fail (missing_submit_error (it_submit_key it))
                 else invoke_attempts h it session session_dir working_dir gr fp n
                        (prompt @ remediation_suffix (it_submit_key it)))))))"

definition invoke_prompt :: "flow_context \<Rightarrow> string" where
  "invoke_prompt ctx =
     (case or_else (get_sync from_string ctx ''prompt'') (get_sync from_string ctx ''feature_input'') of
        Some p \<Rightarrow> p | None \<Rightarrow> ''Add a feature'')"

definition action_parts :: "'v invoke_task \<Rightarrow> flow_context \<Rightarrow> action_fingerprint_parts" where
  "action_parts it ctx =
     \<lparr>fp_goal_id = it_goal_id it, fp_effective_prompt = invoke_prompt ctx,
      fp_system_prompt = get_sync from_string ctx ''system_prompt'', fp_model = get_sync from_string ctx ''model''\<rparr>"

definition invoke_task_run :: "surroundings \<Rightarrow> 'v invoke_task \<Rightarrow> ('v, task_result) turn" where
  "invoke_task_run h it =
     and_then get_context
       (\<lambda>ctx.
          let prompt = invoke_prompt ctx;
              session_dir = get_sync from_string ctx ''session_dir'';
              working_dir = or_else (get_sync from_string ctx ''worktree_dir'')
                              (or_else (get_sync from_string ctx ''output_dir'') session_dir);
              session = choose_session (it_backend it) ctx;
              graph_for_cache = (case get_sync from_string ctx ''workflow_engine_graph_id'' of Some g \<Rightarrow> g | None \<Rightarrow> []);
              fingerprint = fingerprint_action_inputs (host_envelope h) (action_parts it ctx)
          in and_then
               (case cache_place h it session_dir graph_for_cache fingerprint ctx of
                  Some (sd, key, digest) \<Rightarrow> on_tree (lookup_cached_completed_submit (host_codec h) sd key digest)
                | None \<Rightarrow> ret None)
               (\<lambda>cached. case cached of
                    Some out \<Rightarrow> and_then (put ''output'' (JStr out)) (\<lambda>_. ret (step_complete (it_id it) out))
                  | None \<Rightarrow> invoke_attempts h it session session_dir working_dir graph_for_cache fingerprint max_attempts prompt))"

definition backend_invoke_task :: "surroundings \<Rightarrow> 'v invoke_task \<Rightarrow> ('v site \<times> invoke_request list) task" where
  "backend_invoke_task h it = \<lparr>task_id = it_id it, task_run = invoke_task_run h it\<rparr>"

section \<open>What a turn leaves alone\<close>

text \<open>A turn makes no request and changes the context at the given keys only.\<close>

definition undisturbed :: "string set \<Rightarrow> ('v, 'a) turn \<Rightarrow> bool" where
  "undisturbed K m \<longleftrightarrow>
     (\<forall>s log ctx. \<exists>r s' ctx'. m ((s, log), ctx) = (r, ((s', log), ctx')) \<and> (\<forall>k. k \<notin> K \<longrightarrow> ctx' k = ctx k))"

named_theorems undisturbed_intros

lemma undisturbed_nothing:
  assumes "undisturbed {} m"
  obtains r s' ctx' where "m ((s, log), ctx) = (r, ((s', log), ctx'))" and "ctx' = ctx"
proof -
  obtain r s' ctx' where "m ((s, log), ctx) = (r, ((s', log), ctx'))" and "\<forall>k. ctx' k = ctx k"
    using assms unfolding undisturbed_def by (metis empty_iff)
  then show thesis using that by (metis ext)
qed

lemma undisturbedD:
  assumes "undisturbed K m" and "m ((s, log), ctx) = (r, ((s', log'), ctx'))"
  shows "log' = log" and "k \<notin> K \<Longrightarrow> ctx' k = ctx k"
  using assms unfolding undisturbed_def by (metis Pair_inject)+

lemma undisturbed_pure [undisturbed_intros]: "undisturbed K (ret a)" "undisturbed K (fail e)" "undisturbed K get_context"
  by (auto simp: undisturbed_def ret_def fail_def get_context_def)

lemma undisturbed_put [undisturbed_intros]: "k \<in> K \<Longrightarrow> undisturbed K (put k v)"
  by (auto simp: undisturbed_def put_def set_sync_def)

lemma undisturbed_on_tree [undisturbed_intros]: "undisturbed K (on_tree m)"
  by (auto simp: undisturbed_def on_tree_def split: prod.splits)

lemma undisturbed_collect [undisturbed_intros]: "undisturbed K (collect_submit b key)"
  by (auto simp: undisturbed_def collect_submit_def split: prod.splits)

lemma undisturbed_attempt [undisturbed_intros]:
  assumes "undisturbed K m"
  shows "undisturbed K (attempt m)"
  unfolding undisturbed_def
proof (intro allI)
  fix s log ctx
  obtain r s' ctx' where "m ((s, log), ctx) = (r, ((s', log), ctx'))" "\<forall>k. k \<notin> K \<longrightarrow> ctx' k = ctx k"
    using assms unfolding undisturbed_def by metis
  then show "\<exists>r s' ctx'. attempt m ((s, log), ctx) = (r, ((s', log), ctx')) \<and> (\<forall>k. k \<notin> K \<longrightarrow> ctx' k = ctx k)"
    by (simp add: attempt_def)
qed

lemma undisturbed_and_then [undisturbed_intros]:
  assumes "undisturbed K m" and "\<And>a. undisturbed K (f a)"
  shows "undisturbed K (and_then m f)"
  unfolding undisturbed_def
proof (intro allI)
  fix s log ctx
  obtain r s1 ctx1 where m: "m ((s, log), ctx) = (r, ((s1, log), ctx1))" "\<forall>k. k \<notin> K \<longrightarrow> ctx1 k = ctx k"
    using assms(1) unfolding undisturbed_def by metis
  show "\<exists>r s' ctx'. and_then m f ((s, log), ctx) = (r, ((s', log), ctx')) \<and> (\<forall>k. k \<notin> K \<longrightarrow> ctx' k = ctx k)"
  proof (cases r)
    case (Inl e)
    then show ?thesis using m by (simp add: and_then_def)
  next
    case (Inr a)
    obtain r' s2 ctx2 where "f a ((s1, log), ctx1) = (r', ((s2, log), ctx2))" "\<forall>k. k \<notin> K \<longrightarrow> ctx2 k = ctx1 k"
      using assms(2) unfolding undisturbed_def by metis
    then show ?thesis using Inr m by (simp add: and_then_def)
  qed
qed

lemma undisturbed_branches [undisturbed_intros]:
  "(\<And>x. y = Some x \<Longrightarrow> undisturbed K (f x)) \<Longrightarrow> (y = None \<Longrightarrow> undisturbed K m) \<Longrightarrow> undisturbed K (case y of Some x \<Rightarrow> f x | None \<Rightarrow> m)"
  "undisturbed K m \<Longrightarrow> undisturbed K n \<Longrightarrow> undisturbed K (if c then m else n)"
  "(\<And>a b. undisturbed K (g a b)) \<Longrightarrow> undisturbed K (case p of (a, b) \<Rightarrow> g a b)"
  by (auto split: option.splits prod.splits)

lemma undisturbed_thread: "undisturbed {''codex_thread_id''} (remember_thread h it sd response)"
  unfolding remember_thread_def
  by (cases "is_codex (it_backend it)"; cases "resp_session_id response") (auto intro!: undisturbed_intros)

lemma remember_thread_done: "fst (remember_thread h it sd response st) = Inr ()"
  by (cases "is_codex (it_backend it)"; cases "resp_session_id response"; cases sd)
    (auto simp: remember_thread_def and_then_def attempt_def put_def ret_def split: prod.splits)

lemma undisturbed_save: "undisturbed K (save_submitted h it sd gr fp ctx out)"
  unfolding save_submitted_def by (auto intro!: undisturbed_intros)

lemma undisturbed_submitted: "undisturbed {''output'', ''session_id''} (finish_submitted h it sd gr fp response out)"
  unfolding finish_submitted_def by (auto intro!: undisturbed_intros undisturbed_save)

lemma undisturbed_unsubmitted:
  "undisturbed {''output'', ''pending_questions''} again \<Longrightarrow> undisturbed {''output'', ''pending_questions''} (finish_unsubmitted it response again)"
  unfolding finish_unsubmitted_def by (auto intro!: undisturbed_intros)

text \<open>The request reads nothing of the context that a turn without a submission changes.\<close>

lemma build_request_cong:
  assumes "\<And>k. k \<noteq> ''codex_thread_id'' \<Longrightarrow> ctx' k = ctx k"
  shows "build_request it session sd wd ctx' p = build_request it session sd wd ctx p"
proof -
  have "''codex_thread_id'' \<notin> set remote_ctx_keys" by (simp add: remote_ctx_keys_def)
  then have "remote_map ctx' k = remote_map ctx k" for k
    using assms [of k] by (cases "k = ''codex_thread_id''") (simp_all add: remote_map_def get_sync_def)
  then have "remote_map ctx' = remote_map ctx" ..
  moreover have "k \<noteq> ''codex_thread_id'' \<Longrightarrow> get_sync from_string ctx' k = get_sync from_string ctx k"
    "k \<noteq> ''codex_thread_id'' \<Longrightarrow> get_sync from_bool ctx' k = get_sync from_bool ctx k"
    "k \<noteq> ''codex_thread_id'' \<Longrightarrow> get_sync from_strings ctx' k = get_sync from_strings ctx k" for k
    using assms [of k] by (simp_all add: get_sync_def)
  ultimately show ?thesis
    by (simp add: build_request_def flag_def)
qed

section \<open>The contract\<close>

text \<open>The prompt of the attempt with the given number, counted from zero.\<close>

definition attempt_prompt :: "string \<Rightarrow> string \<Rightarrow> nat \<Rightarrow> string" where
  "attempt_prompt key prompt i = prompt @ concat (replicate i (remediation_suffix key))"

lemma attempt_prompt_Suc: "attempt_prompt key (prompt @ remediation_suffix key) i = attempt_prompt key prompt (Suc i)"
  by (simp add: attempt_prompt_def)

lemma attempt_prompt_0 [simp]: "attempt_prompt key prompt 0 = prompt"
  by (simp add: attempt_prompt_def)

text \<open>What a result says: it is of this task, and either done, with its output in the context, or a question.\<close>

definition answered :: "'v invoke_task \<Rightarrow> task_result \<Rightarrow> flow_context \<Rightarrow> bool" where
  "answered it res ctx' \<longleftrightarrow>
     tr_task_id res = it_id it \<and>
     (tr_next_action res = Continue \<and> get_sync from_string ctx' ''output'' = Some (tr_response res) \<or>
      tr_next_action res = WaitForInput \<and> ctx' ''pending_questions'' \<noteq> None)"

definition keeps_session_id :: "flow_context \<Rightarrow> flow_context \<Rightarrow> bool" where
  "keeps_session_id ctx ctx' \<longleftrightarrow>
     (\<forall>sid. get_sync from_string ctx ''session_id'' = Some sid \<longrightarrow> trim sid \<noteq> [] \<longrightarrow> get_sync from_string ctx' ''session_id'' = Some sid)"

lemma finish_submitted_answer:
  assumes "finish_submitted h it sd gr fp response out ((s, log), ctx) = (r, ((s', log'), ctx'))"
  shows "r = Inr (step_complete (it_id it) out) \<and> answered it (step_complete (it_id it) out) ctx' \<and> keeps_session_id ctx ctx'"
proof -
  let ?ctx = "set_sync ''output'' (JStr out) ctx"
  let ?save = "save_submitted h it sd gr fp ?ctx out"
  obtain q s1 ctx1 where save: "?save ((s, log), ?ctx) = (q, ((s1, log), ctx1))" and same: "ctx1 = ?ctx"
    by (rule undisturbed_nothing [OF undisturbed_save])
  have q: "q = Inr ()"
    using save by (cases "cache_place h it sd gr fp ?ctx")
      (auto simp: save_submitted_def ret_def and_then_def attempt_def on_tree_def split: prod.splits)
  let ?eff = "resolve_effective_session_id (get_sync from_string ?ctx ''session_id'') (resp_session_id response)"
  have sid: "get_sync from_string ?ctx ''session_id'' = get_sync from_string ctx ''session_id''" by simp
  have run: "and_then (case ?eff of Some eff \<Rightarrow> put ''session_id'' (JStr eff) | None \<Rightarrow> ret ())
      (\<lambda>_. ret (step_complete (it_id it) out)) ((s1, log), ?ctx) = (r, ((s', log'), ctx'))"
    using assms save unfolding same q finish_submitted_def
    by (simp add: and_then_step [where m = "put ''output'' (JStr out)"] and_then_step [where m = get_context] put_def get_context_def
        and_then_step [where m = ?save])
  show ?thesis
  proof (cases ?eff)
    case None
    then have "ctx' = ?ctx" "r = Inr (step_complete (it_id it) out)" using run by (auto simp: and_then_def ret_def)
    then show ?thesis by (simp add: answered_def keeps_session_id_def step_complete_def)
  next
    case (Some eff)
    then have "ctx' = set_sync ''session_id'' (JStr eff) ?ctx" "r = Inr (step_complete (it_id it) out)"
      using run by (auto simp: and_then_def ret_def put_def)
    moreover have "get_sync from_string ctx ''session_id'' = Some sid \<Longrightarrow> trim sid \<noteq> [] \<Longrightarrow> eff = sid" for sid
      using Some unfolding sid by (simp add: resolve_effective_session_id_def)
    ultimately show ?thesis by (auto simp: answered_def keeps_session_id_def step_complete_def)
  qed
qed

lemma finish_unsubmitted_answer:
  assumes "finish_unsubmitted it response again ((s, log), ctx) = (r, ((s', log'), ctx'))"
  obtains (again) "it_requires_submit it" "again ((s, log), ctx) = (r, ((s', log'), ctx'))"
    | (answer) res where "r = Inr res" "answered it res ctx'" "log' = log" "keeps_session_id ctx ctx'"
proof (cases "resp_questions response = [] \<and> it_requires_submit it")
  case True
  then show thesis using again assms by (simp add: finish_unsubmitted_def)
next
  case False
  obtain qs t' where gate: "it_gate it ctx (site_tree s) = (qs, t')" by (cases "it_gate it ctx (site_tree s)")
  have "\<exists>res. r = Inr res \<and> answered it res ctx' \<and> log' = log \<and> keeps_session_id ctx ctx'"
  proof (cases "resp_questions response = []")
    case questions: False
    then show ?thesis
      using assms by (auto simp: finish_unsubmitted_def and_then_def put_def ret_def answered_def needs_input_def keeps_session_id_def set_sync_def get_sync_def)
  next
    case True
    then have run: "and_then (on_tree (\<lambda>t. case it_gate it ctx t of (qs, t') \<Rightarrow> (Inr qs, t')))
             (\<lambda>gate. case gate of
                  Some qs \<Rightarrow>
                    and_then (put ''pending_questions'' (JArr qs))
                      (\<lambda>_. ret (needs_input (it_id it) (resp_output response) ''Host clarification needed''))
                | None \<Rightarrow>
                    and_then (put ''output'' (JStr (resp_output response)))
                      (\<lambda>_. ret (step_complete (it_id it) (resp_output response)))) ((s, log), ctx) = (r, ((s', log'), ctx'))"
      using assms False by (simp add: finish_unsubmitted_def and_then_step [where m = get_context] get_context_def)
    show ?thesis
      using run gate
      by (cases qs) (auto simp: and_then_def on_tree_def put_def ret_def answered_def needs_input_def step_complete_def
          keeps_session_id_def set_sync_def get_sync_def)
  qed
  then show thesis using answer by blast
qed

lemma keeps_session_id_trans: "keeps_session_id a b \<Longrightarrow> keeps_session_id b c \<Longrightarrow> keeps_session_id a c"
  by (simp add: keeps_session_id_def)

lemma keeps_session_id_same: "ctx' ''session_id'' = ctx ''session_id'' \<Longrightarrow> keeps_session_id ctx ctx'"
  by (simp add: keeps_session_id_def get_sync_def)

text \<open>
  The attempts of a run: at least one and at most as many as are left, with the same request but for the prompt, and an
  answer of this task or an error.
\<close>

definition attempted :: "'v invoke_task \<Rightarrow> (string \<Rightarrow> invoke_request) \<Rightarrow> string \<Rightarrow> nat \<Rightarrow> invoke_request list \<Rightarrow> bool" where
  "attempted it req prompt n reqs \<longleftrightarrow>
     (\<exists>k. 0 < k \<and> k \<le> n \<and> reqs = map (\<lambda>i. req (attempt_prompt (it_submit_key it) prompt i)) [0..<k])"

lemma attempted_first: "0 < n \<Longrightarrow> attempted it req prompt n [req prompt]"
  unfolding attempted_def by (intro exI [of _ 1]) simp

lemma attempted_more:
  assumes "attempted it req (prompt @ remediation_suffix (it_submit_key it)) n reqs"
  shows "attempted it req prompt (Suc n) (req prompt # reqs)"
proof -
  obtain k where k: "0 < k" "k \<le> n" and reqs: "reqs = map (\<lambda>i. req (attempt_prompt (it_submit_key it) prompt (Suc i))) [0..<k]"
    using assms unfolding attempted_def attempt_prompt_Suc by blast
  have "map (\<lambda>i. req (attempt_prompt (it_submit_key it) prompt i)) [0..<Suc k] = req prompt # reqs"
    unfolding reqs by (simp only: upt_conv_Cons [OF zero_less_Suc] map_Suc_upt [symmetric] list.map map_map comp_def attempt_prompt_0)
  then show ?thesis using k unfolding attempted_def by (intro exI [of _ "Suc k"]) auto
qed

lemma attempts_contract:
  assumes "invoke_attempts h it session sd wd gr fp n prompt ((s, log), ctx) = (r, ((s', log'), ctx'))" and "0 < n"
  shows "\<exists>reqs. log' = log @ reqs \<and> attempted it (build_request it session sd wd ctx) prompt n reqs \<and>
    (\<forall>res. r = Inr res \<longrightarrow> answered it res ctx') \<and> keeps_session_id ctx ctx'"
  using assms
proof (induction n arbitrary: prompt s log ctx)
  case (Suc n)
  let ?req = "build_request it session sd wd"
  obtain r1 s1 where call: "backend_invoke (it_backend it) (?req ctx prompt) s = (r1, s1)"
    by (cases "backend_invoke (it_backend it) (?req ctx prompt) s")
  have called: "call_backend (it_backend it) (?req ctx prompt) ((s, log), ctx) =
      (map_err show_backend_error r1, ((s1, log @ [?req ctx prompt]), ctx))"
    by (simp add: call_backend_def call)
  have first: "attempted it (?req ctx) prompt (Suc n) [?req ctx prompt]" by (rule attempted_first) simp
  show ?case
  proof (cases r1)
    case (Inl e)
    then have "r = Inl (show_backend_error e)" "log' = log @ [?req ctx prompt]" "ctx' = ctx"
      using Suc.prems(1) called by (auto simp: and_then_step [where m = get_context] get_context_def and_then_stop)
    then show ?thesis using first keeps_session_id_same by blast
  next
    case (Inr response)
    let ?log = "log @ [?req ctx prompt]"
    obtain r2 s2 ctx2 where thread: "remember_thread h it sd response ((s1, ?log), ctx) = (r2, ((s2, ?log), ctx2))"
      and ctx2: "\<And>k. k \<noteq> ''codex_thread_id'' \<Longrightarrow> ctx2 k = ctx k"
      using undisturbed_thread [of h it sd response] unfolding undisturbed_def by (metis singletonD)
    have r2: "r2 = Inr ()" using remember_thread_done [of h it sd response "((s1, ?log), ctx)"] thread by simp
    obtain out s3 where took: "collect_submit (it_backend it) (it_submit_key it) ((s2, ?log), ctx2) = (Inr out, ((s3, ?log), ctx2))"
      by (cases "take_submit (it_backend it) (it_submit_key it) s2") (simp add: collect_submit_def)
    have run: "(case out of
            Some out \<Rightarrow> finish_submitted h it sd gr fp response out
          | None \<Rightarrow> finish_unsubmitted it response
                (if n = 0 then fail (missing_submit_error (it_submit_key it))
                 else invoke_attempts h it session sd wd gr fp n (prompt @ remediation_suffix (it_submit_key it))))
         ((s3, ?log), ctx2) = (r, ((s', log'), ctx'))"
      using Suc.prems(1) called thread took Inr unfolding r2
      by (simp add: and_then_step [where m = get_context] get_context_def
          and_then_step [where m = "call_backend (it_backend it) (?req ctx prompt)"]
          and_then_step [where m = "remember_thread h it sd response"]
          and_then_step [where m = "collect_submit (it_backend it) (it_submit_key it)"])
    have kept: "keeps_session_id ctx ctx2" by (rule keeps_session_id_same) (rule ctx2, simp)
    show ?thesis
    proof (cases out)
      case (Some o')
      then have fin: "finish_submitted h it sd gr fp response o' ((s3, ?log), ctx2) = (r, ((s', log'), ctx'))" using run by simp
      then have "log' = ?log" by (rule undisturbedD(1) [OF undisturbed_submitted])
      then show ?thesis
        using finish_submitted_answer [OF fin] first keeps_session_id_trans [OF kept] by auto
    next
      case None
      then have "finish_unsubmitted it response
                (if n = 0 then fail (missing_submit_error (it_submit_key it))
                 else invoke_attempts h it session sd wd gr fp n (prompt @ remediation_suffix (it_submit_key it)))
           ((s3, ?log), ctx2) = (r, ((s', log'), ctx'))" using run by simp
      then show ?thesis
      proof (cases rule: finish_unsubmitted_answer)
        case again
        show ?thesis
        proof (cases "n = 0")
          case True
          then have "r = Inl (missing_submit_error (it_submit_key it))" "log' = ?log" "ctx' = ctx2"
            using again(2) by (auto simp: fail_def)
          then show ?thesis using first kept by blast
        next
          case False
          have same: "?req ctx2 = ?req ctx" by (rule ext) (rule build_request_cong [OF ctx2])
          obtain reqs where reqs: "log' = ?log @ reqs"
              "attempted it (?req ctx) (prompt @ remediation_suffix (it_submit_key it)) n reqs"
              "\<forall>res. r = Inr res \<longrightarrow> answered it res ctx'" "keeps_session_id ctx2 ctx'"
            using Suc.IH [of "prompt @ remediation_suffix (it_submit_key it)" s3 ?log ctx2] again(2) False unfolding same by auto
          then show ?thesis
            using attempted_more keeps_session_id_trans [OF kept] by (intro exI [of _ "?req ctx prompt # reqs"]) simp
        qed
      next
        case (answer res)
        then show ?thesis using first keeps_session_id_trans [OF kept] by blast
      qed
    qed
  qed
qed simp

definition graph_for_cache :: "flow_context \<Rightarrow> string" where
  "graph_for_cache ctx = (case get_sync from_string ctx ''workflow_engine_graph_id'' of Some g \<Rightarrow> g | None \<Rightarrow> [])"

definition request_of :: "'v invoke_task \<Rightarrow> flow_context \<Rightarrow> string \<Rightarrow> invoke_request" where
  "request_of it ctx =
     build_request it (choose_session (it_backend it) ctx) (get_sync from_string ctx ''session_dir'')
       (or_else (get_sync from_string ctx ''worktree_dir'')
         (or_else (get_sync from_string ctx ''output_dir'') (get_sync from_string ctx ''session_dir''))) ctx"

definition cached_answer :: "surroundings \<Rightarrow> 'v invoke_task \<Rightarrow> flow_context \<Rightarrow> file_tree \<Rightarrow> string option" where
  "cached_answer h it ctx t =
     (case cache_place h it (get_sync from_string ctx ''session_dir'') (graph_for_cache ctx)
             (fingerprint_action_inputs (host_envelope h) (action_parts it ctx)) ctx of
        Some (sd, key, digest) \<Rightarrow>
          (case fst (lookup_cached_completed_submit (host_codec h) sd key digest t) of Inr out \<Rightarrow> out | Inl _ \<Rightarrow> None)
      | None \<Rightarrow> None)"

lemma lookup_returns: "\<exists>out t'. lookup_cached_completed_submit c sd key digest t = (Inr out, t')"
  by (auto simp: lookup_cached_completed_submit_def Let_def ret_def and_then_def attempt_def split: prod.splits sum.splits)

lemma invoke_task_outcome:
  assumes run: "invoke_task_run h it ((s, log), ctx) = (r, ((s', log'), ctx'))"
  shows "cached_answer h it ctx (site_tree s) = Some out \<Longrightarrow>
      r = Inr (step_complete (it_id it) out) \<and> log' = log \<and> ctx' = set_sync ''output'' (JStr out) ctx"
    and "cached_answer h it ctx (site_tree s) = None \<Longrightarrow>
      (\<exists>reqs. log' = log @ reqs \<and> attempted it (request_of it ctx) (invoke_prompt ctx) 8 reqs) \<and>
      (\<forall>res. r = Inr res \<longrightarrow> answered it res ctx') \<and> keeps_session_id ctx ctx'"
proof -
  let ?place = "cache_place h it (get_sync from_string ctx ''session_dir'') (graph_for_cache ctx)
      (fingerprint_action_inputs (host_envelope h) (action_parts it ctx)) ctx"
  let ?look = "case ?place of
      Some (sd, key, digest) \<Rightarrow> on_tree (lookup_cached_completed_submit (host_codec h) sd key digest)
    | None \<Rightarrow> ret None"
  obtain s1 where look: "?look ((s, log), ctx) = (Inr (cached_answer h it ctx (site_tree s)), ((s1, log), ctx))"
  proof (cases ?place)
    case None
    then show thesis using that [of s] by (simp add: cached_answer_def ret_def)
  next
    case (Some x)
    obtain sd key digest where x: "x = (sd, key, digest)" by (cases x)
    obtain out t' where "lookup_cached_completed_submit (host_codec h) sd key digest (site_tree s) = (Inr out, t')"
      using lookup_returns by blast
    then show thesis using that [of "s\<lparr>site_tree := t'\<rparr>"] Some x by (simp add: cached_answer_def on_tree_def)
  qed
  have rest: "(case cached_answer h it ctx (site_tree s) of
        Some out \<Rightarrow> and_then (put ''output'' (JStr out)) (\<lambda>_. ret (step_complete (it_id it) out))
      | None \<Rightarrow> invoke_attempts h it (choose_session (it_backend it) ctx) (get_sync from_string ctx ''session_dir'')
          (or_else (get_sync from_string ctx ''worktree_dir'')
            (or_else (get_sync from_string ctx ''output_dir'') (get_sync from_string ctx ''session_dir'')))
          (graph_for_cache ctx) (fingerprint_action_inputs (host_envelope h) (action_parts it ctx)) max_attempts (invoke_prompt ctx))
      ((s1, log), ctx) = (r, ((s', log'), ctx'))"
    using run look unfolding invoke_task_run_def Let_def graph_for_cache_def [symmetric]
    by (simp add: and_then_step [where m = get_context] get_context_def and_then_step [where m = ?look])
  show "cached_answer h it ctx (site_tree s) = Some out \<Longrightarrow>
      r = Inr (step_complete (it_id it) out) \<and> log' = log \<and> ctx' = set_sync ''output'' (JStr out) ctx"
    using rest by (auto simp: and_then_def put_def ret_def)
  assume none: "cached_answer h it ctx (site_tree s) = None"
  have limit: "max_attempts = 8" by (simp only: max_attempts_def)
  have "invoke_attempts h it (choose_session (it_backend it) ctx) (get_sync from_string ctx ''session_dir'')
      (or_else (get_sync from_string ctx ''worktree_dir'')
        (or_else (get_sync from_string ctx ''output_dir'') (get_sync from_string ctx ''session_dir'')))
      (graph_for_cache ctx) (fingerprint_action_inputs (host_envelope h) (action_parts it ctx)) 8 (invoke_prompt ctx)
      ((s1, log), ctx) = (r, ((s', log'), ctx'))"
    using rest unfolding none limit option.case .
  from attempts_contract [OF this]
  show "(\<exists>reqs. log' = log @ reqs \<and> attempted it (request_of it ctx) (invoke_prompt ctx) 8 reqs) \<and>
      (\<forall>res. r = Inr res \<longrightarrow> answered it res ctx') \<and> keeps_session_id ctx ctx'"
    unfolding request_of_def by auto
qed

lemma invoke_task_no_jumps: "\<not> jumps_to (backend_invoke_task h it) tid"
proof
  assume "jumps_to (backend_invoke_task h it) tid"
  then obtain s log ctx res s' log' ctx' where run: "invoke_task_run h it ((s, log), ctx) = (Inr res, ((s', log'), ctx'))"
    and go: "tr_next_action res = GoTo tid"
    unfolding jumps_to_def backend_invoke_task_def by auto
  show False
    using invoke_task_outcome [OF run] go
    by (cases "cached_answer h it ctx (site_tree s)") (auto simp: step_complete_def answered_def)
qed

text \<open>
  C37. An output kept for the same graph, task, goal and question is answered again without asking the agent. Otherwise the
  agent is asked at least once and at most eight times, always with the request the context describes, to which
  only the reminder to submit is added; a result is a finished step with its output in the context, or a question
  that waits. A session id the process was given is never replaced by one of the agent.
\<close>

theorem invoke_task_contract:
  "case invoke_task_run h it ((s, log), ctx) of (r, ((s', log'), ctx')) \<Rightarrow>
     (case cached_answer h it ctx (site_tree s) of
        Some out \<Rightarrow> r = Inr (step_complete (it_id it) out) \<and> log' = log \<and> ctx' = set_sync ''output'' (JStr out) ctx
      | None \<Rightarrow>
          (\<exists>reqs. log' = log @ reqs \<and> attempted it (request_of it ctx) (invoke_prompt ctx) 8 reqs) \<and>
          (case r of Inr res \<Rightarrow> answered it res ctx' | Inl _ \<Rightarrow> True) \<and> keeps_session_id ctx ctx')"
proof -
  obtain r s' log' ctx' where run: "invoke_task_run h it ((s, log), ctx) = (r, ((s', log'), ctx'))"
    by (cases "invoke_task_run h it ((s, log), ctx)") auto
  show ?thesis
    using invoke_task_outcome [OF run] run by (cases "cached_answer h it ctx (site_tree s)"; cases r) simp_all
qed

text \<open>The socket of the daemon is read from a map into which it is never copied.\<close>

theorem daemon_socket_never_forwarded:
  "set_option (Option.bind (req_remote (build_request it session sd wd ctx p)) daemon_socket) = {}"
proof -
  have "remote_map ctx ''remote_daemon_socket'' = None" by (simp add: remote_map_def remote_ctx_keys_def)
  then show ?thesis by (auto simp: build_request_def extract_remote_env_from_ctx_def bind_eq_Some_conv)
qed

end
