(* ===== verification/Flow_Recipes.thy ===== *)
theory Flow_Recipes
  imports Invoke_Task Changeset
begin

text \<open>
  The workflows that ship with the program (\<open>tddy-workflow-recipes\<close>): for each recipe its goals, their hints and tools, the
  graph it builds, the goal that follows a persisted state, and how a name given on the command line is resolved. Also
  the task that writes the plan (\<open>tdd/plan_task.rs\<close>) and the choice of the goal at which a stored session continues
  (\<open>tddy-workflow-engine\<close>, \<open>workflow/session_continue.rs\<close>).

  The texts of the prompts, the questions the host asks and the parser of a plan are arguments (\<open>plan_texts\<close>, \<open>question\<close>): the
  control flow does not look into them. \<open>from_recipe\<close> panics on a goal without hints; a graph is therefore optional, and
  the theorems say that every shipped recipe builds one.
\<close>

section \<open>Tools\<close>

definition plan_allowlist :: "string list" where
  "plan_allowlist =
     [''Read'', ''Glob'', ''Grep'', ''SemanticSearch'', ''AskUserQuestion'', ''ExitPlanMode'', ''Bash(tddy-tools *)'']"

definition acceptance_tests_allowlist :: "string list" where
  "acceptance_tests_allowlist =
     [''Read'', ''Write'', ''Edit'', ''Glob'', ''Grep'', ''AskUserQuestion'', ''Bash(cargo *)'', ''SemanticSearch'',
      ''Bash(tddy-tools *)'']"

definition evaluate_allowlist :: "string list" where
  "evaluate_allowlist =
     [''Read'', ''Glob'', ''Grep'', ''SemanticSearch'', ''AskUserQuestion'', ''Bash(git diff *)'',
      ''Bash(git log *)'', ''Bash(cargo build *)'', ''Bash(cargo check *)'', ''Bash(find *)'', ''Bash(tddy-tools *)'']"

definition validate_subagents_allowlist :: "string list" where
  "validate_subagents_allowlist =
     [''Agent'', ''Read'', ''Write'', ''Edit'', ''Glob'', ''Grep'', ''SemanticSearch'', ''AskUserQuestion'',
      ''Bash(git diff *)'', ''Bash(cargo build *)'', ''Bash(cargo check *)'', ''Bash(cargo test *)'',
      ''Bash(tddy-tools *)'']"

definition refactor_allowlist :: "string list" where
  "refactor_allowlist =
     [''Read'', ''Write'', ''Edit'', ''Glob'', ''Grep'', ''SemanticSearch'', ''AskUserQuestion'', ''Bash(cargo *)'',
      ''Bash(git diff *)'', ''Bash(tddy-tools *)'']"

definition merge_pr_allowlist :: "string list" where
  "merge_pr_allowlist =
     [''Read'', ''Write'', ''Edit'', ''Glob'', ''Grep'', ''SemanticSearch'', ''AskUserQuestion'', ''Bash(git *)'',
      ''Bash(tddy-tools *)'']"

definition update_docs_allowlist :: "string list" where
  "update_docs_allowlist =
     [''Read'', ''Write'', ''Edit'', ''Glob'', ''Grep'', ''SemanticSearch'', ''AskUserQuestion'']"

definition pr_stack_tool_names :: "string list" where
  "pr_stack_tool_names =
     [''mcp__tddy-tools__pr_stack_status'', ''mcp__tddy-tools__pr_merge'', ''mcp__tddy-tools__pr_repoint'',
      ''mcp__tddy-tools__pr_close'', ''mcp__tddy-tools__pr_resolve_conflicts'', ''mcp__tddy-tools__pr_set_status'',
      ''mcp__tddy-tools__pr_add_planned'', ''mcp__tddy-tools__pr_spawn_child'',
      ''mcp__tddy-tools__pr_update_planned'', ''mcp__tddy-tools__pr_delete_planned'',
      ''mcp__tddy-tools__pr_set_parents'', ''mcp__tddy-tools__pr_read'', ''mcp__tddy-tools__pr_search'',
      ''mcp__tddy-tools__pr_comments'', ''mcp__tddy-tools__pr_adopt'']"

definition build_remote_allowlist :: "string list \<Rightarrow> string list" where
  "build_remote_allowlist discovered = map (\<lambda>name. ''mcp__tddy-tools__'' @ name) discovered @ [''AskUserQuestion'']"

section \<open>Recipes\<close>

text \<open>The part of a recipe its tasks use.\<close>

record recipe_goals =
  goal_hints_of :: "string \<Rightarrow> goal_hints option"
  submit_key_of :: "string \<Rightarrow> string"
  requires_submit :: "string \<Rightarrow> bool"
  clarification_gate :: "string \<Rightarrow> flow_context \<Rightarrow> file_tree \<Rightarrow> json list option \<times> file_tree"

definition hints :: "string \<Rightarrow> permission_hint \<Rightarrow> string list \<Rightarrow> bool \<Rightarrow> bool \<Rightarrow> bool \<Rightarrow> goal_hints option" where
  "hints name perm tools shown plan_mode nonzero_ok =
     Some \<lparr>display_name = name, permission = perm, allowed_tools = tools, default_model = None, hint_agent_output = shown,
           agent_cli_plan_mode = plan_mode, claude_nonzero_exit_ok_if_structured_response = nonzero_ok\<rparr>"

definition no_gate :: "string \<Rightarrow> flow_context \<Rightarrow> file_tree \<Rightarrow> json list option \<times> file_tree" where
  "no_gate goal ctx t = (None, t)"

definition from_recipe :: "surroundings \<Rightarrow> 'v backend \<Rightarrow> recipe_goals \<Rightarrow> string \<Rightarrow> ('v site \<times> invoke_request list) task option" where
  "from_recipe h b r goal =
     (case goal_hints_of r goal of
        None \<Rightarrow> None
      | Some hs \<Rightarrow>
          Some (backend_invoke_task h
            \<lparr>it_id = goal, it_goal_id = goal, it_submit_key = submit_key_of r goal, it_hints = hs, it_backend = b,
             it_gate = clarification_gate r goal, it_requires_submit = requires_submit r goal\<rparr>))"

subsection \<open>Planning\<close>

record plan_texts =
  plan_prompt :: "string \<Rightarrow> string"
  plan_refinement_prompt :: "string \<Rightarrow> string \<Rightarrow> string"
  plan_followup_prompt :: "string \<Rightarrow> string \<Rightarrow> string"
  plan_system_prompt :: string
  plan_remediation :: "nat \<Rightarrow> string"
  parse_planning :: "string \<Rightarrow> string \<Rightarrow> parse_error + json"
  is_dir :: "string \<Rightarrow> file_tree \<Rightarrow> bool"
  debug_path :: "string \<Rightarrow> string"

definition resolve_existing_session_dir_for_plan :: "plan_texts \<Rightarrow> flow_context \<Rightarrow> file_tree \<Rightarrow> string + string" where
  "resolve_existing_session_dir_for_plan p ctx t =
     (case get_sync from_string ctx ''session_dir'' of
        Some d \<Rightarrow> if is_dir p d t then Inr d else Inl (''session_dir '' @ debug_path p d @ '' is not an existing directory'')
      | None \<Rightarrow>
          (case (get_sync from_string ctx ''session_base'', get_sync from_string ctx ''session_id'') of
             (Some base, Some sid) \<Rightarrow>
               if trim sid = [] then Inl ''session_id is empty; cannot resolve session directory under session_base''
               else let expected = path_join (path_join base ''sessions'') (trim sid)
                    in if is_dir p expected t then Inr expected
                       else Inl (''expected session directory '' @ debug_path p expected @ '' to exist (create '' @ base @
                                 ''/sessions/{session_id}/ before running plan)'')
           | _ \<Rightarrow> Inl (''plan requires session_dir in context, or session_base plus session_id with an existing '' @
                       ''{session_base}/sessions/{session_id}/ directory (entry layer must create the tree)'')))"

definition plan_request ::
    "recipe_goals \<Rightarrow> plan_texts \<Rightarrow> goal_hints \<Rightarrow> session_mode option \<Rightarrow> string \<Rightarrow> flow_context \<Rightarrow> string \<Rightarrow> invoke_request" where
  "plan_request r p hs session output_dir ctx prompt =
     \<lparr>req_prompt = prompt, req_system_prompt = Some (plan_system_prompt p), req_goal_id = ''plan'',
      req_submit_key = submit_key_of r ''plan'', req_hints = hs, req_model = get_sync from_string ctx ''model'',
      req_session = session, req_working_dir = Some output_dir, req_debug = flag ctx ''debug'' False,
      req_agent_output = flag ctx ''agent_output'' False,
      req_conversation_output_path = get_sync from_string ctx ''conversation_output_path'',
      req_inherit_stdin = flag ctx ''inherit_stdin'' False,
      req_extra_allowed_tools = get_sync from_strings ctx ''allowed_tools'',
      req_socket_path = get_sync from_string ctx ''socket_path'',
      req_session_dir = get_sync from_string ctx ''session_dir'', req_remote = None\<rparr>"

definition plan_exhausted :: string where
  "plan_exhausted =
     show_workflow_error (ParseError (Malformed
       (''Plan step failed after 8 attempts without tddy-tools submit for goal plan. '' @
        ''Ensure tddy-tools is on PATH and the agent follows the system prompt.'')))"

definition finish_plan :: "plan_texts \<Rightarrow> string \<Rightarrow> string option \<Rightarrow> invoke_response \<Rightarrow> string \<Rightarrow> ('v, task_result) turn" where
  "finish_plan p session_dir bound response out =
     and_then (put ''output'' (JStr out))
       (\<lambda>_. and_then (of_result (map_err (\<lambda>e. show_workflow_error (ParseError e)) (parse_planning p out session_dir)))
       (\<lambda>planning. and_then (put ''parsed_planning'' planning)
       (\<lambda>_. and_then (put ''session_dir'' (JStr session_dir))
       (\<lambda>_. and_then
          (case resolve_effective_session_id bound (resp_session_id response) of
             Some eff \<Rightarrow> put ''session_id'' (JStr eff)
           | None \<Rightarrow> ret ())
       (\<lambda>_. ret \<lparr>tr_response = ''Plan complete for '' @ session_dir, tr_next_action = Continue, tr_task_id = ''plan'',
                 tr_status_message = Some ''Plan complete''\<rparr>)))))"

text \<open>The attempts, with the number of the coming one and of those left.\<close>

fun plan_attempts ::
    "'v backend \<Rightarrow> recipe_goals \<Rightarrow> plan_texts \<Rightarrow> goal_hints \<Rightarrow> session_mode option \<Rightarrow> string \<Rightarrow> string \<Rightarrow> string option \<Rightarrow> string \<Rightarrow> nat \<Rightarrow> nat \<Rightarrow>
     ('v, task_result) turn" where
  "plan_attempts b r p hs session output_dir session_dir bound base att 0 = fail plan_exhausted"
| "plan_attempts b r p hs session output_dir session_dir bound base att (Suc n) =
     and_then get_context
       (\<lambda>ctx. and_then
          (on_err (\<lambda>e. ''backend error: '' @ e)
            (call_backend b (plan_request r p hs session output_dir ctx (if att > 1 then base @ plan_remediation p att else base))))
       (\<lambda>response. and_then (collect_submit b ''plan'')
       (\<lambda>submitted. case submitted of
            Some out \<Rightarrow> finish_plan p session_dir bound response out
          | None \<Rightarrow>
              if resp_questions response \<noteq> []
              then and_then (put ''pending_questions'' (JArr (resp_questions response)))
                     (\<lambda>_. ret (needs_input ''plan'' (resp_output response) ''Clarification needed''))
              else if n = 0 then fail plan_exhausted
              else plan_attempts b r p hs session output_dir session_dir bound base (Suc att) n)))"

definition plan_run :: "'v backend \<Rightarrow> recipe_goals \<Rightarrow> plan_texts \<Rightarrow> ('v, task_result) turn" where
  "plan_run b r p =
     and_then get_context
       (\<lambda>ctx. and_then
          (of_result (ok_or ''PlanTask requires feature_input or prompt in context''
             (or_else (get_sync from_string ctx ''feature_input'') (get_sync from_string ctx ''prompt''))))
       (\<lambda>input. and_then
          (of_result (ok_or ''PlanTask requires output_dir in context'' (get_sync from_string ctx ''output_dir'')))
       (\<lambda>output_dir.
          if trim input = [] then fail ''empty feature description''
          else and_then
            (on_tree (\<lambda>t. (map_err (\<lambda>m. show_workflow_error (WriteFailed m)) (resolve_existing_session_dir_for_plan p ctx t), t)))
            (\<lambda>session_dir. and_then (put ''session_dir'' (JStr session_dir))
            (\<lambda>_. let refinement = get_sync from_string ctx ''refinement_feedback'';
                     answers = get_sync from_string ctx ''answers'';
                     resumed = (case refinement of
                                  Some fb \<Rightarrow> (True, plan_refinement_prompt p (trim input) fb)
                                | None \<Rightarrow> (case answers of
                                              Some a \<Rightarrow> (True, plan_followup_prompt p (trim input) a)
                                            | None \<Rightarrow> (False, plan_prompt p (trim input))));
                     bound = get_sync from_string ctx ''session_id'';
                     session = map_option (\<lambda>sid. if fst resumed then Resume sid else Fresh sid) bound
                 in case goal_hints_of r ''plan'' of
                      None \<Rightarrow> fail ''plan goal must have hints''
                    | Some hs \<Rightarrow> plan_attempts b r p hs session output_dir session_dir bound (snd resumed) 1 8)))))"

definition plan_task :: "'v backend \<Rightarrow> recipe_goals \<Rightarrow> plan_texts \<Rightarrow> ('v site \<times> invoke_request list) task" where
  "plan_task b r p = \<lparr>task_id = ''plan'', task_run = plan_run b r p\<rparr>"

subsection \<open>Graphs\<close>

definition line_graph :: "string \<Rightarrow> 'w task list \<Rightarrow> (string \<times> string) list \<Rightarrow> 'w flow_graph" where
  "line_graph gid ts es = fold (\<lambda>(f, t). add_edge f t) es (fold add_task ts (new_graph gid))"

definition invoke_tasks :: "surroundings \<Rightarrow> 'v backend \<Rightarrow> recipe_goals \<Rightarrow> string list \<Rightarrow> ('v site \<times> invoke_request list) task list option" where
  "invoke_tasks h b r goals = those (map (from_recipe h b r) goals)"

type_synonym 'v recipe_graph = "('v site \<times> invoke_request list) flow_graph option"


subsection \<open>tdd\<close>

definition tdd_goal_hints :: "string \<Rightarrow> goal_hints option" where
  "tdd_goal_hints goal =
     (if goal = ''interview'' then hints ''Interview'' ReadOnly plan_allowlist True False False
      else if goal = ''plan'' then hints ''Plan'' ReadOnly plan_allowlist False True True
      else if goal = ''acceptance-tests'' then hints ''Acceptance tests'' AcceptEdits acceptance_tests_allowlist True False False
      else if goal = ''red'' then hints ''Red'' AcceptEdits acceptance_tests_allowlist True False False
      else if goal = ''green'' then hints ''Green'' AcceptEdits acceptance_tests_allowlist True False False
      else if goal = ''demo'' then hints ''Demo'' AcceptEdits acceptance_tests_allowlist True False False
      else if goal = ''evaluate'' then hints ''Evaluate'' ReadOnly evaluate_allowlist False False False
      else if goal = ''validate'' then hints ''Validate'' ReadOnly validate_subagents_allowlist False False False
      else if goal = ''refactor'' then hints ''Refactor'' AcceptEdits refactor_allowlist False False False
      else if goal = ''update-docs'' then hints ''Update docs'' AcceptEdits update_docs_allowlist False False False
      else None)"

definition tdd_goals :: recipe_goals where
  "tdd_goals =
     \<lparr>goal_hints_of = tdd_goal_hints,
      submit_key_of = (\<lambda>goal. if goal = ''evaluate'' then ''evaluate-changes'' else goal),
      requires_submit = (\<lambda>goal. goal \<noteq> ''interview''), clarification_gate = no_gate\<rparr>"

definition tdd_next_goal :: "string \<Rightarrow> string option" where
  "tdd_next_goal state =
     (if state \<in> set [''Init'', ''Interview'', ''Interviewing''] then Some ''interview''
      else if state \<in> set [''Interviewed'', ''Planning''] then Some ''plan''
      else if state \<in> set [''Planned'', ''AcceptanceTesting''] then Some ''acceptance-tests''
      else if state \<in> set [''AcceptanceTestsReady'', ''RedTesting''] then Some ''red''
      else if state \<in> set [''RedTestsReady'', ''GreenImplementing''] then Some ''green''
      else if state \<in> set [''GreenComplete'', ''DemoRunning''] then Some ''demo''
      else if state \<in> set [''DemoComplete'', ''Evaluating''] then Some ''evaluate''
      else if state \<in> set [''Evaluated'', ''Validating''] then Some ''validate''
      else if state \<in> set [''ValidateComplete'', ''ValidateRefactorComplete'', ''Refactoring''] then Some ''refactor''
      else if state \<in> set [''RefactorComplete'', ''UpdatingDocs''] then Some ''update-docs''
      else if state \<in> set [''DocsUpdated'', ''Failed''] then None
      else Some ''interview'')"

definition tdd_status :: "string \<Rightarrow> string" where
  "tdd_status state =
     (if state \<in> set [''GreenComplete'', ''DemoComplete'', ''Evaluated'', ''ValidateComplete'', ''ValidateRefactorComplete'', ''RefactorComplete'', ''DocsUpdated''] then ''Completed''
      else if state = ''Failed'' then ''Failed''
      else ''Active'')"

definition build_full_tdd_workflow_graph :: "surroundings \<Rightarrow> 'v backend \<Rightarrow> plan_texts \<Rightarrow> 'v recipe_graph" where
  "build_full_tdd_workflow_graph h b p =
     (case (from_recipe h b tdd_goals ''interview'',
            invoke_tasks h b tdd_goals [''acceptance-tests'', ''red'', ''green'', ''demo'', ''evaluate'', ''validate'', ''refactor'', ''update-docs'']) of
        (Some interview, Some ts) \<Rightarrow>
          Some (add_conditional_edge ''green'' (\<lambda>ctx. flag ctx ''run_optional_step_x'' False) ''demo'' ''evaluate''
            (line_graph ''tdd_full_workflow'' ([interview, plan_task b tdd_goals p] @ ts @ [end_task ''end''])
              [(''interview'', ''plan''), (''plan'', ''acceptance-tests''), (''acceptance-tests'', ''red''), (''red'', ''green''),
               (''demo'', ''evaluate''), (''evaluate'', ''validate''), (''validate'', ''refactor''), (''refactor'', ''update-docs''),
               (''update-docs'', ''end'')]))
      | _ \<Rightarrow> None)"

definition tdd_skip :: "string \<Rightarrow> string \<Rightarrow> bool" where
  "tdd_skip state goal \<longleftrightarrow> goal = ''interview'' \<or> state = ''Planning'' \<and> goal = ''plan''"

subsection \<open>tdd-small\<close>

definition tdd_small_goal_hints :: "string \<Rightarrow> goal_hints option" where
  "tdd_small_goal_hints goal =
     (if goal = ''plan'' then hints ''Plan'' ReadOnly plan_allowlist False True True
      else if goal = ''red'' then hints ''Red'' AcceptEdits acceptance_tests_allowlist True False False
      else if goal = ''green'' then hints ''Green'' AcceptEdits acceptance_tests_allowlist True False False
      else if goal = ''post-green-review'' then hints ''Post-green review'' ReadOnly evaluate_allowlist False False False
      else if goal = ''refactor'' then hints ''Refactor'' AcceptEdits refactor_allowlist False False False
      else if goal = ''update-docs'' then hints ''Update docs'' AcceptEdits update_docs_allowlist False False False
      else None)"

definition tdd_small_goals :: recipe_goals where
  "tdd_small_goals =
     \<lparr>goal_hints_of = tdd_small_goal_hints, submit_key_of = (\<lambda>goal. goal), requires_submit = (\<lambda>_. True),
      clarification_gate = no_gate\<rparr>"

definition tdd_small_next_goal :: "string \<Rightarrow> string option" where
  "tdd_small_next_goal state =
     (if state \<in> set [''Init'', ''Planning''] then Some ''plan''
      else if state \<in> set [''Planned'', ''AcceptanceTesting'', ''AcceptanceTestsReady'', ''RedTesting''] then Some ''red''
      else if state \<in> set [''RedTestsReady'', ''GreenImplementing''] then Some ''green''
      else if state \<in> set [''GreenComplete'', ''DemoRunning'', ''Evaluating'', ''Evaluated''] then Some ''post-green-review''
      else if state \<in> set [''Validating'', ''ValidateComplete'', ''ValidateRefactorComplete'', ''Refactoring''] then Some ''refactor''
      else if state \<in> set [''RefactorComplete'', ''UpdatingDocs''] then Some ''update-docs''
      else if state \<in> set [''DocsUpdated'', ''Failed''] then None
      else Some ''plan'')"

definition tdd_small_status :: "string \<Rightarrow> string" where
  "tdd_small_status state =
     (if state \<in> set [''GreenComplete'', ''Evaluated'', ''ValidateComplete'', ''ValidateRefactorComplete'', ''RefactorComplete'', ''DocsUpdated''] then ''Completed''
      else if state = ''Failed'' then ''Failed''
      else ''Active'')"

definition build_tdd_small_workflow_graph :: "surroundings \<Rightarrow> 'v backend \<Rightarrow> plan_texts \<Rightarrow> 'v recipe_graph" where
  "build_tdd_small_workflow_graph h b p =
     map_option (\<lambda>ts. line_graph ''tdd_small_workflow'' ([plan_task b tdd_small_goals p] @ ts @ [end_task ''end''])
         [(''plan'', ''red''), (''red'', ''green''), (''green'', ''post-green-review''), (''post-green-review'', ''refactor''), (''refactor'', ''update-docs''), (''update-docs'', ''end'')])
       (invoke_tasks h b tdd_small_goals [''red'', ''green'', ''post-green-review'', ''refactor'', ''update-docs''])"

subsection \<open>bugfix\<close>

text \<open>Two numbered lines with a question mark: the agent has asked in prose.\<close>

definition numbered_question :: "string \<Rightarrow> bool" where
  "numbered_question line \<longleftrightarrow>
     (case split_once (CHR ''.'') (trim_start line) of
        Some (num, rest) \<Rightarrow>
          num \<noteq> [] \<and> list_all (\<lambda>c. 48 \<le> (of_char c :: nat) \<and> (of_char c :: nat) \<le> 57) num \<and> CHR ''?'' \<in> set (trim_start rest)
      | None \<Rightarrow> False)"

definition prose_numbered_clarification_probe :: "string \<Rightarrow> bool" where
  "prose_numbered_clarification_probe text' \<longleftrightarrow> 2 \<le> length (filter numbered_question (str_lines text'))"

definition bugfix_gate :: "json \<Rightarrow> string \<Rightarrow> flow_context \<Rightarrow> file_tree \<Rightarrow> json list option \<times> file_tree" where
  "bugfix_gate question goal ctx t =
     (if goal \<noteq> ''interview'' then (None, t)
      else if \<not> prose_numbered_clarification_probe (case get_sync from_string ctx ''output'' of Some s \<Rightarrow> s | None \<Rightarrow> []) then (None, t)
      else (Some [question], t))"

definition bugfix_goals :: "json \<Rightarrow> recipe_goals" where
  "bugfix_goals question =
     \<lparr>goal_hints_of = (\<lambda>goal.
        if goal = ''interview'' then hints ''Interview'' ReadOnly plan_allowlist True False False
        else if goal = ''analyze'' then hints ''Analyze'' ReadOnly [] True False False
        else if goal = ''reproduce'' then hints ''Reproduce'' ReadOnly [] True False False
        else None),
      submit_key_of = (\<lambda>goal. goal), requires_submit = (\<lambda>goal. goal = ''analyze''), clarification_gate = bugfix_gate question\<rparr>"

definition bugfix_next_goal :: "string \<Rightarrow> string option" where
  "bugfix_next_goal state =
     (if state = ''Failed'' then None
      else if state = ''Reproducing'' then Some ''reproduce''
      else if state \<in> set [''Interviewed'', ''Analyzing''] then Some ''analyze''
      else if state \<in> set [''Init'', ''Interview'', ''Interviewing''] then Some ''interview''
      else Some ''analyze'')"

definition bugfix_status :: "string \<Rightarrow> string" where
  "bugfix_status state =
     (if state \<in> set [''Failed'', ''Interviewing'', ''Interviewed'', ''Analyzing'', ''Reproducing''] then state else ''Active'')"

definition bugfix_graph :: "json \<Rightarrow> surroundings \<Rightarrow> 'v backend \<Rightarrow> 'v recipe_graph" where
  "bugfix_graph question h b =
     map_option (\<lambda>ts. line_graph ''bugfix'' (ts @ [end_task ''end''])
         [(''interview'', ''analyze''), (''analyze'', ''reproduce''), (''reproduce'', ''end'')])
       (invoke_tasks h b (bugfix_goals question) [''interview'', ''analyze'', ''reproduce''])"

subsection \<open>grill-me\<close>

text \<open>The host asks before the plan is written, unless answers are in the context or in the file of the session.\<close>

definition grill_gate :: "json \<Rightarrow> string \<Rightarrow> flow_context \<Rightarrow> file_tree \<Rightarrow> json list option \<times> file_tree" where
  "grill_gate question goal ctx t =
     (if goal \<noteq> ''grill'' then (None, t)
      else if (case get_sync from_string ctx ''answers'' of Some s \<Rightarrow> trim s \<noteq> [] | None \<Rightarrow> False) then (None, t)
      else
        (case get_sync from_string ctx ''session_dir'' of
           None \<Rightarrow> (Some [question], t)
         | Some dir \<Rightarrow>
             (let path = path_join (path_join dir ''.workflow'') ''grill_ask_answers.txt''
              in if fs_files t path = None then (Some [question], t)
                 else (case read_to_string path t of
                         (Inr s, t') \<Rightarrow> (if trim s \<noteq> [] then None else Some [question], t')
                       | (Inl _, t') \<Rightarrow> (Some [question], t')))))"

definition grill_me_goals :: "json \<Rightarrow> recipe_goals" where
  "grill_me_goals question =
     \<lparr>goal_hints_of = (\<lambda>goal.
        if goal = ''grill'' then hints ''Grill'' AcceptEdits [] True False False
        else if goal = ''create-plan'' then hints ''Create plan'' AcceptEdits [] True False False
        else None),
      submit_key_of = (\<lambda>goal. goal), requires_submit = (\<lambda>goal. goal \<notin> {''grill'', ''create-plan''}),
      clarification_gate = grill_gate question\<rparr>"

definition grill_me_next_goal :: "string \<Rightarrow> string option" where
  "grill_me_next_goal state =
     (if state \<in> set [''Init'', ''Grill''] then Some ''grill''
      else if state = ''CreatePlan'' then Some ''create-plan''
      else if state = ''Failed'' then None
      else Some ''grill'')"

definition grill_me_graph :: "json \<Rightarrow> surroundings \<Rightarrow> 'v backend \<Rightarrow> 'v recipe_graph" where
  "grill_me_graph question h b =
     map_option (\<lambda>ts. line_graph ''grill_me'' (ts @ [end_task ''end''])
         [(''grill'', ''create-plan''), (''create-plan'', ''end'')])
       (invoke_tasks h b (grill_me_goals question) [''grill'', ''create-plan''])"

subsection \<open>review\<close>

definition review_goals :: recipe_goals where
  "review_goals =
     \<lparr>goal_hints_of = (\<lambda>goal.
        if goal = ''inspect'' then hints ''Inspect changes'' ReadOnly evaluate_allowlist True False False
        else if goal = ''branch-review'' then hints ''Branch review'' ReadOnly evaluate_allowlist True False False
        else None),
      submit_key_of = (\<lambda>goal. goal), requires_submit = (\<lambda>goal. goal = ''branch-review''), clarification_gate = no_gate\<rparr>"

definition review_next_goal :: "string \<Rightarrow> string option" where
  "review_next_goal state =
     (if state \<in> set [''Init'', ''Inspect''] then Some ''inspect''
      else if state = ''BranchReview'' then Some ''branch-review''
      else if state = ''Failed'' then None
      else Some ''inspect'')"

definition review_graph :: "surroundings \<Rightarrow> 'v backend \<Rightarrow> 'v recipe_graph" where
  "review_graph h b =
     map_option (\<lambda>ts. line_graph ''review'' (ts @ [end_task ''end''])
         [(''inspect'', ''branch-review''), (''branch-review'', ''end'')])
       (invoke_tasks h b review_goals [''inspect'', ''branch-review''])"

subsection \<open>merge-pr\<close>

definition merge_pr_goals :: recipe_goals where
  "merge_pr_goals =
     \<lparr>goal_hints_of = (\<lambda>goal.
        if goal = ''analyze'' then hints ''Analyze merge feasibility'' ReadOnly evaluate_allowlist True False False
        else if goal = ''sync-main'' then hints ''Sync with main'' AcceptEdits merge_pr_allowlist True False False
        else if goal = ''finalize'' then hints ''Finalize merge / push'' AcceptEdits merge_pr_allowlist True False False
        else None),
      submit_key_of = (\<lambda>goal. if goal = ''finalize'' then ''merge-pr-report''
                              else if goal = ''analyze'' then ''merge-pr-analyze'' else goal),
      requires_submit = (\<lambda>goal. goal = ''finalize''), clarification_gate = no_gate\<rparr>"

definition merge_pr_next_goal :: "string \<Rightarrow> string option" where
  "merge_pr_next_goal state =
     (if state \<in> set [''Init'', ''Analyze''] then Some ''analyze''
      else if state = ''SyncMain'' then Some ''sync-main''
      else if state = ''Finalize'' then Some ''finalize''
      else if state = ''Failed'' then None
      else Some ''analyze'')"

definition merge_pr_graph :: "surroundings \<Rightarrow> 'v backend \<Rightarrow> 'v recipe_graph" where
  "merge_pr_graph h b =
     map_option (\<lambda>ts. line_graph ''merge_pr_workflow'' (ts @ [end_task ''end''])
         [(''analyze'', ''sync-main''), (''sync-main'', ''finalize''), (''finalize'', ''end'')])
       (invoke_tasks h b merge_pr_goals [''analyze'', ''sync-main'', ''finalize''])"

subsection \<open>free-prompting\<close>

definition free_prompting_goals :: recipe_goals where
  "free_prompting_goals =
     \<lparr>goal_hints_of = (\<lambda>goal. if goal = ''prompting'' then hints ''Prompting'' AcceptEdits [] True False False else None),
      submit_key_of = (\<lambda>goal. goal), requires_submit = (\<lambda>goal. goal \<noteq> ''prompting''), clarification_gate = no_gate\<rparr>"

definition free_prompting_next_goal :: "string \<Rightarrow> string option" where
  "free_prompting_next_goal state =
     (if state \<in> set [''Init'', ''Prompting''] then Some ''prompting''
      else if state = ''Failed'' then None
      else Some ''prompting'')"

definition free_prompting_graph :: "surroundings \<Rightarrow> 'v backend \<Rightarrow> 'v recipe_graph" where
  "free_prompting_graph h b =
     map_option (\<lambda>ts. line_graph ''free_prompting'' (ts)
         [])
       (invoke_tasks h b free_prompting_goals [''prompting''])"

text \<open>The status a state is shown with by the recipes that only tell a failure apart.\<close>

definition plain_status :: "string \<Rightarrow> string" where
  "plain_status state = (if state = ''Failed'' then ''Failed'' else ''Active'')"

subsection \<open>pr-stack\<close>

definition pr_stack_goals :: recipe_goals where
  "pr_stack_goals =
     \<lparr>goal_hints_of = (\<lambda>goal.
        if goal = ''analyze-stack'' then hints ''Analyze stack'' ReadOnly [] True True False
        else if goal = ''write-stack-plan'' then hints ''Write stack plan'' ReadOnly [] True False True
        else if goal = ''write-stack-docs'' then hints ''Write stack docs'' ReadOnly [] True False True
        else if goal = ''orchestrate'' then hints ''Orchestrate stack'' AcceptEdits (pr_stack_tool_names @ [''Agent'']) True False False
        else None),
      submit_key_of = (\<lambda>goal. goal), requires_submit = (\<lambda>goal. goal \<in> {''write-stack-plan'', ''write-stack-docs''}),
      clarification_gate = no_gate\<rparr>"

definition pr_stack_next_goal :: "string \<Rightarrow> string option" where
  "pr_stack_next_goal state =
     (if state \<in> set [''Init'', ''AnalyzeStack''] then Some ''analyze-stack''
      else if state = ''WriteStackPlan'' then Some ''write-stack-plan''
      else if state = ''StackPlanned'' then Some ''write-stack-docs''
      else if state \<in> set [''done'', ''Done'', ''failed'', ''Failed''] then None
      else Some ''orchestrate'')"

definition pr_stack_next_goal_with_changeset :: "string \<Rightarrow> changeset \<Rightarrow> string option" where
  "pr_stack_next_goal_with_changeset state cs =
     (if state = ''Init'' \<and> (case cs_stack cs of Some s \<Rightarrow> nodes s \<noteq> [] | None \<Rightarrow> False) then Some ''orchestrate''
      else pr_stack_next_goal state)"

definition pr_stack_status :: "string \<Rightarrow> string" where
  "pr_stack_status state =
     (if state \<in> set [''failed'', ''Failed''] then ''Failed''
      else if state \<in> set [''done'', ''Done''] then ''Completed''
      else ''Active'')"

definition pr_stack_graph :: "surroundings \<Rightarrow> 'v backend \<Rightarrow> 'v recipe_graph" where
  "pr_stack_graph h b =
     map_option (\<lambda>ts. line_graph ''pr_stack'' (ts)
         [(''analyze-stack'', ''write-stack-plan''), (''write-stack-plan'', ''write-stack-docs''), (''write-stack-docs'', ''orchestrate'')])
       (invoke_tasks h b pr_stack_goals [''analyze-stack'', ''write-stack-plan'', ''write-stack-docs'', ''orchestrate''])"

section \<open>Names\<close>

record 'v recipe =
  recipe_name :: string
  recipe_goal_ids :: "string list"
  recipe_goals_of :: recipe_goals
  recipe_next_goal :: "string \<Rightarrow> changeset \<Rightarrow> string option"
  recipe_start_goal :: string
  recipe_initial_state :: string
  recipe_plan_refinement_goal :: string
  recipe_status :: "string \<Rightarrow> string"
  recipe_skip :: "string \<Rightarrow> string \<Rightarrow> bool"
  recipe_build_graph :: "surroundings \<Rightarrow> 'v backend \<Rightarrow> plan_texts \<Rightarrow> 'v recipe_graph"

definition tdd_recipe :: "'v recipe" where
  "tdd_recipe =
     \<lparr>recipe_name = ''tdd'', recipe_goal_ids = [''interview'', ''plan'', ''acceptance-tests'', ''red'', ''green'', ''demo'', ''evaluate'', ''validate'', ''refactor'', ''update-docs''],
      recipe_goals_of = tdd_goals, recipe_next_goal = (\<lambda>state cs. tdd_next_goal state), recipe_start_goal = ''interview'', recipe_initial_state = ''Interview'',
      recipe_plan_refinement_goal = ''plan'', recipe_status = tdd_status, recipe_skip = tdd_skip, recipe_build_graph = build_full_tdd_workflow_graph\<rparr>"

definition tdd_small_recipe :: "'v recipe" where
  "tdd_small_recipe =
     \<lparr>recipe_name = ''tdd-small'', recipe_goal_ids = [''plan'', ''red'', ''green'', ''post-green-review'', ''refactor'', ''update-docs''],
      recipe_goals_of = tdd_small_goals, recipe_next_goal = (\<lambda>state cs. tdd_small_next_goal state), recipe_start_goal = ''plan'', recipe_initial_state = ''Init'',
      recipe_plan_refinement_goal = ''plan'', recipe_status = tdd_small_status, recipe_skip = (\<lambda>_ goal. goal = ''plan''), recipe_build_graph = build_tdd_small_workflow_graph\<rparr>"

definition bugfix_recipe :: "json \<Rightarrow> 'v recipe" where
  "bugfix_recipe question =
     \<lparr>recipe_name = ''bugfix'', recipe_goal_ids = [''interview'', ''analyze'', ''reproduce''],
      recipe_goals_of = bugfix_goals question, recipe_next_goal = (\<lambda>state cs. bugfix_next_goal state), recipe_start_goal = ''interview'', recipe_initial_state = ''Interview'',
      recipe_plan_refinement_goal = ''analyze'', recipe_status = bugfix_status, recipe_skip = (\<lambda>_ goal. goal = ''interview''), recipe_build_graph = (\<lambda>h b p. bugfix_graph question h b)\<rparr>"

definition grill_me_recipe :: "json \<Rightarrow> 'v recipe" where
  "grill_me_recipe question =
     \<lparr>recipe_name = ''grill-me'', recipe_goal_ids = [''grill'', ''create-plan''],
      recipe_goals_of = grill_me_goals question, recipe_next_goal = (\<lambda>state cs. grill_me_next_goal state), recipe_start_goal = ''grill'', recipe_initial_state = ''Grill'',
      recipe_plan_refinement_goal = ''create-plan'', recipe_status = plain_status, recipe_skip = (\<lambda>_ goal. goal = ''grill''), recipe_build_graph = (\<lambda>h b p. grill_me_graph question h b)\<rparr>"

definition review_recipe :: "'v recipe" where
  "review_recipe =
     \<lparr>recipe_name = ''review'', recipe_goal_ids = [''inspect'', ''branch-review''],
      recipe_goals_of = review_goals, recipe_next_goal = (\<lambda>state cs. review_next_goal state), recipe_start_goal = ''inspect'', recipe_initial_state = ''Inspect'',
      recipe_plan_refinement_goal = ''branch-review'', recipe_status = plain_status, recipe_skip = (\<lambda>_ goal. goal = ''inspect''), recipe_build_graph = (\<lambda>h b p. review_graph h b)\<rparr>"

definition merge_pr_recipe :: "'v recipe" where
  "merge_pr_recipe =
     \<lparr>recipe_name = ''merge-pr'', recipe_goal_ids = [''analyze'', ''sync-main'', ''finalize''],
      recipe_goals_of = merge_pr_goals, recipe_next_goal = (\<lambda>state cs. merge_pr_next_goal state), recipe_start_goal = ''analyze'', recipe_initial_state = ''Analyze'',
      recipe_plan_refinement_goal = ''finalize'', recipe_status = plain_status, recipe_skip = (\<lambda>_ goal. goal = ''analyze''), recipe_build_graph = (\<lambda>h b p. merge_pr_graph h b)\<rparr>"

definition free_prompting_recipe :: "'v recipe" where
  "free_prompting_recipe =
     \<lparr>recipe_name = ''free-prompting'', recipe_goal_ids = [''prompting''],
      recipe_goals_of = free_prompting_goals, recipe_next_goal = (\<lambda>state cs. free_prompting_next_goal state), recipe_start_goal = ''prompting'', recipe_initial_state = ''Prompting'',
      recipe_plan_refinement_goal = ''prompting'', recipe_status = plain_status, recipe_skip = (\<lambda>_ goal. goal = ''prompting''), recipe_build_graph = (\<lambda>h b p. free_prompting_graph h b)\<rparr>"

definition pr_stack_recipe :: "'v recipe" where
  "pr_stack_recipe =
     \<lparr>recipe_name = ''pr-stack'', recipe_goal_ids = [''analyze-stack'', ''write-stack-plan'', ''write-stack-docs'', ''orchestrate''],
      recipe_goals_of = pr_stack_goals, recipe_next_goal = pr_stack_next_goal_with_changeset, recipe_start_goal = ''analyze-stack'', recipe_initial_state = ''AnalyzeStack'',
      recipe_plan_refinement_goal = ''write-stack-plan'', recipe_status = pr_stack_status, recipe_skip = (\<lambda>_ goal. goal = ''analyze-stack''), recipe_build_graph = (\<lambda>h b p. pr_stack_graph h b)\<rparr>"

definition supported_workflow_recipe_cli_names :: "string list" where
  "supported_workflow_recipe_cli_names =
     [''tdd'', ''bugfix'', ''free-prompting'', ''grill-me'', ''tdd-small'', ''review'', ''merge-pr'', ''pr-stack'', ''plan-pr-stack'',
      ''orchestrate-pr-stack'']"

definition unknown_workflow_recipe_error :: "(string \<Rightarrow> string) \<Rightarrow> string \<Rightarrow> string" where
  "unknown_workflow_recipe_error debug name =
     ''unknown workflow recipe '' @ debug name @ '' (expected one of: '' @
     join_with '', '' (map (\<lambda>n. [CHR 0x22] @ n @ [CHR 0x22]) supported_workflow_recipe_cli_names) @ '')''"

definition recipe_should_skip_session_document_approval :: "string \<Rightarrow> bool" where
  "recipe_should_skip_session_document_approval name \<longleftrightarrow>
     trim name \<in> set [''free-prompting'', ''grill-me'', ''review'', ''merge-pr'', ''pr-stack'', ''plan-pr-stack'', ''orchestrate-pr-stack'']"

definition resolve_workflow_recipe_from_cli_name ::
    "(string \<Rightarrow> string) \<Rightarrow> json \<Rightarrow> string \<Rightarrow> string + 'v recipe" where
  "resolve_workflow_recipe_from_cli_name debug question name =
     (let n = trim name
      in if n \<in> set [[], ''tdd''] then Inr tdd_recipe
         else if n = ''bugfix'' then Inr (bugfix_recipe question)
         else if n = ''free-prompting'' then Inr free_prompting_recipe
         else if n = ''grill-me'' then Inr (grill_me_recipe question)
         else if n = ''tdd-small'' then Inr tdd_small_recipe
         else if n = ''review'' then Inr review_recipe
         else if n = ''merge-pr'' then Inr merge_pr_recipe
         else if n \<in> set [''pr-stack'', ''plan-pr-stack'', ''orchestrate-pr-stack''] then Inr pr_stack_recipe
         else Inl (unknown_workflow_recipe_error debug n))"

section \<open>Where a stored session continues\<close>

text \<open>The walk over the history, newest first: the first transition that names a goal worth retrying, and whether a trailing
  planning phase of \<open>tdd\<close> was passed over.\<close>

fun resume_walk :: "'v recipe \<Rightarrow> changeset \<Rightarrow> string list \<Rightarrow> bool \<Rightarrow> string option \<times> bool" where
  "resume_walk r cs [] skipped = (None, skipped)"
| "resume_walk r cs (state # older) skipped =
     (if state = ''Failed'' then resume_walk r cs older skipped
      else
        (case recipe_next_goal r state cs of
           None \<Rightarrow> resume_walk r cs older skipped
         | Some g \<Rightarrow>
             if recipe_skip r state g
             then resume_walk r cs older (skipped \<or> recipe_name r = ''tdd'' \<and> state = ''Planning'' \<and> g = ''plan'')
             else (Some g, skipped)))"

definition start_goal_for_session_continue :: "'v recipe \<Rightarrow> changeset \<Rightarrow> string" where
  "start_goal_for_session_continue r cs =
     (let current = st_current (cs_state cs); history = map tr_state (st_history (cs_state cs))
      in if \<not> (current = ''Failed'' \<or> (history \<noteq> [] \<and> last history = ''Failed''))
         then (case recipe_next_goal r current cs of Some g \<Rightarrow> g | None \<Rightarrow> recipe_start_goal r)
         else
           (case resume_walk r cs (rev history) False of
              (Some g, _) \<Rightarrow> g
            | (None, skipped) \<Rightarrow> if recipe_name r = ''tdd'' \<and> skipped then ''plan'' else recipe_start_goal r))"

section \<open>The shipped graphs\<close>

definition tame :: "'w task \<Rightarrow> bool" where
  "tame t \<longleftrightarrow> (\<forall>tid. \<not> jumps_to t tid)"

lemma tame_end [simp]: "tame (end_task k)"
  by (simp add: tame_def)

definition stays_put :: "('v, task_result) turn \<Rightarrow> bool" where
  "stays_put m \<longleftrightarrow> (\<forall>st res st' tid. m st = (Inr res, st') \<longrightarrow> tr_next_action res \<noteq> GoTo tid)"

lemma stays_put_intros:
  "(\<And>a. stays_put (f a)) \<Longrightarrow> stays_put (and_then m f)" "stays_put (fail e)"
  "(\<And>tid. tr_next_action res \<noteq> GoTo tid) \<Longrightarrow> stays_put (ret res)"
  "stays_put x \<Longrightarrow> stays_put y \<Longrightarrow> stays_put (if c then x else y)"
  "(\<And>a. stays_put (g a)) \<Longrightarrow> stays_put x \<Longrightarrow> stays_put (case z of Some a \<Rightarrow> g a | None \<Rightarrow> x)"
proof -
  show "(\<And>a. stays_put (f a)) \<Longrightarrow> stays_put (and_then m f)"
    unfolding stays_put_def and_then_Inr by blast
qed (auto simp: stays_put_def io_simps split: option.splits)

lemma plan_attempts_stay: "stays_put (plan_attempts b r p hs session od sd bound base att n)"
  by (induction n arbitrary: att)
    (auto simp: finish_plan_def needs_input_def intro!: stays_put_intros)

lemma plan_run_stays: "stays_put (plan_run b r p)"
  unfolding plan_run_def Let_def by (auto intro!: stays_put_intros plan_attempts_stay)

lemma tame_plan [simp]: "tame (plan_task b r p)"
  using plan_run_stays [of b r p] unfolding tame_def jumps_to_def plan_task_def stays_put_def task.select_convs by blast

lemma tame_invoke [simp]: "tame (backend_invoke_task h it)" "task_id (backend_invoke_task h it) = it_id it"
  using invoke_task_no_jumps by (auto simp: tame_def) (simp add: backend_invoke_task_def)

lemma from_recipe_task:
  "from_recipe h b r goal = Some t \<Longrightarrow> task_id t = goal \<and> tame t"
  by (auto simp: from_recipe_def split: option.splits)

lemma invoke_tasks_built:
  assumes "\<forall>goal \<in> set goals. goal_hints_of r goal \<noteq> None"
  shows "\<exists>ts. invoke_tasks h b r goals = Some ts \<and> map task_id ts = goals \<and> list_all tame ts"
  using assms
proof (induction goals)
  case (Cons goal goals)
  then obtain t ts where "from_recipe h b r goal = Some t" "invoke_tasks h b r goals = Some ts" "map task_id ts = goals" "list_all tame ts"
    by (auto simp: from_recipe_def)
  then show ?case using from_recipe_task by (fastforce simp: invoke_tasks_def)
qed (simp add: invoke_tasks_def)

text \<open>A graph whose tasks are those listed, whose edges lead from a task to a later one of the list, and whose tasks do not jump.\<close>

definition rank_in :: "string list \<Rightarrow> string \<Rightarrow> nat" where
  "rank_in order k = length (dropWhile (\<lambda>x. x \<noteq> k) order)"

definition sound_graph :: "'w flow_graph \<Rightarrow> string list \<Rightarrow> bool" where
  "sound_graph g ids \<longleftrightarrow> closed_flow g \<and> descends g (rank_in ids) \<and> (\<forall>k. has_task g k \<longleftrightarrow> k \<in> set ids)"

lemma fold_add_task:
  "graph_edges (fold add_task ts g) = graph_edges g" "conditional_edges (fold add_task ts g) = conditional_edges g"
  "fst ` set (graph_tasks (fold add_task ts g)) = fst ` set (graph_tasks g) \<union> task_id ` set ts"
  "snd ` set (graph_tasks (fold add_task ts g)) \<subseteq> snd ` set (graph_tasks g) \<union> set ts"
proof (induction ts arbitrary: g)
  case (Cons t ts)
  have "fst ` set (AList.update k v xs) = insert k (fst ` set xs)" for k :: string and v :: "'a task" and xs
    using dom_update [of k v xs] by (simp add: dom_map_of_conv_image_fst)
  moreover have "snd ` set (AList.update k v xs) \<subseteq> insert v (snd ` set xs)" for k :: string and v :: "'a task" and xs
    by (induction xs) auto
  ultimately have add: "fst ` set (graph_tasks (add_task t g)) = insert (task_id t) (fst ` set (graph_tasks g))"
      "snd ` set (graph_tasks (add_task t g)) \<subseteq> insert t (snd ` set (graph_tasks g))"
      "graph_edges (add_task t g) = graph_edges g" "conditional_edges (add_task t g) = conditional_edges g"
    for g by (simp_all add: add_task_def)
  { case 1 show ?case using Cons.IH(1) add by simp }
  { case 2 show ?case using Cons.IH(2) add by simp }
  { case 3 show ?case using Cons.IH(3) [of "add_task t g"] add by simp }
  { case 4
    have "snd ` set (graph_tasks (fold add_task (t # ts) g)) \<subseteq> snd ` set (graph_tasks (add_task t g)) \<union> set ts"
      using Cons.IH(4) [of "add_task t g"] by simp
    also have "\<dots> \<subseteq> insert t (snd ` set (graph_tasks g)) \<union> set ts" using add(2) [of g] by blast
    also have "\<dots> = snd ` set (graph_tasks g) \<union> set (t # ts)" by simp
    finally show ?case . }
qed simp_all

lemma fold_add_edge:
  "graph_edges (fold (\<lambda>(f, t). add_edge f t) es g) = graph_edges g @ es"
  "graph_tasks (fold (\<lambda>(f, t). add_edge f t) es g) = graph_tasks g"
  "conditional_edges (fold (\<lambda>(f, t). add_edge f t) es g) = conditional_edges g"
  by (induction es arbitrary: g) (auto simp: add_edge_def)

lemma line_graph_parts:
  "graph_edges (line_graph gid ts es) = es" "conditional_edges (line_graph gid ts es) = []"
  "fst ` set (graph_tasks (line_graph gid ts es)) = task_id ` set ts"
  "snd ` set (graph_tasks (line_graph gid ts es)) \<subseteq> set ts"
  using fold_add_task [of ts "new_graph gid"] by (simp_all add: line_graph_def fold_add_edge new_graph_def)

lemma sound_graphI:
  assumes "fst ` set (graph_tasks g) = set ids" and "\<And>t. t \<in> snd ` set (graph_tasks g) \<Longrightarrow> tame t"
    and "\<And>a b. b \<in> edge_targets g a \<Longrightarrow> b \<in> set ids \<and> rank_in ids b < rank_in ids a"
  shows "sound_graph g ids"
proof -
  have tasks: "has_task g k \<longleftrightarrow> k \<in> set ids" for k
    using assms(1) by (auto simp: has_task_def)
  have moves: "b \<in> edge_targets g a" if "moves g a b" for a b
    using that assms(2) unfolding moves_def tame_def get_task_def by (force dest: map_of_SomeD)
  show ?thesis
    unfolding sound_graph_def closed_flow_def descends_def using tasks moves assms(3) by blast
qed

lemma line_graph_sound:
  assumes "list_all tame ts" and "map task_id ts = ids"
    and "list_all (\<lambda>(a, b). b \<in> set ids \<and> rank_in ids b < rank_in ids a) es"
  shows "sound_graph (line_graph gid ts es) ids"
proof (rule sound_graphI)
  show "fst ` set (graph_tasks (line_graph gid ts es)) = set ids"
    unfolding line_graph_parts assms(2) [symmetric] by simp
  show "t \<in> snd ` set (graph_tasks (line_graph gid ts es)) \<Longrightarrow> tame t" for t
    using line_graph_parts(4) [of gid ts es] assms(1) by (auto simp: list_all_iff)
  show "b \<in> edge_targets (line_graph gid ts es) a \<Longrightarrow> b \<in> set ids \<and> rank_in ids b < rank_in ids a" for a b
    using assms(3) by (auto simp: edge_targets_def line_graph_parts list_all_iff)
qed

text \<open>What is asked of a recipe: it builds a sound graph, and its goals, among them every goal it resumes at, are tasks of it.\<close>

definition recipe_ok :: "'v recipe \<Rightarrow> bool" where
  "recipe_ok r \<longleftrightarrow>
     (\<forall>h b p. \<exists>g ids. recipe_build_graph r h b p = Some g \<and> sound_graph g ids \<and> set (recipe_goal_ids r) \<subseteq> set ids \<and>
        set ids \<subseteq> insert ''end'' (set (recipe_goal_ids r))) \<and>
     recipe_start_goal r \<in> set (recipe_goal_ids r) \<and> recipe_plan_refinement_goal r \<in> set (recipe_goal_ids r) \<and>
     (\<forall>state cs goal. recipe_next_goal r state cs = Some goal \<longrightarrow> goal \<in> set (recipe_goal_ids r)) \<and>
     (recipe_name r = ''tdd'' \<longrightarrow> ''plan'' \<in> set (recipe_goal_ids r))"

lemma if_SomeE: "(if c then x else y) = Some a \<Longrightarrow> (x = Some a \<Longrightarrow> P) \<Longrightarrow> (y = Some a \<Longrightarrow> P) \<Longrightarrow> P"
  by (simp split: if_splits)

lemma built_graph:
  assumes "list_all (\<lambda>goal. goal_hints_of r goal \<noteq> None) goals" and "list_all tame front" and "list_all tame back"
    and "ids = map task_id front @ goals @ map task_id back"
    and "list_all (\<lambda>(a, c). c \<in> set ids \<and> rank_in ids c < rank_in ids a) es"
  shows "\<exists>g. map_option (\<lambda>ts. line_graph gid (front @ ts @ back) es) (invoke_tasks h b r goals) = Some g \<and> sound_graph g ids"
proof -
  obtain ts where ts: "invoke_tasks h b r goals = Some ts" "map task_id ts = goals" "list_all tame ts"
    using invoke_tasks_built [of goals r h b] assms(1) by (auto simp: list_all_iff)
  have "sound_graph (line_graph gid (front @ ts @ back) es) ids"
    by (rule line_graph_sound) (use assms(2-5) ts in simp_all)
  then show ?thesis using ts by simp
qed

lemma built_open:
  assumes "list_all (\<lambda>goal. goal_hints_of r goal \<noteq> None) goals" and "ids = goals"
    and "list_all (\<lambda>(a, c). c \<in> set ids \<and> rank_in ids c < rank_in ids a) es"
  shows "\<exists>g. map_option (\<lambda>ts. line_graph gid ts es) (invoke_tasks h b r goals) = Some g \<and> sound_graph g ids"
  using built_graph [of r goals "[]" "[]" ids es gid h b] assms by simp

lemma built_ended:
  assumes "list_all (\<lambda>goal. goal_hints_of r goal \<noteq> None) goals" and "ids = goals @ [''end'']"
    and "list_all (\<lambda>(a, c). c \<in> set ids \<and> rank_in ids c < rank_in ids a) es"
  shows "\<exists>g. map_option (\<lambda>ts. line_graph gid (ts @ [end_task ''end'']) es) (invoke_tasks h b r goals) = Some g \<and> sound_graph g ids"
  using built_graph [of r goals "[]" "[end_task ''end'']" ids es gid h b] assms by simp

lemma recipe_okI:
  assumes "\<And>h b p. \<exists>g. recipe_build_graph r h b p = Some g \<and> sound_graph g ids"
    and "set (recipe_goal_ids r) \<subseteq> set ids" and "set ids \<subseteq> insert ''end'' (set (recipe_goal_ids r))"
    and "recipe_start_goal r \<in> set (recipe_goal_ids r)" and "recipe_plan_refinement_goal r \<in> set (recipe_goal_ids r)"
    and "\<And>state cs goal. recipe_next_goal r state cs = Some goal \<Longrightarrow> goal \<in> set (recipe_goal_ids r)"
    and "recipe_name r = ''tdd'' \<Longrightarrow> ''plan'' \<in> set (recipe_goal_ids r)"
  shows "recipe_ok r"
  unfolding recipe_ok_def using assms by blast

lemma grill_me_ok: "recipe_ok (grill_me_recipe question)"
proof (rule recipe_okI)
  show "\<exists>g. recipe_build_graph (grill_me_recipe question) h b p = Some g \<and> sound_graph g [''grill'', ''create-plan'', ''end'']" for h b p
    unfolding grill_me_recipe_def recipe.select_convs grill_me_graph_def
    by (rule built_ended) (simp_all add: grill_me_goals_def hints_def rank_in_def)
  show "recipe_next_goal (grill_me_recipe question) state cs = Some goal \<Longrightarrow> goal \<in> set (recipe_goal_ids (grill_me_recipe question))" for state cs goal
    unfolding grill_me_recipe_def recipe.select_convs grill_me_next_goal_def by (elim if_SomeE) simp_all
qed (simp_all add: grill_me_recipe_def)

lemma bugfix_ok: "recipe_ok (bugfix_recipe question)"
proof (rule recipe_okI)
  show "\<exists>g. recipe_build_graph (bugfix_recipe question) h b p = Some g \<and> sound_graph g [''interview'', ''analyze'', ''reproduce'', ''end'']" for h b p
    unfolding bugfix_recipe_def recipe.select_convs bugfix_graph_def
    by (rule built_ended) (simp_all add: bugfix_goals_def hints_def rank_in_def)
  show "recipe_next_goal (bugfix_recipe question) state cs = Some goal \<Longrightarrow> goal \<in> set (recipe_goal_ids (bugfix_recipe question))" for state cs goal
    unfolding bugfix_recipe_def recipe.select_convs bugfix_next_goal_def by (elim if_SomeE) simp_all
qed (simp_all add: bugfix_recipe_def)

lemma review_ok: "recipe_ok (review_recipe)"
proof (rule recipe_okI)
  show "\<exists>g. recipe_build_graph (review_recipe) h b p = Some g \<and> sound_graph g [''inspect'', ''branch-review'', ''end'']" for h b p
    unfolding review_recipe_def recipe.select_convs review_graph_def
    by (rule built_ended) (simp_all add: review_goals_def hints_def rank_in_def)
  show "recipe_next_goal (review_recipe) state cs = Some goal \<Longrightarrow> goal \<in> set (recipe_goal_ids (review_recipe))" for state cs goal
    unfolding review_recipe_def recipe.select_convs review_next_goal_def by (elim if_SomeE) simp_all
qed (simp_all add: review_recipe_def)

lemma merge_pr_ok: "recipe_ok (merge_pr_recipe)"
proof (rule recipe_okI)
  show "\<exists>g. recipe_build_graph (merge_pr_recipe) h b p = Some g \<and> sound_graph g [''analyze'', ''sync-main'', ''finalize'', ''end'']" for h b p
    unfolding merge_pr_recipe_def recipe.select_convs merge_pr_graph_def
    by (rule built_ended) (simp_all add: merge_pr_goals_def hints_def rank_in_def)
  show "recipe_next_goal (merge_pr_recipe) state cs = Some goal \<Longrightarrow> goal \<in> set (recipe_goal_ids (merge_pr_recipe))" for state cs goal
    unfolding merge_pr_recipe_def recipe.select_convs merge_pr_next_goal_def by (elim if_SomeE) simp_all
qed (simp_all add: merge_pr_recipe_def)

lemma free_prompting_ok: "recipe_ok (free_prompting_recipe)"
proof (rule recipe_okI)
  show "\<exists>g. recipe_build_graph (free_prompting_recipe) h b p = Some g \<and> sound_graph g [''prompting'']" for h b p
    unfolding free_prompting_recipe_def recipe.select_convs free_prompting_graph_def
    by (rule built_open) (simp_all add: free_prompting_goals_def hints_def rank_in_def)
  show "recipe_next_goal (free_prompting_recipe) state cs = Some goal \<Longrightarrow> goal \<in> set (recipe_goal_ids (free_prompting_recipe))" for state cs goal
    unfolding free_prompting_recipe_def recipe.select_convs free_prompting_next_goal_def by (elim if_SomeE) simp_all
qed (simp_all add: free_prompting_recipe_def)

lemma pr_stack_ok: "recipe_ok (pr_stack_recipe)"
proof (rule recipe_okI)
  show "\<exists>g. recipe_build_graph (pr_stack_recipe) h b p = Some g \<and> sound_graph g [''analyze-stack'', ''write-stack-plan'', ''write-stack-docs'', ''orchestrate'']" for h b p
    unfolding pr_stack_recipe_def recipe.select_convs pr_stack_graph_def
    by (rule built_open) (simp_all add: pr_stack_goals_def hints_def rank_in_def)
  show "recipe_next_goal (pr_stack_recipe) state cs = Some goal \<Longrightarrow> goal \<in> set (recipe_goal_ids (pr_stack_recipe))" for state cs goal
    unfolding pr_stack_recipe_def recipe.select_convs pr_stack_next_goal_with_changeset_def pr_stack_next_goal_def by (elim if_SomeE) simp_all
qed (simp_all add: pr_stack_recipe_def)

lemma task_id_plan [simp]: "task_id (plan_task b r p) = ''plan''"
  by (simp add: plan_task_def)

lemma tdd_small_ok: "recipe_ok tdd_small_recipe"
proof (rule recipe_okI)
  show "\<exists>g. recipe_build_graph tdd_small_recipe h b p = Some g \<and>
      sound_graph g [''plan'', ''red'', ''green'', ''post-green-review'', ''refactor'', ''update-docs'', ''end'']" for h b p
    unfolding tdd_small_recipe_def recipe.select_convs build_tdd_small_workflow_graph_def
    by (rule built_graph) (simp_all add: tdd_small_goals_def tdd_small_goal_hints_def hints_def rank_in_def)
  show "recipe_next_goal tdd_small_recipe state cs = Some goal \<Longrightarrow> goal \<in> set (recipe_goal_ids tdd_small_recipe)" for state cs goal
    unfolding tdd_small_recipe_def recipe.select_convs tdd_small_next_goal_def by (elim if_SomeE) simp_all
qed (simp_all add: tdd_small_recipe_def)

lemma conditional_sound:
  assumes "list_all tame ts" and "map task_id ts = ids"
    and "list_all (\<lambda>(a, c). c \<in> set ids \<and> rank_in ids c < rank_in ids a) ((f, t) # (f, e) # es)"
  shows "sound_graph (add_conditional_edge f cond t e (line_graph gid ts es)) ids"
proof (rule sound_graphI)
  show "fst ` set (graph_tasks (add_conditional_edge f cond t e (line_graph gid ts es))) = set ids"
    unfolding assms(2) [symmetric] by (simp add: add_conditional_edge_def line_graph_parts)
  show "u \<in> snd ` set (graph_tasks (add_conditional_edge f cond t e (line_graph gid ts es))) \<Longrightarrow> tame u" for u
    using line_graph_parts(4) [of gid ts es] assms(1) by (auto simp: add_conditional_edge_def list_all_iff)
  show "b \<in> edge_targets (add_conditional_edge f cond t e (line_graph gid ts es)) a \<Longrightarrow> b \<in> set ids \<and> rank_in ids b < rank_in ids a"
    for a b
    using assms(3) by (auto simp: edge_targets_def add_conditional_edge_def line_graph_parts list_all_iff)
qed

lemma tdd_ok: "recipe_ok tdd_recipe"
proof (rule recipe_okI)
  let ?goals = "[''acceptance-tests'', ''red'', ''green'', ''demo'', ''evaluate'', ''validate'', ''refactor'', ''update-docs'']"
  let ?ids = "[''interview'', ''plan''] @ ?goals @ [''end'']"
  let ?es = "[(''interview'', ''plan''), (''plan'', ''acceptance-tests''), (''acceptance-tests'', ''red''), (''red'', ''green''),
               (''demo'', ''evaluate''), (''evaluate'', ''validate''), (''validate'', ''refactor''), (''refactor'', ''update-docs''),
               (''update-docs'', ''end'')]"
  fix h p and b :: "'a backend"
  have "\<exists>i. from_recipe h b tdd_goals ''interview'' = Some i"
    by (simp add: from_recipe_def tdd_goals_def tdd_goal_hints_def hints_def)
  then obtain i where i: "from_recipe h b tdd_goals ''interview'' = Some i" "task_id i = ''interview''" "tame i"
    using from_recipe_task by blast
  have "\<forall>goal \<in> set ?goals. goal_hints_of tdd_goals goal \<noteq> None"
    by (simp add: tdd_goals_def tdd_goal_hints_def hints_def)
  from invoke_tasks_built [OF this, of h b]
  obtain ts where ts: "invoke_tasks h b tdd_goals ?goals = Some ts" "map task_id ts = ?goals" "list_all tame ts"
    by (elim exE conjE)
  have "sound_graph (add_conditional_edge ''green'' (\<lambda>ctx. flag ctx ''run_optional_step_x'' False) ''demo'' ''evaluate''
      (line_graph ''tdd_full_workflow'' ([i, plan_task b tdd_goals p] @ ts @ [end_task ''end'']) ?es)) ?ids"
    by (rule conditional_sound) (use i ts in \<open>simp_all add: rank_in_def\<close>)
  then show "\<exists>g. recipe_build_graph tdd_recipe h b p = Some g \<and> sound_graph g ?ids"
    using i ts by (simp add: tdd_recipe_def build_full_tdd_workflow_graph_def)
next
  show "recipe_next_goal tdd_recipe state cs = Some goal \<Longrightarrow> goal \<in> set (recipe_goal_ids tdd_recipe)" for state cs goal
    unfolding tdd_recipe_def recipe.select_convs tdd_next_goal_def by (elim if_SomeE) simp_all
qed (simp_all add: tdd_recipe_def)

lemma resolved_ok: "resolve_workflow_recipe_from_cli_name debug question name = Inr r \<Longrightarrow> recipe_ok r"
  unfolding resolve_workflow_recipe_from_cli_name_def Let_def
  by (auto simp: tdd_ok bugfix_ok free_prompting_ok grill_me_ok tdd_small_ok review_ok merge_pr_ok pr_stack_ok split: if_splits)

lemma resume_walk_goal:
  assumes "recipe_ok r" and "resume_walk r cs states skipped = (Some g, skipped')"
  shows "g \<in> set (recipe_goal_ids r)"
  using assms(2)
proof (induction states arbitrary: skipped)
  case (Cons state states)
  then show ?case using assms(1) by (auto simp: recipe_ok_def split: if_splits option.splits)
qed simp

lemma continue_goal:
  assumes "recipe_ok r"
  shows "start_goal_for_session_continue r cs \<in> set (recipe_goal_ids r)"
proof -
  have goals: "recipe_next_goal r state cs = Some goal \<Longrightarrow> goal \<in> set (recipe_goal_ids r)" "recipe_start_goal r \<in> set (recipe_goal_ids r)"
    "recipe_name r = ''tdd'' \<Longrightarrow> ''plan'' \<in> set (recipe_goal_ids r)" for state goal
    using assms by (auto simp: recipe_ok_def)
  show ?thesis
    unfolding start_goal_for_session_continue_def Let_def
    using goals resume_walk_goal [OF assms] by (auto split: option.splits prod.splits)
qed

text \<open>
  C38. A name resolves if and only if it is one of the supported ones or blank. The recipe it resolves to builds a graph in
  which every edge, every jump, the start goal, the goal of a refinement and the goal at which a stored session
  continues, whatever its history, lead to a task.
\<close>

theorem shipped_recipes_are_closed:
  fixes b :: "'v backend"
  shows "case resolve_workflow_recipe_from_cli_name debug question name of
     Inl e \<Rightarrow> trim name \<notin> set ([] # supported_workflow_recipe_cli_names) \<and> e = unknown_workflow_recipe_error debug (trim name)
   | Inr r \<Rightarrow>
       trim name \<in> set ([] # supported_workflow_recipe_cli_names) \<and>
       (\<exists>g. recipe_build_graph r h b p = Some g \<and> closed_flow g \<and>
          list_all (has_task g) (recipe_goal_ids r) \<and> has_task g (recipe_start_goal r) \<and> has_task g (recipe_plan_refinement_goal r) \<and>
          has_task g (start_goal_for_session_continue r cs))"
proof (cases "resolve_workflow_recipe_from_cli_name debug question name :: string + 'v recipe")
  case (Inl e)
  then show ?thesis
    by (simp add: resolve_workflow_recipe_from_cli_name_def Let_def supported_workflow_recipe_cli_names_def split: if_splits)
next
  case (Inr r)
  have ok: "recipe_ok r" by (rule resolved_ok [OF Inr])
  then obtain g ids where g: "recipe_build_graph r h b p = Some g" "sound_graph g ids" "set (recipe_goal_ids r) \<subseteq> set ids"
    unfolding recipe_ok_def by blast
  have "has_task g k" if "k \<in> set (recipe_goal_ids r)" for k
    using g(2,3) that by (auto simp: sound_graph_def)
  moreover have "trim name \<in> set ([] # supported_workflow_recipe_cli_names)"
    using Inr by (auto simp: resolve_workflow_recipe_from_cli_name_def Let_def supported_workflow_recipe_cli_names_def split: if_splits)
  ultimately show ?thesis
    using Inr g(1,2) ok continue_goal [OF ok] by (auto simp: sound_graph_def recipe_ok_def list_all_iff)
qed

section \<open>Shipped workflows come to an end\<close>

lemma while_paused_answer:
  "run_while_paused rn sid res w = Some ans \<Longrightarrow> ans = (Inr res', w') \<Longrightarrow> er_status res' \<noteq> Paused m"
proof -
  let ?P = "\<lambda>rn sid res w ans. \<forall>res' w' m. ans = (Inr res', w') \<longrightarrow> er_status res' \<noteq> Paused m"
  assume "run_while_paused rn sid res w = Some ans"
  then have "?P rn sid res w ans"
  proof (rule run_while_paused.raw_induct [where P = ?P, rotated])
  qed (auto split: execution_status.splits prod.splits sum.splits)
  then show "ans = (Inr res', w') \<Longrightarrow> er_status res' \<noteq> Paused m" by blast
qed

lemma workflow_answer:
  "run_workflow_from e goal values w = Some (Inr res, w') \<Longrightarrow> er_status res \<noteq> Paused m"
  unfolding run_workflow_from_def by (auto dest: while_paused_answer [OF _ refl] split: prod.splits sum.splits)

text \<open>
  C39. An engine that runs the graph of a shipped recipe, whatever its agent, its hooks and the goal it starts at, returns;
  its answer is an error or a step that is done, waits for input or elicits, never one that merely paused.
\<close>

theorem shipped_workflows_return:
  assumes "resolve_workflow_recipe_from_cli_name debug question name = Inr r"
    and "recipe_build_graph r h b p = Some (runner_graph (engine_runner e))"
    and "disk_ok d" and "runner_storage (engine_runner e) = file_session_storage d base"
  shows "\<exists>ans w'. run_workflow_from e goal values w = Some (ans, w') \<and>
           (case ans of Inl _ \<Rightarrow> True | Inr res \<Rightarrow> \<forall>m. er_status res \<noteq> Paused m)"
proof -
  obtain ids where "sound_graph (runner_graph (engine_runner e)) ids"
    using resolved_ok [OF assms(1)] assms(2) unfolding recipe_ok_def by (metis option.sel)
  then have "descends (runner_graph (engine_runner e)) (rank_in ids)" by (simp add: sound_graph_def)
  from file_storage.workflow_returns [OF assms(3) _ _ this, where base = base]
  obtain ans w' where "run_workflow_from e goal values w = Some (ans, w')"
    using assms(4) by (metis file_storage_ops(1,2) surj_pair)
  then show ?thesis by (cases ans) (auto dest: workflow_answer)
qed

text \<open>A site whose surroundings keep the sessions, and an agent that cannot be started.\<close>

definition site_disk :: "((string \<rightharpoonup> session) site \<times> invoke_request list, session) disk" where
  "site_disk =
     \<lparr>disk_exists = (\<lambda>k w. site_outside (fst w) k \<noteq> None),
      disk_read = (\<lambda>k w. ok_or ''No such file or directory'' (site_outside (fst w) k)),
      disk_mkdirs = (\<lambda>_. ret ()),
      disk_write = (\<lambda>k t w. (Inr (), ((fst w)\<lparr>site_outside := (site_outside (fst w))(k \<mapsto> t)\<rparr>, snd w))),
      disk_remove = (\<lambda>k w. (Inr (), ((fst w)\<lparr>site_outside := (site_outside (fst w))(k := None)\<rparr>, snd w))),
      session_json = Inr, json_session = Inr\<rparr>"

lemma site_disk_ok: "disk_ok site_disk"
  by (auto simp: disk_ok_def site_disk_def ok_or_def)

definition absent_agent :: "'v backend" where
  "absent_agent =
     \<lparr>backend_name = ''stub'', backend_invoke = (\<lambda>_. fail (InvocationFailed ''not found'')), has_submit_channel = False,
      action_invoke_cache_eligible = False\<rparr>"

definition bare_texts :: plan_texts where
  "bare_texts =
     \<lparr>plan_prompt = id, plan_refinement_prompt = (@), plan_followup_prompt = (@), plan_system_prompt = [], plan_remediation = (\<lambda>_. []),
      parse_planning = (\<lambda>_ s. Inr (JStr s)), is_dir = (\<lambda>_ _. True), debug_path = id\<rparr>"

definition bare_host :: surroundings where
  "bare_host =
     \<lparr>host_pid = 1, host_uuid = (\<lambda>_. ''u''), host_cache_env = None,
      host_codec = \<lparr>parse_document = (\<lambda>_. Inl []), print_document = (\<lambda>_. Inl []), enumerate_entries = (\<lambda>_. []), show_json = (\<lambda>_. [])\<rparr>, host_envelope = (\<lambda>_. None)\<rparr>"

definition recipe_engine ::
    "(string \<rightharpoonup> session) recipe \<Rightarrow> ((string \<rightharpoonup> session) site \<times> invoke_request list) engine" where
  "recipe_engine r =
     \<lparr>engine_start_goal = recipe_start_goal r,
      engine_runner =
        \<lparr>runner_graph = the (recipe_build_graph r bare_host absent_agent bare_texts),
         runner_storage = file_session_storage site_disk ''d'', runner_hooks = None\<rparr>,
      engine_backend_name = ''stub'', engine_uuid = (\<lambda>w. (''s'', w))\<rparr>"

lemma trim_tdd: "trim ''tdd'' = ''tdd''"
  by code_simp

theorem shipped_workflows_return_witness:
  "\<exists>ans w'. run_workflow_from (recipe_engine tdd_recipe) ''plan'' (\<lambda>_. None)
      (\<lparr>site_tree = \<lparr>fs_files = (\<lambda>_. None), fs_umask = 0, faults = [], fs_seen = []\<rparr>, site_channel = None, site_global = None,
        site_outside = (\<lambda>_. None)\<rparr>, []) = Some (ans, w')"
proof -
  have "resolve_workflow_recipe_from_cli_name id JNull ''tdd'' = Inr (tdd_recipe :: (string \<rightharpoonup> session) recipe)"
    by (simp add: resolve_workflow_recipe_from_cli_name_def trim_tdd)
  moreover obtain g where "recipe_build_graph tdd_recipe bare_host (absent_agent :: (string \<rightharpoonup> session) backend) bare_texts = Some g"
    using tdd_ok unfolding recipe_ok_def by blast
  ultimately show ?thesis
    using shipped_workflows_return [of id JNull "''tdd''" tdd_recipe bare_host absent_agent bare_texts "recipe_engine tdd_recipe"
        site_disk "''d''" "''plan''" "\<lambda>_. None"] site_disk_ok
    by (simp add: recipe_engine_def) blast
qed

section \<open>What the tables leave open\<close>

text \<open>
  A goal that waits for \<open>tddy-tools submit\<close> and restricts the tools of its agent allows that command, in every shipped recipe and
  for every goal but one: \<open>update-docs\<close>.
\<close>

definition may_not_submit :: "recipe_goals \<Rightarrow> string \<Rightarrow> bool" where
  "may_not_submit r goal \<longleftrightarrow>
     requires_submit r goal \<and>
     (case goal_hints_of r goal of
        Some hs \<Rightarrow> allowed_tools hs \<noteq> [] \<and> ''Bash(tddy-tools *)'' \<notin> set (allowed_tools hs)
      | None \<Rightarrow> True)"

lemmas allowlist_defs = plan_allowlist_def acceptance_tests_allowlist_def evaluate_allowlist_def validate_subagents_allowlist_def
  refactor_allowlist_def merge_pr_allowlist_def update_docs_allowlist_def pr_stack_tool_names_def

lemma tdd_submits: "filter (may_not_submit tdd_goals) (recipe_goal_ids tdd_recipe) = [''update-docs'']"
  by (simp add: tdd_recipe_def may_not_submit_def tdd_goals_def tdd_goal_hints_def hints_def allowlist_defs)

lemma tdd_small_submits: "filter (may_not_submit tdd_small_goals) (recipe_goal_ids tdd_small_recipe) = [''update-docs'']"
  by (simp add: tdd_small_recipe_def may_not_submit_def tdd_small_goals_def tdd_small_goal_hints_def hints_def allowlist_defs)

text \<open>
  The gate of the interview reads the output of the context, which this turn has not written yet: in a first turn
  a numbered list of questions in the answer of the agent does not open it, and the step completes.
\<close>

theorem interview_gate_misses_own_output:
  assumes "it_gate it = bugfix_gate question goal" and "\<not> it_requires_submit it" and "resp_questions response = []"
    and "get_sync from_string ctx ''output'' = None"
  shows "fst (finish_unsubmitted it response again ((s, log), ctx)) = Inr (step_complete (it_id it) (resp_output response))"
proof -
  have "\<not> prose_numbered_clarification_probe []" by code_simp
  then have "bugfix_gate question goal ctx t = (None, t)" for t using assms(4) by (simp add: bugfix_gate_def)
  then show ?thesis
    using assms(1-3) by (simp add: finish_unsubmitted_def and_then_def get_context_def on_tree_def put_def ret_def)
qed

end
