(* ===== verification/Flow_Resume.thy ===== *)
theory Flow_Resume
  imports Flow_Controller Flow_Recipes
begin

text \<open>
  Where a session goes on that its agent drove itself. The controller stores the id of the goal as the state of the
  manifest; a managed session (\<open>tddy-agent-launch\<close>, \<open>managed_resume_goal\<close>) and an agent session of the presenter
  (\<open>tddy-presenter\<close>, \<open>workflow_runner.rs\<close>) read it back when they start again. The theorems join the controller, the
  manifest and the shipped recipes.
\<close>

definition managed_resume_goal :: "'y yaml_io \<Rightarrow> 'y fs \<Rightarrow> string \<Rightarrow> 'v recipe \<Rightarrow> string" where
  "managed_resume_goal io files dir r =
     (let persisted = (case read_changeset io files dir of Inr cs \<Rightarrow> st_current (cs_state cs) | Inl _ \<Rightarrow> []);
          p = trim persisted
      in if p = [] \<or> p = ''Init'' then recipe_start_goal r else p)"

definition agent_start_goal :: "'y yaml_io \<Rightarrow> 'y fs \<Rightarrow> string \<Rightarrow> 'v recipe \<Rightarrow> string" where
  "agent_start_goal io files dir r =
     (case read_changeset io files dir of
        Inr cs \<Rightarrow> if st_current (cs_state cs) \<in> set (recipe_goal_ids r) then st_current (cs_state cs) else recipe_start_goal r
      | Inl _ \<Rightarrow> recipe_start_goal r)"

lemma graph_path_last:
  "graph_path g s ps e \<Longrightarrow> ps \<noteq> [] \<Longrightarrow> e = snd (last ps) \<and> has_task g e"
  by (induction g s ps e rule: graph_path.induct) (auto simp: set_successors split: if_splits)

lemma trimmed_goals:
  "list_all (\<lambda>k. trim k = k)
     [''interview'', ''plan'', ''acceptance-tests'', ''red'', ''green'', ''demo'', ''evaluate'', ''validate'', ''refactor'', ''update-docs'',
      ''post-green-review'', ''analyze'', ''reproduce'', ''grill'', ''create-plan'', ''inspect'', ''branch-review'', ''sync-main'', ''finalize'',
      ''prompting'', ''analyze-stack'', ''write-stack-plan'', ''write-stack-docs'', ''orchestrate'', ''end'']"
  by code_simp

lemma goals_spelled:
  assumes "resolve_workflow_recipe_from_cli_name debug question name = Inr r"
  shows "list_all (\<lambda>k. trim k = k \<and> k \<noteq> [] \<and> k \<noteq> ''Init'') (''end'' # recipe_goal_ids r) \<and> ''end'' \<notin> set (recipe_goal_ids r)"
  using assms trimmed_goals unfolding resolve_workflow_recipe_from_cli_name_def Let_def
  by (auto simp: tdd_recipe_def tdd_small_recipe_def bugfix_recipe_def grill_me_recipe_def review_recipe_def merge_pr_recipe_def
      free_prompting_recipe_def pr_stack_recipe_def split: if_splits)

text \<open>
  C40. After any requests to the controller of a shipped recipe, one of them committed, the manifest leads a managed session back to
  the goal of the last commit, which is a task of the graph and the goal the controller stood at. So does it an agent
  session of the presenter, unless that task is the end of the workflow: then the presenter starts the workflow over.
\<close>

theorem committed_goal_is_resumed:
  assumes "resolve_workflow_recipe_from_cli_name debug question name = Inr r"
    and "recipe_build_graph r h b p = Some (ctl_graph c)"
    and "yaml_ok io" and "ctl_session_dir c = Some dir" and "read_changeset io files dir = Inr cs"
    and "handle_requests io c reqs (new_at start files) = (outs, st')" and "commits outs \<noteq> []"
  shows "current_goal st' = snd (last (commits outs)) \<and> has_task (ctl_graph c) (current_goal st') \<and>
    managed_resume_goal io (ctl_files st') dir r = current_goal st' \<and>
    agent_start_goal io (ctl_files st') dir r =
      (if current_goal st' = ''end'' then recipe_start_goal r else current_goal st')"
proof -
  have run: "graph_path (ctl_graph c) start (commits outs) (current_goal st')"
    "manifest_after io dir files (map snd (commits outs)) (ctl_files st')"
    using requests_outcome [OF assms(3,6,4)] assms(5) by (simp_all add: new_at_def)
  have at: "current_goal st' = snd (last (commits outs))" "has_task (ctl_graph c) (current_goal st')"
    using graph_path_last [OF run(1) assms(7)] by blast+
  obtain cs' where cs': "read_changeset io (ctl_files st') dir = Inr cs'" "st_current (cs_state cs') = current_goal st'"
    using run(2) assms(7) at(1) by (auto simp: manifest_after_def last_map)
  have goal: "current_goal st' = ''end'' \<or> current_goal st' \<in> set (recipe_goal_ids r)"
    using resolved_ok [OF assms(1)] assms(2) at(2) unfolding recipe_ok_def sound_graph_def
    by (metis insertE option.inject subsetD)
  show ?thesis
    using at cs' goal goals_spelled [OF assms(1)]
    by (auto simp: managed_resume_goal_def agent_start_goal_def list_all_iff)
qed

definition review_controller :: "(unit site \<times> invoke_request list) controller" where
  "review_controller =
     \<lparr>ctl_graph = the (review_graph bare_host absent_agent), ctl_session_dir = Some ''/s'', ctl_listening = False,
      ctl_instructions = (\<lambda>g. g)\<rparr>"

lemma review_built:
  obtains g where "review_graph bare_host (absent_agent :: unit backend) = Some g"
    and "set (successors g ''inspect'') = {''branch-review''}"
proof -
  have "\<forall>goal \<in> set [''inspect'', ''branch-review'']. goal_hints_of review_goals goal \<noteq> None"
    by (simp add: review_goals_def hints_def)
  from invoke_tasks_built [OF this, of bare_host "absent_agent :: unit backend"]
  obtain ts where ts: "invoke_tasks bare_host (absent_agent :: unit backend) review_goals [''inspect'', ''branch-review''] = Some ts"
    "map task_id ts = [''inspect'', ''branch-review'']" by (elim exE conjE)
  let ?g = "line_graph ''review'' (ts @ [end_task ''end'']) [(''inspect'', ''branch-review''), (''branch-review'', ''end'')]"
  have "task_id ` set ts = set (map task_id ts)" by simp
  then have "has_task ?g ''branch-review''" unfolding has_task_def line_graph_parts ts(2) by simp
  then have "set (successors ?g ''inspect'') = {''branch-review''}"
    by (auto simp: set_successors edge_targets_def line_graph_parts)
  moreover have "review_graph bare_host absent_agent = Some ?g" by (simp add: review_graph_def ts(1))
  ultimately show thesis by (rule that [rotated])
qed

theorem committed_goal_is_resumed_witness:
  "\<exists>st'. handle_requests verbatim_yaml review_controller [(''1'', ''branch-review'', False)]
       (new_at ''inspect'' [''/s'' \<mapsto> default_changeset ''0'']) = ([Committed ''inspect'' ''branch-review'' ''branch-review''], st') \<and>
     managed_resume_goal verbatim_yaml (ctl_files st') ''/s'' (review_recipe :: unit recipe) = ''branch-review''"
proof -
  let ?st = "new_at ''inspect'' [''/s'' \<mapsto> default_changeset ''0'']"
  obtain g where g: "review_graph bare_host (absent_agent :: unit backend) = Some g" "set (successors g ''inspect'') = {''branch-review''}"
    by (rule review_built)
  obtain st' where run: "handle_requests verbatim_yaml review_controller [(''1'', ''branch-review'', False)] ?st =
      ([Committed ''inspect'' ''branch-review'' ''branch-review''], st')"
    using g by (auto simp: transition_def Let_def review_controller_def new_at_def persist_state_def verbatim_yaml_def
        read_changeset_def write_changeset_atomic_def emit_def)
  have "trim ''review'' = ''review''" by code_simp
  then have r: "resolve_workflow_recipe_from_cli_name id JNull ''review'' = Inr (review_recipe :: unit recipe)"
    by (simp add: resolve_workflow_recipe_from_cli_name_def)
  have c: "recipe_build_graph (review_recipe :: unit recipe) bare_host absent_agent bare_texts = Some (ctl_graph review_controller)"
    "ctl_session_dir review_controller = Some ''/s''"
    using g by (simp_all add: review_recipe_def review_controller_def)
  have io: "yaml_ok verbatim_yaml" "read_changeset verbatim_yaml [''/s'' \<mapsto> default_changeset ''0''] ''/s'' = Inr (default_changeset ''0'')"
    by (simp_all add: yaml_ok_def verbatim_yaml_def read_changeset_def)
  show ?thesis
    using committed_goal_is_resumed [OF r c(1) io(1) c(2) io(2) run] run by auto
qed

text \<open>
  The engine reads the state of the manifest with the vocabulary of its hooks, in which no goal id occurs: a \<open>tdd\<close> session that
  the controller left at any goal starts over at the interview when the engine continues it.
\<close>

theorem engine_restarts_agent_session:
  assumes "st_current (cs_state cs) \<in> set (recipe_goal_ids (tdd_recipe :: 'v recipe))"
    and "map tr_state (st_history (cs_state cs)) = states @ [st_current (cs_state cs)]"
  shows "start_goal_for_session_continue (tdd_recipe :: 'v recipe) cs = ''interview''"
proof -
  have "st_current (cs_state cs) \<noteq> ''Failed''" "tdd_next_goal (st_current (cs_state cs)) = Some ''interview''"
    using assms(1) by (auto simp: tdd_recipe_def tdd_next_goal_def)
  then show ?thesis
    using assms(2) by (simp add: start_goal_for_session_continue_def Let_def tdd_recipe_def)
qed

end
